(* ===== verification/Argus_Prelude.thy ===== *)
theory Argus_Prelude
  imports Main "HOL-Library.Word" "HOL-Library.AList" "HOL-Library.Multiset"
    "HOL-Library.List_Lexorder" "HOL-Library.Char_ord"
begin

text \<open>
  The prelude of the Argus development: the Rust integer and result types, the string and
  collection operations of the Rust standard library that the sources call, and the generic
  facts about them that the component theories share.

  \<^item> Machine integers are words; \<open>i64\<close> identifiers, on which the code does no
    arithmetic, are \<open>int\<close>.
  \<^item> \<open>Result<T, E>\<close> is the sum \<open>'e + 'a\<close> with \<open>Inl\<close> for \<open>Err\<close>;
    \<open>bindR\<close> is the \<open>?\<close> operator and \<open>traverse\<close> is
    \<open>collect::<Result<Vec<_>, _>>()\<close>.
  \<^item> \<open>String\<close> is a list of bytes (\<open>char\<close>), as in Rust's UTF-8 strings.
  \<^item> \<open>HashMap\<close> and \<open>DashMap\<close> are association lists with one entry per key: the
    order of the list stands for the unspecified iteration order.
\<close>

section \<open>Names of types and fact collections\<close>

type_synonym u8 = "8 word"
type_synonym u32 = "32 word"
type_synonym u64 = "64 word"
type_synonym u128 = "128 word"
type_synonym u256 = "256 word"
type_synonym address = "160 word"
type_synonym b256 = "256 word"
type_synonym i64 = int
type_synonym duration = nat
type_synonym timestamp = int

named_theorems result_simps \<open>unfolding the result combinators\<close>
named_theorems alist_simps \<open>lookups in association lists\<close>

section \<open>Results\<close>

definition bindR :: "'e + 'a \<Rightarrow> ('a \<Rightarrow> 'e + 'b) \<Rightarrow> 'e + 'b" where
  "bindR r f = (case r of Inl e \<Rightarrow> Inl e | Inr x \<Rightarrow> f x)"

definition map_err :: "('e \<Rightarrow> 'f) \<Rightarrow> 'e + 'a \<Rightarrow> 'f + 'a" where
  "map_err f r = (case r of Inl e \<Rightarrow> Inl (f e) | Inr x \<Rightarrow> Inr x)"

definition mapR :: "('a \<Rightarrow> 'b) \<Rightarrow> 'e + 'a \<Rightarrow> 'e + 'b" where
  "mapR f r = (case r of Inl e \<Rightarrow> Inl e | Inr x \<Rightarrow> Inr (f x))"

definition ok_or :: "'e \<Rightarrow> 'a option \<Rightarrow> 'e + 'a" where
  "ok_or e opt = (case opt of None \<Rightarrow> Inl e | Some x \<Rightarrow> Inr x)"

definition okR :: "'e + 'a \<Rightarrow> 'a option" where
  "okR r = (case r of Inl _ \<Rightarrow> None | Inr x \<Rightarrow> Some x)"

definition is_ok :: "'e + 'a \<Rightarrow> bool" where
  "is_ok r = (case r of Inl _ \<Rightarrow> False | Inr _ \<Rightarrow> True)"

fun traverse :: "('a \<Rightarrow> 'e + 'b) \<Rightarrow> 'a list \<Rightarrow> 'e + 'b list" where
  "traverse f [] = Inr []"
| "traverse f (x # xs) =
     (case f x of Inl e \<Rightarrow> Inl e
      | Inr y \<Rightarrow> (case traverse f xs of Inl e \<Rightarrow> Inl e | Inr ys \<Rightarrow> Inr (y # ys)))"

lemma bindR_simps [simp]: "bindR (Inl e) f = Inl e" "bindR (Inr x) f = f x"
  by (simp_all add: bindR_def)

lemma map_err_simps [simp]: "map_err f (Inl e) = Inl (f e)" "map_err f (Inr x) = Inr x"
  by (simp_all add: map_err_def)

lemma mapR_simps [simp]: "mapR f (Inl e) = Inl e" "mapR f (Inr x) = Inr (f x)"
  by (simp_all add: mapR_def)

lemma ok_or_simps [simp]: "ok_or e None = Inl e" "ok_or e (Some x) = Inr x"
  by (simp_all add: ok_or_def)

lemma okR_simps [simp]: "okR (Inl e) = None" "okR (Inr x) = Some x"
  by (simp_all add: okR_def)

lemma is_ok_simps [simp]: "\<not> is_ok (Inl e)" "is_ok (Inr x)"
  by (simp_all add: is_ok_def)

lemma bindR_eq_Inr_iff [result_simps]:
  "bindR r f = Inr y \<longleftrightarrow> (\<exists>x. r = Inr x \<and> f x = Inr y)"
  by (cases r) auto

lemma bindR_eq_Inl_iff [result_simps]:
  "bindR r f = Inl e \<longleftrightarrow> r = Inl e \<or> (\<exists>x. r = Inr x \<and> f x = Inl e)"
  by (cases r) auto

lemma map_err_eq_Inr_iff [result_simps]: "map_err f r = Inr y \<longleftrightarrow> r = Inr y"
  by (cases r) auto

lemma map_err_eq_Inl_iff [result_simps]: "map_err f r = Inl e \<longleftrightarrow> (\<exists>d. r = Inl d \<and> e = f d)"
  by (cases r) auto

lemma mapR_eq_Inr_iff [result_simps]: "mapR f r = Inr y \<longleftrightarrow> (\<exists>x. r = Inr x \<and> y = f x)"
  by (cases r) auto

lemma ok_or_eq_Inr_iff [result_simps]: "ok_or e opt = Inr x \<longleftrightarrow> opt = Some x"
  by (cases opt) auto

lemma ok_or_eq_Inl_iff [result_simps]: "ok_or e opt = Inl d \<longleftrightarrow> opt = None \<and> d = e"
  by (cases opt) auto

lemma okR_eq_Some_iff [result_simps]: "okR r = Some x \<longleftrightarrow> r = Inr x"
  by (cases r) auto

lemma traverse_Inr_iff: "traverse f xs = Inr ys \<longleftrightarrow> list_all2 (\<lambda>x y. f x = Inr y) xs ys"
proof (induction xs arbitrary: ys)
  case Nil
  then show ?case by auto
next
  case (Cons x xs)
  show ?case by (cases ys) (auto simp: Cons.IH [symmetric] split: sum.splits)
qed

lemma traverse_map_Inr: "(\<And>x. x \<in> set xs \<Longrightarrow> f x = Inr (g x)) \<Longrightarrow> traverse f xs = Inr (map g xs)"
  by (induction xs) auto

lemma traverse_length: "traverse f xs = Inr ys \<Longrightarrow> length ys = length xs"
  by (simp add: traverse_Inr_iff list_all2_lengthD)

lemma traverse_Inr_imp: "traverse f xs = Inr ys \<Longrightarrow> x \<in> set xs \<Longrightarrow> \<exists>y \<in> set ys. f x = Inr y"
  by (induction xs arbitrary: ys) (auto split: sum.splits)

lemma traverse_Inr_set: "traverse f xs = Inr ys \<Longrightarrow> y \<in> set ys \<Longrightarrow> \<exists>x \<in> set xs. f x = Inr y"
  by (induction xs arbitrary: ys) (auto split: sum.splits)

lemma traverse_Inl: "traverse f xs = Inl e \<Longrightarrow> \<exists>x \<in> set xs. f x = Inl e"
  by (induction xs) (auto split: sum.splits)

section \<open>Stateful fallible operations\<close>

text \<open>An \<open>async fn\<close> on shared state: it returns the state after the call and a result.
  \<open>bindS\<close> is \<open>call().await?\<close> followed by the rest of the body, \<open>liftS\<close> a pure
  fallible expression, \<open>foldS\<close> a loop whose body may return early with an error.\<close>

type_synonym ('s, 'e, 'a) op = "'s \<Rightarrow> 's \<times> ('e + 'a)"

definition retS :: "'a \<Rightarrow> ('s, 'e, 'a) op" where
  "retS x s = (s, Inr x)"

definition errS :: "'e \<Rightarrow> ('s, 'e, 'a) op" where
  "errS e s = (s, Inl e)"

definition liftS :: "'e + 'a \<Rightarrow> ('s, 'e, 'a) op" where
  "liftS r s = (s, r)"

definition bindS :: "('s, 'e, 'a) op \<Rightarrow> ('a \<Rightarrow> ('s, 'e, 'b) op) \<Rightarrow> ('s, 'e, 'b) op" where
  "bindS m f s = (case m s of (t, Inl e) \<Rightarrow> (t, Inl e) | (t, Inr x) \<Rightarrow> f x t)"

fun foldS :: "('x \<Rightarrow> ('s, 'e, unit) op) \<Rightarrow> 'x list \<Rightarrow> ('s, 'e, unit) op" where
  "foldS f [] s = (s, Inr ())"
| "foldS f (x # xs) s = (case f x s of (t, Inl e) \<Rightarrow> (t, Inl e) | (t, Inr _) \<Rightarrow> foldS f xs t)"

lemma opS_simps [simp]: "retS x s = (s, Inr x)" "errS e s = (s, Inl e)" "liftS r s = (s, r)"
  by (simp_all add: retS_def errS_def liftS_def)

lemma bindS_simps [simp]:
  "m s = (t, Inl e) \<Longrightarrow> bindS m f s = (t, Inl e)"
  "m s = (t, Inr x) \<Longrightarrow> bindS m f s = f x t"
  by (simp_all add: bindS_def)

lemma bindS_Inr_iff [result_simps]:
  "bindS m f s = (u, Inr y) \<longleftrightarrow> (\<exists>t x. m s = (t, Inr x) \<and> f x t = (u, Inr y))"
  by (auto simp: bindS_def split: prod.splits sum.splits)

lemma bindS_Inl_iff [result_simps]:
  "bindS m f s = (u, Inl e) \<longleftrightarrow>
     m s = (u, Inl e) \<or> (\<exists>t x. m s = (t, Inr x) \<and> f x t = (u, Inl e))"
  by (auto simp: bindS_def split: prod.splits sum.splits)

lemma fst_bindS:
  "fst (bindS m f s) = (case m s of (t, Inl e) \<Rightarrow> t | (t, Inr x) \<Rightarrow> fst (f x t))"
  by (auto simp: bindS_def split: prod.splits sum.splits)

lemma foldS_append: "foldS f (xs @ ys) = bindS (foldS f xs) (\<lambda>_. foldS f ys)"
  by (induction xs) (auto simp: bindS_def fun_eq_iff split: prod.splits sum.splits)

lemma foldS_map: "foldS f (map g xs) = foldS (f \<circ> g) xs"
  by (induction xs) auto

lemma foldS_invariant:
  assumes "\<And>x s. x \<in> set xs \<Longrightarrow> P s \<Longrightarrow> P (fst (f x s))" "P s"
  shows "P (fst (foldS f xs s))"
  using assms(2,1)
proof (induction xs arbitrary: s)
  case (Cons x xs)
  obtain t r where f: "f x s = (t, r)" by fastforce
  moreover have "P (fst (f x s))" using Cons.prems by simp
  ultimately show ?case using Cons by (simp split: sum.splits)
qed simp

section \<open>Machine integers\<close>

definition saturating_sub :: "'a::len word \<Rightarrow> 'a word \<Rightarrow> 'a word" where
  "saturating_sub a b = (if b \<le> a then a - b else 0)"

definition saturating_add_signed :: "u64 \<Rightarrow> i64 \<Rightarrow> u64" where
  "saturating_add_signed a d =
     (let r = uint a + d
      in if r < 0 then 0 else if 2 ^ 64 \<le> r then - 1 else word_of_int r)"

definition u64_range :: "u64 \<Rightarrow> u64 \<Rightarrow> u64 list" where
  "u64_range a b = map word_of_nat [unat a ..< Suc (unat b)]"

definition i64_max :: int where
  "i64_max = 2 ^ 63 - 1"

lemma unat_saturating_sub [simp]: "unat (saturating_sub a b) = unat a - unat b"
  by (auto simp: saturating_sub_def unat_sub word_le_nat_alt)

lemma unat_plus_no_overflow:
  fixes a b :: "'a::len word"
  assumes "unat a + unat b < 2 ^ LENGTH('a)"
  shows "unat (a + b) = unat a + unat b"
  using assms by (simp add: unat_word_ariths)

lemma unat_Suc_no_overflow:
  fixes a b :: "'a::len word"
  assumes "a < b"
  shows "unat (a + 1) = Suc (unat a)"
proof -
  have "Suc (unat a) \<le> unat b" using assms by (simp add: word_less_nat_alt)
  then have "Suc (unat a) < 2 ^ LENGTH('a)" using unsigned_less [of b] by (rule le_less_trans)
  then have "unat a + unat (1 :: 'a word) < 2 ^ LENGTH('a)" by simp
  then show ?thesis by (simp add: unat_plus_no_overflow)
qed

lemma unat_word_of_nat_le:
  assumes "n \<le> unat (b :: 'a::len word)"
  shows "unat (word_of_nat n :: 'a word) = n"
proof -
  have "n < 2 ^ LENGTH('a)" using assms unsigned_less [of b] by (rule le_less_trans)
  then show ?thesis by (simp add: unat_of_nat)
qed

lemma u64_range_unat [simp]: "map unat (u64_range a b) = [unat a ..< Suc (unat b)]"
  by (auto simp: u64_range_def unat_word_of_nat_le less_Suc_eq_le intro!: map_idI
      simp del: upt_Suc)

lemma set_u64_range: "set (u64_range a b) = {n. a \<le> n \<and> n \<le> b}"
proof (intro set_eqI iffI)
  fix n assume "n \<in> set (u64_range a b)"
  then have "unat n \<in> set (map unat (u64_range a b))" by (simp only: set_map imageI)
  then show "n \<in> {n. a \<le> n \<and> n \<le> b}"
    unfolding u64_range_unat by (auto simp: word_le_nat_alt)
next
  fix n assume "n \<in> {n. a \<le> n \<and> n \<le> b}"
  then have "unat n \<in> set (map unat (u64_range a b))"
    unfolding u64_range_unat by (auto simp: word_le_nat_alt)
  then show "n \<in> set (u64_range a b)" unfolding set_map by (metis imageE word_unat_eq_iff)
qed

lemma distinct_u64_range [simp]: "distinct (u64_range a b)"
  by (metis distinct_map distinct_upt u64_range_unat)

lemma u64_range_empty: "b < a \<Longrightarrow> u64_range a b = []"
  by (simp add: u64_range_def word_less_nat_alt)

lemma u64_range_single [simp]: "u64_range a a = [a]"
  by (simp add: u64_range_def)

lemma u64_range_Cons: "a \<le> b \<Longrightarrow> a \<noteq> b \<Longrightarrow> u64_range a b = a # u64_range (a + 1) b"
proof -
  assume "a \<le> b" "a \<noteq> b"
  then have lt: "a < b" by simp
  then have "unat a < unat b" by (simp add: word_less_nat_alt)
  then show ?thesis
    by (simp add: u64_range_def unat_Suc_no_overflow [OF lt] upt_conv_Cons)
qed

lemma u64_range_append:
  assumes "a \<le> m" "m < b"
  shows "u64_range a b = u64_range a m @ u64_range (m + 1) b"
proof -
  have "unat a \<le> unat m" "unat m < unat b"
    using assms by (simp_all add: word_le_nat_alt word_less_nat_alt)
  then have "[unat a ..< Suc (unat b)] = [unat a ..< Suc (unat m)] @ [Suc (unat m) ..< Suc (unat b)]"
    using upt_add_eq_append [of "unat a" "Suc (unat m)" "unat b - unat m"] by simp
  then show ?thesis
    by (simp add: u64_range_def unat_Suc_no_overflow [OF assms(2)])
qed

section \<open>Strings\<close>

text \<open>ASCII case folding, \<open>str::eq_ignore_ascii_case\<close>, \<open>starts_with\<close>,
  \<open>strip_prefix\<close>, \<open>contains\<close> and the decimal \<open>Display\<close> of integers.\<close>

definition to_ascii_lowercase :: "char \<Rightarrow> char" where
  "to_ascii_lowercase c =
     (if 65 \<le> (of_char c :: nat) \<and> (of_char c :: nat) \<le> 90 then char_of ((of_char c :: nat) + 32) else c)"

definition eq_ignore_ascii_case :: "string \<Rightarrow> string \<Rightarrow> bool" where
  "eq_ignore_ascii_case s t \<longleftrightarrow> map to_ascii_lowercase s = map to_ascii_lowercase t"

fun starts_with :: "string \<Rightarrow> string \<Rightarrow> bool" where
  "starts_with s [] = True"
| "starts_with [] (p # ps) = False"
| "starts_with (c # cs) (p # ps) = (c = p \<and> starts_with cs ps)"

fun strip_prefix :: "string \<Rightarrow> string \<Rightarrow> string option" where
  "strip_prefix s [] = Some s"
| "strip_prefix [] (p # ps) = None"
| "strip_prefix (c # cs) (p # ps) = (if c = p then strip_prefix cs ps else None)"

fun str_contains :: "string \<Rightarrow> string \<Rightarrow> bool" where
  "str_contains [] p = (p = [])"
| "str_contains (c # cs) p = (starts_with (c # cs) p \<or> str_contains cs p)"

definition digit_char :: "nat \<Rightarrow> char" where
  "digit_char d = char_of (48 + d)"

fun show_nat :: "nat \<Rightarrow> string" where
  "show_nat n = (if n < 10 then [digit_char n] else show_nat (n div 10) @ [digit_char (n mod 10)])"

definition show_int :: "int \<Rightarrow> string" where
  "show_int i = (if i < 0 then CHR ''-'' # show_nat (nat (- i)) else show_nat (nat i))"

declare show_nat.simps [simp del]

lemma starts_with_iff: "starts_with s p \<longleftrightarrow> (\<exists>t. s = p @ t)"
  by (induction s p rule: starts_with.induct) auto

lemma strip_prefix_iff: "strip_prefix s p = Some t \<longleftrightarrow> s = p @ t"
  by (induction s p rule: strip_prefix.induct) auto

lemma strip_prefix_append [simp]: "strip_prefix (p @ t) p = Some t"
  by (simp add: strip_prefix_iff)

lemma str_contains_iff: "str_contains s p \<longleftrightarrow> (\<exists>u v. s = u @ p @ v)"
proof (induction s)
  case (Cons c cs)
  show ?case
  proof
    assume "str_contains (c # cs) p"
    then consider t where "c # cs = p @ t" | u v where "cs = u @ p @ v"
      using Cons by (auto simp: starts_with_iff)
    then show "\<exists>u v. c # cs = u @ p @ v"
      by cases (metis append_Nil, metis append_Cons)
  next
    assume "\<exists>u v. c # cs = u @ p @ v"
    then show "str_contains (c # cs) p"
      using Cons by (auto simp: starts_with_iff Cons_eq_append_conv)
  qed
qed auto

lemma of_char_digit_char: "d < 10 \<Longrightarrow> of_char (digit_char d) = 48 + d"
  by (simp add: digit_char_def take_bit_nat_eq_self)

lemma digit_char_inj: "a < 10 \<Longrightarrow> b < 10 \<Longrightarrow> digit_char a = digit_char b \<Longrightarrow> a = b"
  by (metis add_left_cancel of_char_digit_char)

definition is_digit :: "char \<Rightarrow> bool" where
  "is_digit c \<longleftrightarrow> 48 \<le> (of_char c :: nat) \<and> (of_char c :: nat) \<le> 57"

lemma is_digit_digit_char [simp]: "d < 10 \<Longrightarrow> is_digit (digit_char d)"
  by (simp add: is_digit_def of_char_digit_char)

lemma show_nat_digits: "c \<in> set (show_nat n) \<Longrightarrow> is_digit c"
proof (induction n arbitrary: c rule: show_nat.induct)
  case (1 n)
  show ?case
  proof (cases "n < 10")
    case True
    then show ?thesis using "1.prems" by (simp add: show_nat.simps)
  next
    case False
    then show ?thesis using "1.prems" "1.IH" by (subst (asm) show_nat.simps) auto
  qed
qed

lemma show_nat_not_Nil [simp]: "show_nat n \<noteq> []"
  by (subst show_nat.simps) simp

lemma show_nat_inj: "show_nat m = show_nat n \<Longrightarrow> m = n"
proof (induction m arbitrary: n rule: show_nat.induct)
  case (1 m)
  show ?case
  proof (cases "m < 10 \<or> n < 10")
    case True
    have len: "k < 10 \<longleftrightarrow> length (show_nat k) = 1" for k
      by (subst show_nat.simps) simp
    have "m < 10 \<longleftrightarrow> n < 10" using "1.prems" by (simp add: len)
    with True "1.prems" show ?thesis
      by (auto simp: show_nat.simps [of m] show_nat.simps [of n] dest: digit_char_inj)
  next
    case False
    with "1.prems" have "show_nat (m div 10) = show_nat (n div 10)"
      and "digit_char (m mod 10) = digit_char (n mod 10)"
      by (simp_all add: show_nat.simps [of m] show_nat.simps [of n])
    then have "m div 10 = n div 10" "m mod 10 = n mod 10"
      using "1.IH" False by (auto intro: digit_char_inj)
    then show ?thesis by (metis div_mult_mod_eq)
  qed
qed

lemma not_digit_minus [simp]: "\<not> is_digit (CHR ''-'')"
  by (simp add: is_digit_def)

section \<open>Association lists and lists\<close>

text \<open>\<open>entry(k).or_insert(d)\<close> followed by an update of the entry.\<close>

definition entry_update :: "'k \<Rightarrow> 'v \<Rightarrow> ('v \<Rightarrow> 'v) \<Rightarrow> ('k \<times> 'v) list \<Rightarrow> ('k \<times> 'v) list" where
  "entry_update k d f m =
     AList.update k (f (case map_of m k of None \<Rightarrow> d | Some v \<Rightarrow> v)) m"

text \<open>\<open>slice::chunks(n)\<close>, which panics for \<open>n = 0\<close>; the model then gives one chunk per element.\<close>

function chunks :: "nat \<Rightarrow> 'a list \<Rightarrow> 'a list list" where
  "chunks n [] = []"
| "chunks n (x # xs) = take (max 1 n) (x # xs) # chunks n (drop (max 1 n) (x # xs))"
  by pat_completeness auto
termination
  by (relation "measure (\<lambda>(n, xs). length xs)") auto

lemma map_of_update [alist_simps, simp]: "map_of (AList.update k v m) = (map_of m)(k \<mapsto> v)"
  by (rule update_conv')

lemma map_of_entry_update [alist_simps]:
  "map_of (entry_update k d f m) =
     (map_of m)(k \<mapsto> f (case map_of m k of None \<Rightarrow> d | Some v \<Rightarrow> v))"
  by (simp add: entry_update_def)

lemma keys_update: "fst ` set (AList.update k v m) = insert k (fst ` set m)"
  by (simp add: dom_update)

lemma distinct_keys_entry_update [simp]:
  "distinct (map fst m) \<Longrightarrow> distinct (map fst (entry_update k d f m))"
  by (simp add: entry_update_def distinct_update)

lemma concat_chunks [simp]: "concat (chunks n xs) = xs"
  by (induction n xs rule: chunks.induct) auto

lemma length_chunk_le: "c \<in> set (chunks n xs) \<Longrightarrow> 0 < n \<Longrightarrow> length c \<le> n"
  by (induction n xs rule: chunks.induct) auto

lemma chunks_nonempty: "c \<in> set (chunks n xs) \<Longrightarrow> c \<noteq> []"
  by (induction n xs rule: chunks.induct) auto

lemma find_map_of: "find P xs = Some x \<Longrightarrow> x \<in> set xs \<and> P x"
  by (induction xs) (auto split: if_splits)

text \<open>An entry in the middle of an association list, and a list split by a predicate.\<close>

lemma filter_split_count:
  "length (filter P (filter (\<lambda>x. \<not> Q x) xs)) + length (filter P (filter Q xs)) = length (filter P xs)"
  by (induction xs) auto

lemma update_middle: "k \<notin> fst ` set xs \<Longrightarrow> AList.update k v (xs @ (k, v') # ys) = xs @ (k, v) # ys"
  by (induction xs) auto

lemma map_of_middle: "k \<notin> fst ` set xs \<Longrightarrow> map_of (xs @ (k, v) # ys) k = Some v"
  by (induction xs) auto

end
