(* ===== verification/Argus_Models.thy ===== *)
theory Argus_Models
  imports Argus_Prelude
begin

text \<open>
  The data model of \<open>crates/argus-core/src/models\<close> and
  \<open>crates/argus-core/src/action_dispatcher/payload.rs\<close>: JSON values, EVM logs,
  transactions, receipts and blocks, the grouping of raw logs by transaction, monitors,
  action configurations and their validation, monitor matches with their builder and JSON form,
  and action payloads with their idempotency keys.

  Code outside the repository enters as arguments: the textual form of hashes and addresses
  (\<open>json_codec\<close>, \<open>show_hash\<close>), the domain of a URL, and the output function of the
  standard library's unspecified \<open>DefaultHasher\<close>.
\<close>

section \<open>JSON values\<close>

text \<open>A \<open>serde_json::Value\<close>; objects are association lists with one entry per key.\<close>

datatype json =
    JNull
  | JBool bool
  | JNumber int
  | JString string
  | JArray "json list"
  | JObject "(string \<times> json) list"

definition json_get :: "string \<Rightarrow> json \<Rightarrow> json option" where
  "json_get k v = (case v of JObject m \<Rightarrow> map_of m k | _ \<Rightarrow> None)"

definition json_str :: "json \<Rightarrow> string option" where
  "json_str v = (case v of JString s \<Rightarrow> Some s | _ \<Rightarrow> None)"

definition json_int_in :: "int \<Rightarrow> int \<Rightarrow> json \<Rightarrow> int option" where
  "json_int_in lo hi v =
     (case v of JNumber n \<Rightarrow> if lo \<le> n \<and> n \<le> hi then Some n else None | _ \<Rightarrow> None)"

definition json_u64 :: "json \<Rightarrow> u64 option" where
  "json_u64 v = map_option word_of_int (json_int_in 0 (2 ^ 64 - 1) v)"

definition json_i64 :: "json \<Rightarrow> i64 option" where
  "json_i64 v = json_int_in (- (2 ^ 63)) (2 ^ 63 - 1) v"

lemma json_get_simps [simp]:
  "json_get k (JObject m) = map_of m k"
  "json_str (JString s) = Some s"
  "json_u64 (JNumber (uint n)) = Some n"
proof -
  have "uint n \<le> 2 ^ 64 - 1" using uint_lt2p [of n] by simp
  then show "json_u64 (JNumber (uint n)) = Some n"
    by (simp add: json_u64_def json_int_in_def)
qed (simp_all add: json_get_def json_str_def)

lemma json_i64_in [simp]:
  "- (2 ^ 63) \<le> i \<Longrightarrow> i \<le> 2 ^ 63 - 1 \<Longrightarrow> json_i64 (JNumber i) = Some i"
  by (simp add: json_i64_def json_int_in_def)

section \<open>Blockchain data\<close>

record evm_log =
  log_address :: address
  log_topics :: "b256 list"
  log_data :: "u8 list"
  log_block_hash :: "b256 option"
  log_block_number :: "u64 option"
  log_transaction_hash :: "b256 option"
  log_transaction_index :: "u64 option"
  log_log_index :: "u64 option"
  log_removed :: bool

datatype tx_type = Legacy | Eip2930 | Eip1559 | Eip4844 | Eip7702

record evm_tx =
  tx_hash :: b256
  tx_to :: "address option"
  tx_from :: address
  tx_input :: "u8 list"
  tx_value :: u256
  tx_gas :: u64
  tx_gas_price :: "u128 option"
  tx_nonce :: u64
  tx_block_hash :: "b256 option"
  tx_block_number :: "u64 option"
  tx_transaction_index :: "u64 option"
  tx_max_fee_per_gas :: u128
  tx_max_priority_fee_per_gas :: "u128 option"
  tx_chain_id :: "u64 option"
  tx_transaction_type :: tx_type

definition is_contract_creation :: "evm_tx \<Rightarrow> bool" where
  "is_contract_creation tx = (tx_to tx = None)"

record receipt =
  rc_gas_used :: u64
  rc_status :: bool
  rc_effective_gas_price :: u128

datatype block_transactions = FullTxs "evm_tx list" | TxHashes "b256 list"

record block =
  blk_number :: u64
  blk_timestamp :: u64
  blk_logs_bloom :: "2048 word"
  blk_transactions :: block_transactions

definition block_tx_hashes :: "block_transactions \<Rightarrow> b256 list" where
  "block_tx_hashes ts = (case ts of FullTxs txs \<Rightarrow> map tx_hash txs | TxHashes hs \<Rightarrow> hs)"

record block_data =
  bd_block :: block
  bd_receipts :: "(b256 \<times> receipt) list"
  bd_logs :: "(b256 \<times> evm_log list) list"

definition block_data_new ::
  "block \<Rightarrow> (b256 \<times> receipt) list \<Rightarrow> (b256 \<times> evm_log list) list \<Rightarrow> block_data" where
  "block_data_new b rs ls = \<lparr>bd_block = b, bd_receipts = rs, bd_logs = ls\<rparr>"

text \<open>The loop of \<open>from_raw_data\<close>: \<open>entry(tx_hash).or_default().push(log)\<close>.\<close>

fun group_logs :: "evm_log list \<Rightarrow> (b256 \<times> evm_log list) list \<Rightarrow> (b256 \<times> evm_log list) list" where
  "group_logs [] m = m"
| "group_logs (l # ls) m =
     group_logs ls
       (case log_transaction_hash l of
          Some h \<Rightarrow> entry_update h [] (\<lambda>v. v @ [l]) m
        | None \<Rightarrow> m)"

definition from_raw_data ::
  "block \<Rightarrow> (b256 \<times> receipt) list \<Rightarrow> evm_log list \<Rightarrow> block_data" where
  "from_raw_data b rs raw = \<lparr>bd_block = b, bd_receipts = rs, bd_logs = group_logs raw []\<rparr>"

record correlated_item =
  ci_transaction :: evm_tx
  ci_logs :: "evm_log list"
  ci_receipt :: "receipt option"

definition correlated_item_new ::
  "evm_tx \<Rightarrow> evm_log list \<Rightarrow> receipt option \<Rightarrow> correlated_item" where
  "correlated_item_new tx ls r = \<lparr>ci_transaction = tx, ci_logs = ls, ci_receipt = r\<rparr>"

record correlated_block =
  cb_block_number :: u64
  cb_items :: "correlated_item list"

section \<open>Monitors\<close>

type_synonym network_id = string

datatype monitor_status = Active | Paused

definition monitor_status_of_string :: "string \<Rightarrow> monitor_status" where
  "monitor_status_of_string s = (if s = ''paused'' then Paused else Active)"

record monitor_config =
  mc_name :: string
  mc_network :: network_id
  mc_address :: "string option"
  mc_abi_name :: "string option"
  mc_filter_script :: string
  mc_actions :: "string list"
  mc_status :: monitor_status

definition monitor_from_config ::
  "string \<Rightarrow> network_id \<Rightarrow> string option \<Rightarrow> string option \<Rightarrow> string \<Rightarrow> string list \<Rightarrow> monitor_config" where
  "monitor_from_config name network addr abi script acts =
     \<lparr>mc_name = name, mc_network = network, mc_address = addr, mc_abi_name = abi,
      mc_filter_script = script, mc_actions = acts, mc_status = Active\<rparr>"

record monitor =
  mon_id :: i64
  mon_name :: string
  mon_network :: network_id
  mon_address :: "string option"
  mon_abi_name :: "string option"
  mon_filter_script :: string
  mon_actions :: "string list"
  mon_created_at :: timestamp
  mon_updated_at :: timestamp
  mon_status :: monitor_status

section \<open>Monitor matches\<close>

record log_details =
  ld_address :: address
  ld_log_index :: u64
  ld_name :: string
  ld_params :: json

datatype match_data = LogMatch log_details json | TxMatch json

record monitor_match =
  mm_id :: string
  mm_monitor_id :: i64
  mm_monitor_name :: string
  mm_action_name :: string
  mm_block_number :: u64
  mm_transaction_hash :: b256
  mm_match_data :: match_data
  mm_decoded_call :: "json option"

text \<open>The builder; its type parameter is the typestate (\<open>()\<close>, then the match data).\<close>

record 'st match_builder =
  mb_monitor_id :: i64
  mb_monitor_name :: string
  mb_action_name :: string
  mb_block_number :: u64
  mb_transaction_hash :: b256
  mb_match_data :: 'st
  mb_decoded_call :: "json option"

definition match_builder_new ::
  "i64 \<Rightarrow> string \<Rightarrow> string \<Rightarrow> u64 \<Rightarrow> b256 \<Rightarrow> unit match_builder" where
  "match_builder_new mid mname act bn h =
     \<lparr>mb_monitor_id = mid, mb_monitor_name = mname, mb_action_name = act, mb_block_number = bn,
      mb_transaction_hash = h, mb_match_data = (), mb_decoded_call = None\<rparr>"

definition with_match_data :: "'st match_builder \<Rightarrow> match_data \<Rightarrow> match_data match_builder" where
  "with_match_data b d =
     \<lparr>mb_monitor_id = mb_monitor_id b, mb_monitor_name = mb_monitor_name b,
      mb_action_name = mb_action_name b, mb_block_number = mb_block_number b,
      mb_transaction_hash = mb_transaction_hash b, mb_match_data = d,
      mb_decoded_call = mb_decoded_call b\<rparr>"

definition transaction_match :: "unit match_builder \<Rightarrow> json \<Rightarrow> match_data match_builder" where
  "transaction_match b details = with_match_data b (TxMatch details)"

definition log_match :: "unit match_builder \<Rightarrow> log_details \<Rightarrow> json \<Rightarrow> match_data match_builder" where
  "log_match b ld tx = with_match_data b (LogMatch ld tx)"

definition set_decoded_call ::
  "match_data match_builder \<Rightarrow> json option \<Rightarrow> match_data match_builder" where
  "set_decoded_call b c = b\<lparr>mb_decoded_call := c\<rparr>"

definition match_id :: "(b256 \<Rightarrow> string) \<Rightarrow> match_data match_builder \<Rightarrow> string" where
  "match_id show_hash b =
     (case mb_match_data b of
        TxMatch _ \<Rightarrow>
          show_int (mb_monitor_id b) @ ''-'' @ mb_action_name b @ ''-''
            @ show_hash (mb_transaction_hash b)
      | LogMatch ld _ \<Rightarrow>
          show_int (mb_monitor_id b) @ ''-'' @ mb_action_name b @ ''-''
            @ show_hash (mb_transaction_hash b) @ ''-'' @ show_nat (unat (ld_log_index ld)))"

definition build :: "(b256 \<Rightarrow> string) \<Rightarrow> match_data match_builder \<Rightarrow> monitor_match" where
  "build show_hash b =
     \<lparr>mm_id = match_id show_hash b, mm_monitor_id = mb_monitor_id b,
      mm_monitor_name = mb_monitor_name b, mm_action_name = mb_action_name b,
      mm_block_number = mb_block_number b, mm_transaction_hash = mb_transaction_hash b,
      mm_match_data = mb_match_data b, mm_decoded_call = mb_decoded_call b\<rparr>"

subsection \<open>JSON form of a match\<close>

text \<open>The textual codecs of hashes and addresses that the blockchain library supplies.\<close>

record json_codec =
  enc_hash :: "b256 \<Rightarrow> string"
  dec_hash :: "string \<Rightarrow> b256 option"
  enc_addr :: "address \<Rightarrow> string"
  dec_addr :: "string \<Rightarrow> address option"

definition log_details_to_json :: "json_codec \<Rightarrow> log_details \<Rightarrow> json" where
  "log_details_to_json c ld =
     JObject [(''address'', JString (enc_addr c (ld_address ld))),
              (''log_index'', JNumber (uint (ld_log_index ld))),
              (''name'', JString (ld_name ld)),
              (''params'', ld_params ld)]"

definition log_details_of_json :: "json_codec \<Rightarrow> json \<Rightarrow> log_details option" where
  "log_details_of_json c v =
     (case (Option.bind (Option.bind (json_get ''address'' v) json_str) (dec_addr c),
            Option.bind (json_get ''log_index'' v) json_u64,
            Option.bind (json_get ''name'' v) json_str,
            json_get ''params'' v) of
        (Some a, Some i, Some n, Some p) \<Rightarrow>
          Some \<lparr>ld_address = a, ld_log_index = i, ld_name = n, ld_params = p\<rparr>
      | _ \<Rightarrow> None)"

text \<open>\<open>MatchData\<close> is untagged: the fields of the variant, tried in declaration order.\<close>

definition match_data_fields :: "json_codec \<Rightarrow> match_data \<Rightarrow> (string \<times> json) list" where
  "match_data_fields c d =
     (case d of
        LogMatch ld tx \<Rightarrow> [(''log'', log_details_to_json c ld), (''tx'', tx)]
      | TxMatch tx \<Rightarrow> [(''tx'', tx)])"

definition match_data_of_json :: "json_codec \<Rightarrow> json \<Rightarrow> match_data option" where
  "match_data_of_json c v =
     (case (Option.bind (json_get ''log'' v) (log_details_of_json c), json_get ''tx'' v) of
        (Some ld, Some tx) \<Rightarrow> Some (LogMatch ld tx)
      | (None, Some tx) \<Rightarrow> Some (TxMatch tx)
      | (_, None) \<Rightarrow> None)"

text \<open>Serialisation: \<open>match_data\<close> is flattened and an absent \<open>decoded_call\<close> is skipped.\<close>

definition monitor_match_to_json :: "json_codec \<Rightarrow> monitor_match \<Rightarrow> json" where
  "monitor_match_to_json c m =
     JObject ([(''id'', JString (mm_id m)),
               (''monitor_id'', JNumber (mm_monitor_id m)),
               (''monitor_name'', JString (mm_monitor_name m)),
               (''action_name'', JString (mm_action_name m)),
               (''block_number'', JNumber (uint (mm_block_number m))),
               (''transaction_hash'', JString (enc_hash c (mm_transaction_hash m)))]
              @ match_data_fields c (mm_match_data m)
              @ (case mm_decoded_call m of None \<Rightarrow> [] | Some v \<Rightarrow> [(''decoded_call'', v)]))"

definition monitor_match_of_json :: "json_codec \<Rightarrow> json \<Rightarrow> monitor_match option" where
  "monitor_match_of_json c v =
     (case (Option.bind (json_get ''id'' v) json_str,
            Option.bind (json_get ''monitor_id'' v) json_i64,
            Option.bind (json_get ''monitor_name'' v) json_str,
            Option.bind (json_get ''action_name'' v) json_str,
            Option.bind (json_get ''block_number'' v) json_u64,
            Option.bind (Option.bind (json_get ''transaction_hash'' v) json_str) (dec_hash c),
            match_data_of_json c v) of
        (Some i, Some mid, Some mn, Some an, Some bn, Some h, Some d) \<Rightarrow>
          Some \<lparr>mm_id = i, mm_monitor_id = mid, mm_monitor_name = mn, mm_action_name = an,
                mm_block_number = bn, mm_transaction_hash = h, mm_match_data = d,
                mm_decoded_call =
                  (case json_get ''decoded_call'' v of
                     None \<Rightarrow> None | Some JNull \<Rightarrow> None | Some x \<Rightarrow> Some x)\<rparr>
      | _ \<Rightarrow> None)"

section \<open>Action configurations\<close>

record notification_message =
  nm_title :: string
  nm_body :: string

definition notification_message_to_json :: "notification_message \<Rightarrow> json" where
  "notification_message_to_json n =
     JObject [(''title'', JString (nm_title n)), (''body'', JString (nm_body n))]"

definition notification_message_of_json :: "json \<Rightarrow> notification_message option" where
  "notification_message_of_json v =
     (case (Option.bind (json_get ''title'' v) json_str, Option.bind (json_get ''body'' v) json_str) of
        (Some t, Some b) \<Rightarrow> Some \<lparr>nm_title = t, nm_body = b\<rparr>
      | _ \<Rightarrow> None)"

record aggregation_policy =
  ap_window_secs :: duration
  ap_template :: notification_message

record throttle_policy =
  tp_max_count :: u32
  tp_time_window_secs :: duration

datatype action_policy = Aggregation aggregation_policy | Throttle throttle_policy

datatype jitter_setting = JitterNone | JitterFull

record http_retry_config =
  hr_max_retry :: u32
  hr_base_for_backoff :: u32
  hr_initial_backoff_ms :: duration
  hr_max_backoff_secs :: duration
  hr_jitter :: jitter_setting

type_synonym url = string

record generic_webhook_config =
  gw_url :: url
  gw_method :: "string option"
  gw_secret :: "string option"
  gw_headers :: "(string \<times> string) list option"
  gw_message :: notification_message
  gw_retry_policy :: http_retry_config

record slack_config =
  sl_slack_url :: url
  sl_message :: notification_message
  sl_retry_policy :: http_retry_config

record discord_config =
  di_discord_url :: url
  di_message :: notification_message
  di_retry_policy :: http_retry_config

record telegram_config =
  te_token :: string
  te_chat_id :: string
  te_message :: notification_message
  te_disable_web_preview :: "bool option"
  te_retry_policy :: http_retry_config

record stdout_config =
  so_message :: "notification_message option"

record kafka_security_config =
  ks_protocol :: string
  ks_sasl_mechanism :: "string option"
  ks_sasl_username :: "string option"
  ks_sasl_password :: "string option"
  ks_ssl_ca_location :: "string option"

record kafka_producer_config =
  kp_message_timeout_ms :: u64
  kp_compression_codec :: string
  kp_acks :: string

record kafka_config =
  ka_topic :: string
  ka_brokers :: string
  ka_security :: kafka_security_config
  ka_producer :: kafka_producer_config

record rabbitmq_config =
  rq_uri :: string
  rq_exchange :: string
  rq_exchange_type :: string
  rq_routing_key :: "string option"

record nats_credentials =
  nc_token :: "string option"
  nc_file :: "string option"

record nats_config =
  na_urls :: string
  na_subject :: string
  na_credentials :: "nats_credentials option"

datatype action_type_config =
    Webhook generic_webhook_config
  | Slack slack_config
  | Discord discord_config
  | Telegram telegram_config
  | Stdout stdout_config
  | Kafka kafka_config
  | RabbitMq rabbitmq_config
  | Nats nats_config

datatype action_type_config_error =
    EmptyTitle | EmptyTelegramToken | EmptyTelegramChatId | InvalidDiscordUrl | InvalidSlackUrl
  | EmptyKafkaTopic | EmptyKafkaBrokers | EmptyRabbitMqUri | EmptyRabbitMqExchange
  | EmptyNatsUrls | EmptyNatsSubject | BothNatsCredentials

text \<open>\<open>ActionTypeConfig::validate\<close>; \<open>url_domain\<close> is \<open>Url::domain\<close>.\<close>

fun validate_action_type ::
  "(url \<Rightarrow> string option) \<Rightarrow> action_type_config \<Rightarrow> action_type_config_error + unit" where
  "validate_action_type url_domain (Webhook c) =
     (if nm_title (gw_message c) = [] then Inl EmptyTitle else Inr ())"
| "validate_action_type url_domain (Slack c) =
     (if url_domain (sl_slack_url c) \<noteq> Some ''hooks.slack.com'' then Inl InvalidSlackUrl else Inr ())"
| "validate_action_type url_domain (Discord c) =
     (if url_domain (di_discord_url c) \<noteq> Some ''discord.com'' then Inl InvalidDiscordUrl else Inr ())"
| "validate_action_type url_domain (Telegram c) =
     (if te_token c = [] then Inl EmptyTelegramToken
      else if te_chat_id c = [] then Inl EmptyTelegramChatId else Inr ())"
| "validate_action_type url_domain (Stdout c) = Inr ()"
| "validate_action_type url_domain (Kafka c) =
     (if ka_topic c = [] then Inl EmptyKafkaTopic
      else if ka_brokers c = [] then Inl EmptyKafkaBrokers else Inr ())"
| "validate_action_type url_domain (RabbitMq c) =
     (if rq_uri c = [] then Inl EmptyRabbitMqUri
      else if rq_exchange c = [] then Inl EmptyRabbitMqExchange else Inr ())"
| "validate_action_type url_domain (Nats c) =
     (if na_urls c = [] then Inl EmptyNatsUrls
      else if na_subject c = [] then Inl EmptyNatsSubject
      else (case na_credentials c of
              Some creds \<Rightarrow>
                if nc_token creds \<noteq> None \<and> nc_file creds \<noteq> None then Inl BothNatsCredentials else Inr ()
            | None \<Rightarrow> Inr ()))"

record action_config =
  ac_id :: "i64 option"
  ac_name :: string
  ac_config :: action_type_config
  ac_policy :: "action_policy option"

section \<open>Action payloads\<close>

datatype action_payload =
    Single monitor_match
  | Aggregated string "monitor_match list" notification_message

fun payload_action_name :: "action_payload \<Rightarrow> string" where
  "payload_action_name (Single m) = mm_action_name m"
| "payload_action_name (Aggregated a ms t) = a"

fun payload_monitor_name :: "action_payload \<Rightarrow> string" where
  "payload_monitor_name (Single m) = mm_monitor_name m"
| "payload_monitor_name (Aggregated a ms t) = (case ms of [] \<Rightarrow> [] | m # _ \<Rightarrow> mm_monitor_name m)"

fun payload_context :: "json_codec \<Rightarrow> action_payload \<Rightarrow> json" where
  "payload_context c (Single m) = monitor_match_to_json c m"
| "payload_context c (Aggregated a ms t) =
     JObject [(''matches'', JArray (map (monitor_match_to_json c) ms)),
              (''monitor_name'', (case ms of [] \<Rightarrow> JNull | m # _ \<Rightarrow> JString (mm_monitor_name m)))]"

text \<open>\<open>str::hash\<close> writes the bytes of the string and a terminating \<open>0xff\<close>; \<open>finish\<close> is
  the hasher's output on the bytes written so far, and \<open>hex\<close> its \<open>{:x}\<close> form.\<close>

definition hash_write_str :: "string \<Rightarrow> string" where
  "hash_write_str s = s @ [char_of (255::nat)]"

definition hex_digit :: "nat \<Rightarrow> char" where
  "hex_digit d = (if d < 10 then char_of (48 + d) else char_of (87 + d))"

fun show_hex :: "nat \<Rightarrow> string" where
  "show_hex n = (if n < 16 then [hex_digit n] else show_hex (n div 16) @ [hex_digit (n mod 16)])"

declare show_hex.simps [simp del]

fun idempotency_key :: "(string \<Rightarrow> u64) \<Rightarrow> action_payload \<Rightarrow> string" where
  "idempotency_key finish (Single m) = mm_id m"
| "idempotency_key finish (Aggregated a ms t) =
     ''agg-'' @ show_hex (unat (finish (concat (map hash_write_str (sort (map mm_id ms))))))"

text \<open>The JSON form of a payload (externally tagged), as stored in the outbox.\<close>

fun payload_to_json :: "json_codec \<Rightarrow> action_payload \<Rightarrow> json" where
  "payload_to_json c (Single m) = JObject [(''Single'', monitor_match_to_json c m)]"
| "payload_to_json c (Aggregated a ms t) =
     JObject [(''Aggregated'',
       JObject [(''action_name'', JString a),
                (''matches'', JArray (map (monitor_match_to_json c) ms)),
                (''template'', notification_message_to_json t)])]"

definition payload_of_json :: "json_codec \<Rightarrow> json \<Rightarrow> action_payload option" where
  "payload_of_json c v =
     (case v of
        JObject [(tag, w)] \<Rightarrow>
          (if tag = ''Single'' then map_option Single (monitor_match_of_json c w)
           else if tag = ''Aggregated'' then
             (case (Option.bind (json_get ''action_name'' w) json_str,
                    (case json_get ''matches'' w of
                       Some (JArray vs) \<Rightarrow> those (map (monitor_match_of_json c) vs) | _ \<Rightarrow> None),
                    Option.bind (json_get ''template'' w) notification_message_of_json) of
                (Some a, Some ms, Some t) \<Rightarrow> Some (Aggregated a ms t)
              | _ \<Rightarrow> None)
           else None)
      | _ \<Rightarrow> None)"

section \<open>Facts about the data model\<close>

lemma group_logs_lookup:
  "map_of (group_logs ls m) h =
     (let new = filter (\<lambda>l. log_transaction_hash l = Some h) ls
      in case map_of m h of
           None \<Rightarrow> (if new = [] then None else Some new)
         | Some old \<Rightarrow> Some (old @ new))"
proof (induction ls arbitrary: m)
  case Nil
  then show ?case by (simp split: option.splits)
next
  case (Cons l ls)
  show ?case
    by (auto simp: Cons.IH Let_def map_of_entry_update split: option.splits)
qed

lemma group_logs_distinct: "distinct (map fst m) \<Longrightarrow> distinct (map fst (group_logs ls m))"
  by (induction ls arbitrary: m) (auto split: option.splits)

text \<open>\<open>BlockData::from_raw_data\<close> files every raw log under its own transaction hash, in the
  order in which the node returned the logs, and files nothing else: the entry of a hash is
  absent exactly when no log carries it, and logs without a transaction hash are dropped.\<close>

lemma from_raw_data_groups:
  "map_of (bd_logs (from_raw_data b rs raw)) h =
     (let own = filter (\<lambda>l. log_transaction_hash l = Some h) raw
      in if own = [] then None else Some own)"
  by (simp add: from_raw_data_def group_logs_lookup Let_def)

subsection \<open>Match identifiers\<close>

definition hex_display :: "(b256 \<Rightarrow> string) \<Rightarrow> bool" where
  "hex_display sh \<longleftrightarrow> inj sh \<and> (\<forall>h. length (sh h) = 66 \<and> CHR ''x'' \<in> set (sh h) \<and> CHR ''-'' \<notin> set (sh h))"

lemma split_at_first:
  assumes "xs @ c # ys = xs' @ c # ys'" "c \<notin> set xs" "c \<notin> set xs'"
  shows "xs = xs' \<and> ys = ys'"
  using assms by (induction xs arbitrary: xs') (auto simp: Cons_eq_append_conv)

lemma split_at_last:
  assumes "xs @ c # ys = xs' @ c # ys'" "c \<notin> set ys" "c \<notin> set ys'"
  shows "xs = xs' \<and> ys = ys'"
proof -
  have "rev ys @ c # rev xs = rev ys' @ c # rev xs'" using arg_cong [OF assms(1), of rev] by simp
  then have "rev ys = rev ys' \<and> rev xs = rev xs'" by (rule split_at_first) (use assms in auto)
  then show ?thesis by simp
qed

lemma show_nat_no_minus [simp]: "CHR ''-'' \<notin> set (show_nat n)"
  using show_nat_digits by fastforce

lemma show_nat_no_x [simp]: "CHR ''x'' \<notin> set (show_nat n)"
  using show_nat_digits [of "CHR ''x''" n] by (auto simp: is_digit_def)

lemma show_int_minus_split:
  assumes "show_int i @ CHR ''-'' # a = show_int j @ CHR ''-'' # b"
  shows "i = j \<and> a = b"
proof -
  have nz: "hd (show_nat n) \<noteq> CHR ''-''" "show_nat n = x # xs \<Longrightarrow> x \<noteq> CHR ''-''" for n x xs
    using show_nat_no_minus [of n] by (metis hd_in_set show_nat_not_Nil, auto)
  have sgn: "i < 0 \<longleftrightarrow> j < 0"
    using assms nz by (cases "show_nat (nat i)"; cases "show_nat (nat j)")
       (auto simp: show_int_def split: if_splits)
  show ?thesis
  proof (cases "i < 0")
    case True
    with sgn assms have "show_nat (nat (- i)) @ CHR ''-'' # a = show_nat (nat (- j)) @ CHR ''-'' # b"
      by (simp add: show_int_def)
    then have "show_nat (nat (- i)) = show_nat (nat (- j)) \<and> a = b" by (rule split_at_first) simp_all
    with True sgn show ?thesis by (auto dest: show_nat_inj)
  next
    case False
    with sgn assms have "show_nat (nat i) @ CHR ''-'' # a = show_nat (nat j) @ CHR ''-'' # b"
      by (simp add: show_int_def)
    then have "show_nat (nat i) = show_nat (nat j) \<and> a = b" by (rule split_at_first) simp_all
    with False sgn show ?thesis by (auto dest: show_nat_inj)
  qed
qed

definition match_slot :: "match_data \<Rightarrow> u64 option" where
  "match_slot d = (case d of TxMatch _ \<Rightarrow> None | LogMatch ld _ \<Rightarrow> Some (ld_log_index ld))"

lemma match_id_prefix_inj:
  assumes sh: "hex_display sh"
    and eq: "show_int i @ CHR ''-'' # a @ CHR ''-'' # sh h = show_int j @ CHR ''-'' # b @ CHR ''-'' # sh k"
  shows "i = j \<and> a = b \<and> h = k"
proof -
  have "(show_int i @ CHR ''-'' # a) @ CHR ''-'' # sh h = (show_int j @ CHR ''-'' # b) @ CHR ''-'' # sh k"
    using eq by simp
  then have "show_int i @ CHR ''-'' # a = show_int j @ CHR ''-'' # b \<and> sh h = sh k"
    by (rule split_at_last) (use sh in \<open>auto simp: hex_display_def\<close>)
  then have "show_int i @ CHR ''-'' # a = show_int j @ CHR ''-'' # b" and "sh h = sh k" by blast+
  moreover have "inj sh" using sh by (simp add: hex_display_def)
  ultimately show ?thesis using show_int_minus_split injD [of sh h k] by blast
qed

lemma match_id_unique_fields:
  assumes sh: "hex_display sh" and eq: "mm_id (build sh b) = mm_id (build sh b')"
  shows "mb_monitor_id b = mb_monitor_id b' \<and> mb_action_name b = mb_action_name b' \<and>
    mb_transaction_hash b = mb_transaction_hash b' \<and>
    match_slot (mb_match_data b) = match_slot (mb_match_data b')"
proof -
  let ?p = "\<lambda>b. show_int (mb_monitor_id b) @ CHR ''-'' # mb_action_name b @ CHR ''-'' # sh (mb_transaction_hash b)"
  have id: "mm_id (build sh b) = (case match_slot (mb_match_data b) of
      None \<Rightarrow> ?p b | Some n \<Rightarrow> ?p b @ CHR ''-'' # show_nat (unat n))" for b
    by (simp add: build_def match_id_def match_slot_def split: match_data.splits)
  have mixed: False if "?p c @ CHR ''-'' # show_nat n = ?p d" for c d n
  proof -
    have "?p c @ CHR ''-'' # show_nat n
      = (show_int (mb_monitor_id d) @ CHR ''-'' # mb_action_name d) @ CHR ''-'' # sh (mb_transaction_hash d)"
      using that by simp
    then have "show_nat n = sh (mb_transaction_hash d)"
      by (rule split_at_last [THEN conjunct2]) (use sh in \<open>auto simp: hex_display_def\<close>)
    then show False using sh show_nat_no_x [of n] by (auto simp: hex_display_def)
  qed
  have pre: "?p b = ?p b' \<and> match_slot (mb_match_data b) = match_slot (mb_match_data b')"
  proof (cases "match_slot (mb_match_data b)"; cases "match_slot (mb_match_data b')")
    fix m n assume s: "match_slot (mb_match_data b) = Some m" "match_slot (mb_match_data b') = Some n"
    then have "?p b @ CHR ''-'' # show_nat (unat m) = ?p b' @ CHR ''-'' # show_nat (unat n)"
      using eq by (simp add: id)
    then have "?p b = ?p b' \<and> show_nat (unat m) = show_nat (unat n)" by (rule split_at_last) simp_all
    then show ?thesis using s show_nat_inj [of "unat m" "unat n"] by (simp add: word_unat_eq_iff)
  qed (use eq mixed mixed [OF sym] in \<open>auto simp: id\<close>)
  then show ?thesis using match_id_prefix_inj [OF sh] by blast
qed

text \<open>C7. Match identifiers identify: two built matches carry the same id exactly when they agree on
  the monitor, the action, the transaction and, for log matches, the log index; a transaction match
  never shares an id with a log match, even when action names contain dashes and digits.\<close>

theorem match_id_unique:
  assumes "hex_display sh"
  shows "mm_id (build sh b) = mm_id (build sh b') \<longleftrightarrow>
    mb_monitor_id b = mb_monitor_id b' \<and> mb_action_name b = mb_action_name b' \<and>
    mb_transaction_hash b = mb_transaction_hash b' \<and>
    match_slot (mb_match_data b) = match_slot (mb_match_data b')"
  using match_id_unique_fields [OF assms, of b b']
  by (auto simp: build_def match_id_def match_slot_def split: match_data.splits)

subsection \<open>JSON round trips\<close>

definition codec_ok :: "json_codec \<Rightarrow> bool" where
  "codec_ok c \<longleftrightarrow> (\<forall>h. dec_hash c (enc_hash c h) = Some h) \<and> (\<forall>a. dec_addr c (enc_addr c a) = Some a)"

definition match_serialisable :: "monitor_match \<Rightarrow> bool" where
  "match_serialisable m \<longleftrightarrow>
     - (2 ^ 63) \<le> mm_monitor_id m \<and> mm_monitor_id m \<le> 2 ^ 63 - 1 \<and> mm_decoded_call m \<noteq> Some JNull"

lemma log_details_roundtrip [simp]:
  "codec_ok c \<Longrightarrow> log_details_of_json c (log_details_to_json c ld) = Some ld"
  by (simp add: log_details_of_json_def log_details_to_json_def codec_ok_def)

lemma match_data_roundtrip:
  assumes "codec_ok c" "map_of fs ''log'' = map_of (match_data_fields c d) ''log''"
    "map_of fs ''tx'' = map_of (match_data_fields c d) ''tx''"
  shows "match_data_of_json c (JObject fs) = Some d"
  using assms by (cases d) (simp_all add: match_data_of_json_def match_data_fields_def)

lemma monitor_match_json_roundtrip:
  assumes c: "codec_ok c" and m: "match_serialisable m"
  shows "monitor_match_of_json c (monitor_match_to_json c m) = Some m"
proof -
  have d: "match_data_of_json c (monitor_match_to_json c m) = Some (mm_match_data m)"
    unfolding monitor_match_to_json_def
    by (rule match_data_roundtrip [OF c])
       (simp_all add: match_data_fields_def map_add_def split: match_data.splits option.splits)
  show ?thesis
    using c m
    by (cases "mm_match_data m"; cases "mm_decoded_call m")
       (auto simp: monitor_match_of_json_def d codec_ok_def match_serialisable_def,
        auto simp: monitor_match_to_json_def match_data_fields_def split: json.splits)
qed

lemma those_map_Some: "(\<And>x. x \<in> set xs \<Longrightarrow> f x = Some (g x)) \<Longrightarrow> those (map f xs) = Some (map g xs)"
  by (induction xs) auto

lemma matches_json_roundtrip:
  assumes "codec_ok c" "\<And>m. m \<in> set ms \<Longrightarrow> match_serialisable m"
  shows "those (map (monitor_match_of_json c) (map (monitor_match_to_json c) ms)) = Some ms"
proof -
  have "those (map (\<lambda>m. monitor_match_of_json c (monitor_match_to_json c m)) ms) = Some (map (\<lambda>m. m) ms)"
    by (rule those_map_Some) (use assms monitor_match_json_roundtrip in blast)
  then show ?thesis by (simp add: o_def)
qed

lemma notification_message_roundtrip [simp]:
  "notification_message_of_json (notification_message_to_json t) = Some t"
  by (simp add: notification_message_of_json_def notification_message_to_json_def)

fun payload_matches :: "action_payload \<Rightarrow> monitor_match list" where
  "payload_matches (Single m) = [m]"
| "payload_matches (Aggregated a ms t) = ms"

lemma payload_roundtrip:
  assumes "codec_ok c" "\<And>m. m \<in> set (payload_matches p) \<Longrightarrow> match_serialisable m"
  shows "payload_of_json c (payload_to_json c p) = Some p"
  using assms monitor_match_json_roundtrip [of c] matches_json_roundtrip [of c]
  by (cases p) (simp_all add: payload_of_json_def)

text \<open>C28. What the outbox stores is what the dispatcher gets back: decoding the JSON form of a payload
  returns the payload, for single and aggregated payloads with log and transaction matches, provided
  the monitor ids are 64-bit and no match carries an explicit JSON \<open>null\<close> as its decoded call.\<close>

theorem payload_json_roundtrip:
  assumes "codec_ok c" "\<And>m. m \<in> set (payload_matches p) \<Longrightarrow> match_serialisable m"
  shows "payload_of_json c (payload_to_json c p) = Some p"
  using assms by (rule payload_roundtrip)

subsection \<open>Idempotency keys\<close>

lemma concat_terminated_inj:
  assumes "concat (map (\<lambda>s. s @ [c]) xs) = concat (map (\<lambda>s. s @ [c]) ys)"
    "\<And>s. s \<in> set xs \<Longrightarrow> c \<notin> set s" "\<And>s. s \<in> set ys \<Longrightarrow> c \<notin> set s"
  shows "xs = ys"
  using assms
proof (induction xs arbitrary: ys)
  case Nil
  then show ?case by (cases ys) auto
next
  case (Cons x xs)
  then obtain y ys' where ys: "ys = y # ys'" by (cases ys) auto
  with Cons.prems have "x @ c # concat (map (\<lambda>s. s @ [c]) xs) = y @ c # concat (map (\<lambda>s. s @ [c]) ys')"
    by simp
  then have "x = y \<and> concat (map (\<lambda>s. s @ [c]) xs) = concat (map (\<lambda>s. s @ [c]) ys')"
    by (rule split_at_first) (use Cons.prems ys in auto)
  with Cons ys show ?case by auto
qed

lemma hex_digit_inj: "a < 16 \<Longrightarrow> b < 16 \<Longrightarrow> hex_digit a = hex_digit b \<Longrightarrow> a = b"
proof -
  assume ab: "a < 16" "b < 16" "hex_digit a = hex_digit b"
  have v: "of_char (hex_digit d) = (if d < 10 then 48 + d else 87 + d)" if "d < 16" for d :: nat
    using that by (simp add: hex_digit_def take_bit_nat_eq_self)
  have "(if a < 10 then 48 + a else 87 + a) = (if b < 10 then 48 + b else 87 + b)"
    using v [OF ab(1)] v [OF ab(2)] ab(3) by simp
  then show "a = b" by (simp split: if_splits)
qed

lemma show_hex_inj: "show_hex m = show_hex n \<Longrightarrow> m = n"
proof (induction m arbitrary: n rule: show_hex.induct)
  case (1 m)
  have ne: "show_hex k \<noteq> []" for k by (subst show_hex.simps) simp
  have len: "k < 16 \<longleftrightarrow> length (show_hex k) = 1" for k
    by (subst show_hex.simps) (simp add: ne)
  show ?case
  proof (cases "m < 16 \<or> n < 16")
    case True
    moreover have "m < 16 \<longleftrightarrow> n < 16" using "1.prems" by (simp add: len)
    ultimately show ?thesis using "1.prems"
      by (auto simp: show_hex.simps [of m] show_hex.simps [of n] dest: hex_digit_inj)
  next
    case False
    with "1.prems" have "show_hex (m div 16) = show_hex (n div 16)"
      and "hex_digit (m mod 16) = hex_digit (n mod 16)"
      by (simp_all add: show_hex.simps [of m] show_hex.simps [of n])
    then have "m div 16 = n div 16" "m mod 16 = n mod 16"
      using "1.IH" False by (auto intro: hex_digit_inj)
    then show ?thesis by (metis div_mult_mod_eq)
  qed
qed

definition hash_stream :: "monitor_match list \<Rightarrow> string" where
  "hash_stream ms = concat (map hash_write_str (sort (map mm_id ms)))"

definition utf8_ids :: "monitor_match list \<Rightarrow> bool" where
  "utf8_ids ms \<longleftrightarrow> (\<forall>m \<in> set ms. char_of (255::nat) \<notin> set (mm_id m))"

lemma hash_stream_inj:
  assumes "hash_stream ms = hash_stream ms'" "utf8_ids ms" "utf8_ids ms'"
  shows "mset (map mm_id ms) = mset (map mm_id ms')"
proof -
  have "sort (map mm_id ms) = sort (map mm_id ms')"
    by (rule concat_terminated_inj [where c = "char_of (255::nat)"])
       (use assms in \<open>auto simp: hash_stream_def hash_write_str_def [abs_def] utf8_ids_def\<close>)
  then show ?thesis by (metis mset_sort)
qed

text \<open>The idempotency key of an aggregated payload depends on exactly the multiset of its match
  identifiers: it does not change with the order of the matches, the action or the template, and it
  separates any two collections of matches that the hash function does not confuse (identifiers being
  UTF-8, which never contains the byte \<open>0xff\<close> that terminates each of them).\<close>

lemma idempotency_key_aggregated_iff:
  assumes "utf8_ids ms" "utf8_ids ms'" "inj_on finish {hash_stream ms, hash_stream ms'}"
  shows "idempotency_key finish (Aggregated a ms t) = idempotency_key finish (Aggregated a' ms' t')
    \<longleftrightarrow> mset (map mm_id ms) = mset (map mm_id ms')"
proof
  assume "idempotency_key finish (Aggregated a ms t) = idempotency_key finish (Aggregated a' ms' t')"
  then have "show_hex (unat (finish (hash_stream ms))) = show_hex (unat (finish (hash_stream ms')))"
    by (simp add: hash_stream_def)
  then have "finish (hash_stream ms) = finish (hash_stream ms')"
    by (rule show_hex_inj [THEN word_unat_eq_iff [THEN iffD2]])
  then have "hash_stream ms = hash_stream ms'"
    using assms(3) by (auto dest: inj_onD)
  then show "mset (map mm_id ms) = mset (map mm_id ms')" using assms(1,2) by (rule hash_stream_inj)
next
  assume "mset (map mm_id ms) = mset (map mm_id ms')"
  then have "sort (map mm_id ms) = sort (map mm_id ms')"
    by (metis properties_for_sort mset_sort sorted_sort)
  then show "idempotency_key finish (Aggregated a ms t) = idempotency_key finish (Aggregated a' ms' t')"
    by simp
qed


section \<open>The hexadecimal text form of hashes and addresses\<close>

text \<open>The blockchain library prints a hash as \<open>0x\<close> and 64 lower-case digits and an address as
  \<open>0x\<close> and 40 digits. The witnesses instantiate the codec parameter with this form.\<close>

definition hex_value :: "char \<Rightarrow> nat" where
  "hex_value c = (let n = of_char c in if n < 58 then n - 48 else n - 87)"

definition parse_hex :: "string \<Rightarrow> nat" where
  "parse_hex s = foldl (\<lambda>n c. 16 * n + hex_value c) 0 s"

definition fixed_hex :: "nat \<Rightarrow> nat \<Rightarrow> string" where
  "fixed_hex w n = ''0x'' @ replicate (w - length (show_hex n)) CHR ''0'' @ show_hex n"

definition parse_fixed_hex :: "string \<Rightarrow> 'a::len word option" where
  "parse_fixed_hex s = map_option (\<lambda>d. word_of_nat (parse_hex d)) (strip_prefix s ''0x'')"

definition hex_codec :: json_codec where
  "hex_codec = \<lparr>enc_hash = (\<lambda>h. fixed_hex 64 (unat h)), dec_hash = parse_fixed_hex,
    enc_addr = (\<lambda>a. fixed_hex 40 (unat a)), dec_addr = parse_fixed_hex\<rparr>"

lemma hex_value_digit [simp]: "d < 16 \<Longrightarrow> hex_value (hex_digit d) = d"
  by (simp add: hex_value_def hex_digit_def take_bit_nat_eq_self)

lemma parse_show_hex [simp]: "parse_hex (show_hex n) = n"
  unfolding parse_hex_def
  by (induction n rule: show_hex.induct) (subst show_hex.simps, simp)

lemma parse_hex_zeros [simp]: "parse_hex (replicate k CHR ''0'' @ s) = parse_hex s"
  by (induction k) (simp_all add: parse_hex_def hex_value_def)

lemma parse_fixed_hex [simp]: "parse_fixed_hex (fixed_hex w (unat (h :: 'a::len word))) = Some h"
  by (simp add: parse_fixed_hex_def fixed_hex_def)

lemma show_hex_length: "n < 16 ^ Suc k \<Longrightarrow> length (show_hex n) \<le> Suc k"
proof (induction k arbitrary: n)
  case 0
  then show ?case by (subst show_hex.simps) simp
next
  case (Suc k)
  then show ?case by (subst show_hex.simps) (simp add: less_mult_imp_div_less)
qed

lemma show_hex_chars: "c \<in> set (show_hex n) \<Longrightarrow> \<exists>d < 16. c = hex_digit d"
proof (induction n rule: show_hex.induct)
  case (1 n)
  have "n mod 16 < 16" by simp
  then show ?case using 1 by (subst (asm) (2) show_hex.simps) (auto split: if_splits intro: exI [of _ "n mod 16"])
qed

lemma hex_digit_not_minus: "d < 16 \<Longrightarrow> hex_digit d \<noteq> CHR ''-''"
  using hex_value_digit [of d] hex_digit_inj
  by (auto simp: hex_digit_def char_of_eq_iff take_bit_nat_eq_self split: if_splits)

lemma hex_codec_ok: "codec_ok hex_codec"
  by (simp add: codec_ok_def hex_codec_def)

lemma hex_codec_display: "hex_display (enc_hash hex_codec)"
proof -
  have "inj (enc_hash hex_codec)"
    using hex_codec_ok by (metis codec_ok_def injI option.inject)
  moreover have "length (enc_hash hex_codec h) = 66" for h
  proof -
    have "unat h < 16 ^ Suc 63" using unsigned_less [of h] by simp
    then have "length (show_hex (unat h)) \<le> 64" using show_hex_length by fastforce
    then show ?thesis by (simp add: hex_codec_def fixed_hex_def)
  qed
  moreover have "CHR ''-'' \<notin> set (enc_hash hex_codec h)" for h
  proof -
    have "CHR ''-'' \<notin> set (show_hex (unat h))"
      using show_hex_chars [of "CHR ''-''" "unat h"] hex_digit_not_minus by metis
    then show ?thesis by (simp add: hex_codec_def fixed_hex_def)
  qed
  ultimately show ?thesis by (simp add: hex_display_def hex_codec_def fixed_hex_def)
qed

section \<open>Witnesses\<close>

definition sample_builder :: "u64 \<Rightarrow> match_data match_builder" where
  "sample_builder i =
     log_match (match_builder_new 7 ''large-transfer'' ''slack-1'' 100 255)
       \<lparr>ld_address = 16, ld_log_index = i, ld_name = ''Transfer'', ld_params = JObject []\<rparr> (JObject [])"

definition sample_match :: "u64 \<Rightarrow> monitor_match" where
  "sample_match i = build (enc_hash hex_codec) (sample_builder i)"

lemmas sample_defs =
  sample_match_def sample_builder_def log_match_def with_match_data_def match_builder_new_def
  match_slot_def build_def match_id_def

lemma sample_match_serialisable: "match_serialisable (sample_match i)"
  by (simp add: sample_defs match_serialisable_def)

theorem match_id_unique_witness:
  "mm_id (sample_match 1) \<noteq> mm_id (sample_match 11)"
  using match_id_unique [OF hex_codec_display, of "sample_builder 1" "sample_builder 11"]
  by (simp add: sample_match_def sample_builder_def log_match_def with_match_data_def match_slot_def)

theorem payload_json_roundtrip_witness:
  "payload_of_json hex_codec (payload_to_json hex_codec
     (Aggregated ''slack-1'' [sample_match 1, sample_match 2] \<lparr>nm_title = ''t'', nm_body = ''b''\<rparr>))
   = Some (Aggregated ''slack-1'' [sample_match 1, sample_match 2] \<lparr>nm_title = ''t'', nm_body = ''b''\<rparr>)"
  by (rule payload_json_roundtrip) (auto simp: hex_codec_ok sample_match_serialisable)

definition id_match :: "string \<Rightarrow> monitor_match" where
  "id_match i = (sample_match 0)\<lparr>mm_id := i\<rparr>"

lemma idempotency_key_aggregated_iff_example:
  "idempotency_key (\<lambda>s. word_of_nat (length s)) (Aggregated ''a'' [id_match ''1-x'', id_match ''2'']
       \<lparr>nm_title = [], nm_body = []\<rparr>)
   = idempotency_key (\<lambda>s. word_of_nat (length s)) (Aggregated ''b'' [id_match ''2'', id_match ''1-x'']
       \<lparr>nm_title = ''t'', nm_body = []\<rparr>)"
proof -
  let ?ms = "[id_match ''1-x'', id_match ''2'']" and ?ms' = "[id_match ''2'', id_match ''1-x'']"
  have "sort (map mm_id ?ms) = sort (map mm_id ?ms')"
    by (rule properties_for_sort) (simp_all add: id_match_def)
  then have "hash_stream ?ms = hash_stream ?ms'" by (simp add: hash_stream_def)
  then show ?thesis
    by (subst idempotency_key_aggregated_iff)
       (simp_all add: utf8_ids_def id_match_def char_of_def)
qed

end
