(* ===== verification/Argus_Store.thy ===== *)
theory Argus_Store
  imports Argus_Models
begin

text \<open>
  The SQLite repository: \<open>crates/argus-store/src\<close> over the schema of \<open>migrations\<close>,
  and the traits of \<open>crates/argus-core/src/persistence\<close>.

  A database is a record of tables. Every statement goes through \<open>exec\<close>, which consumes one
  entry of a fault oracle: the engine may refuse any statement, and then the operation returns
  \<open>OperationFailed\<close>. A transaction restores the tables on every error path. The unique
  indexes, the foreign key from monitors to ABIs, \<open>INSERT OR IGNORE\<close>, \<open>INSERT OR REPLACE\<close>,
  \<open>ORDER BY\<close>, \<open>LIMIT\<close> and \<open>LIKE\<close> are written out. \<open>AUTOINCREMENT\<close> promises only
  that a new row id exceeds every earlier one, so ids may skip by an arbitrary gap.

  JSON columns hold JSON values. The text of a JSON value, the derived codec of an action
  configuration, the hasher and SQLite's conversion of a text operand compared with an integer
  column come from other crates and are fields of the parameter \<open>store_env\<close>.
\<close>

section \<open>Errors and environment\<close>

datatype persistence_error =
    OperationFailed string
  | NotFound
  | SerializationError string
  | MigrationError string
  | InvalidInput string
  | AbiInUse "string list"

record store_env =
  se_codec :: json_codec
  se_finish :: "string \<Rightarrow> u64"
  se_json_text :: "json \<Rightarrow> string"
  se_enc_action :: "action_config \<Rightarrow> json"
  se_dec_action :: "json \<Rightarrow> action_config option"
  se_int_affinity :: "string \<Rightarrow> i64 option"
  se_rowid_gap :: "i64 \<Rightarrow> nat"

section \<open>Tables\<close>

record monitor_row =
  mr_monitor_id :: i64
  mr_name :: string
  mr_network :: network_id
  mr_address :: "string option"
  mr_abi_name :: "string option"
  mr_filter_script :: string
  mr_actions :: json
  mr_created_at :: timestamp
  mr_updated_at :: timestamp
  mr_status :: monitor_status

record action_row =
  ar_action_id :: i64
  ar_name :: string
  ar_network_id :: network_id
  ar_config :: json

record outbox_row =
  ob_id :: i64
  ob_action_name :: string
  ob_payload :: json
  ob_retries :: i64
  ob_last_attempt :: "timestamp option"
  ob_idempotency_key :: string

record outbox_item =
  oi_id :: i64
  oi_action_name :: string
  oi_payload :: action_payload
  oi_retries :: int

record db =
  db_processed :: "(network_id \<times> i64) list"
  db_monitors :: "monitor_row list"
  db_monitors_seq :: i64
  db_actions :: "action_row list"
  db_actions_seq :: i64
  db_abis :: "(string \<times> string) list"
  db_state :: "(string \<times> json) list"
  db_outbox :: "outbox_row list"
  db_outbox_seq :: i64
  db_clock :: timestamp
  db_faults :: "nat \<Rightarrow> string option"
  db_queries :: nat

type_synonym 'a dbop = "(db, persistence_error, 'a) op"

definition empty_db :: db where
  "empty_db =
     \<lparr>db_processed = [], db_monitors = [], db_monitors_seq = 0, db_actions = [], db_actions_seq = 0,
      db_abis = [], db_state = [], db_outbox = [], db_outbox_seq = 0, db_clock = 0,
      db_faults = (\<lambda>_. None), db_queries = 0\<rparr>"

section \<open>Running statements\<close>

text \<open>One statement: the engine reports a fault, or runs it and may report a constraint error.
  \<open>exec\<close> is \<open>execute_query_with_error_handling\<close> and the \<open>map_err\<close> of the direct calls.\<close>

definition exec :: "(db \<Rightarrow> db \<times> (string + 'a)) \<Rightarrow> 'a dbop" where
  "exec q s =
     (let t = s\<lparr>db_queries := Suc (db_queries s)\<rparr>
      in case db_faults s (db_queries s) of
           Some e \<Rightarrow> (t, Inl (OperationFailed e))
         | None \<Rightarrow> (case q t of (u, r) \<Rightarrow> (u, map_err OperationFailed r)))"

definition select :: "(db \<Rightarrow> 'a) \<Rightarrow> 'a dbop" where
  "select f = exec (\<lambda>s. (s, Inr (f s)))"

definition modify :: "(db \<Rightarrow> db) \<Rightarrow> unit dbop" where
  "modify f = exec (\<lambda>s. (f s, Inr ()))"

text \<open>\<open>pool.begin()\<close>, the body, \<open>tx.commit()\<close>; dropping the transaction rolls it back.\<close>

definition rollback :: "db \<Rightarrow> db \<Rightarrow> db" where
  "rollback s0 s = s0\<lparr>db_queries := db_queries s\<rparr>"

definition transaction :: "unit dbop \<Rightarrow> unit dbop" where
  "transaction body s =
     (case modify id s of
        (s1, Inl e) \<Rightarrow> (s1, Inl e)
      | (s1, Inr _) \<Rightarrow>
          (case bindS body (\<lambda>_. modify id) s1 of
             (s2, Inl e) \<Rightarrow> (rollback s1 s2, Inl e)
           | (s2, Inr _) \<Rightarrow> (s2, Inr ())))"

definition next_rowid :: "store_env \<Rightarrow> i64 \<Rightarrow> i64" where
  "next_rowid env prev = prev + 1 + int (se_rowid_gap env prev)"

definition quote :: "string \<Rightarrow> string" where
  "quote s = CHR 0x27 # s @ [CHR 0x27]"

text \<open>\<open>str::parse::<i64>\<close> with its error texts.\<close>

fun parse_digits :: "nat \<Rightarrow> string \<Rightarrow> nat option" where
  "parse_digits acc [] = Some acc"
| "parse_digits acc (c # cs) =
     (if is_digit c then parse_digits (10 * acc + (of_char c - 48)) cs else None)"

definition parse_i64 :: "string \<Rightarrow> string + i64" where
  "parse_i64 s =
     (if s = [] then Inl ''cannot parse integer from empty string''
      else
        let neg = hd s = CHR ''-''; digits = (if hd s = CHR ''-'' \<or> hd s = CHR ''+'' then tl s else s)
        in case (if digits = [] then None else parse_digits 0 digits) of
             None \<Rightarrow> Inl ''invalid digit found in string''
           | Some n \<Rightarrow>
               if neg then
                 (if int n \<le> 2 ^ 63 then Inr (- int n)
                  else Inl ''number too small to fit in target type'')
               else if int n \<le> i64_max then Inr (int n)
               else Inl ''number too large to fit in target type'')"

text \<open>\<open>LIKE\<close>: percent matches any run, underscore any character, letters compare without ASCII case;
  a character after the escape character stands for itself.\<close>

fun sql_like :: "char option \<Rightarrow> string \<Rightarrow> string \<Rightarrow> bool" where
  "sql_like esc [] t = (t = [])"
| "sql_like esc (p # ps) t =
     (if esc = Some p then
        (case ps of
           [] \<Rightarrow> False
         | q # qs \<Rightarrow> (case t of [] \<Rightarrow> False
                    | c # cs \<Rightarrow> to_ascii_lowercase c = to_ascii_lowercase q \<and> sql_like esc qs cs))
      else if p = CHR ''%'' then
        sql_like esc ps t \<or> (case t of [] \<Rightarrow> False | c # cs \<Rightarrow> sql_like esc (p # ps) cs)
      else
        (case t of [] \<Rightarrow> False
         | c # cs \<Rightarrow> (p = CHR ''_'' \<or> to_ascii_lowercase c = to_ascii_lowercase p) \<and> sql_like esc ps cs))"

section \<open>Last processed block\<close>

definition get_last_processed_block :: "network_id \<Rightarrow> u64 option dbop" where
  "get_last_processed_block network_id =
     bindS (select (\<lambda>s. map_of (db_processed s) network_id)) (\<lambda>r.
       case r of
         Some n \<Rightarrow>
           if 0 \<le> n then retS (Some (word_of_int n))
           else errS (OperationFailed ''out of range integral type conversion attempted'')
       | None \<Rightarrow> retS None)"

definition set_last_processed_block :: "network_id \<Rightarrow> u64 \<Rightarrow> unit dbop" where
  "set_last_processed_block network_id n =
     (if i64_max < uint n then errS (InvalidInput ''out of range integral type conversion attempted'')
      else modify (\<lambda>s. s\<lparr>db_processed := AList.update network_id (uint n) (db_processed s)\<rparr>))"

definition execute_pragma :: "unit dbop" where
  "execute_pragma = modify id"

definition checkpoint_wal :: "string \<Rightarrow> unit dbop" where
  "checkpoint_wal mode =
     (if mode \<notin> set [''PASSIVE'', ''TRUNCATE'', ''RESTART'', ''RESTART_OR_TRUNCATE'']
      then errS (InvalidInput (''Invalid WAL checkpoint mode: '' @ mode))
      else execute_pragma)"

definition set_synchronous_mode :: "string \<Rightarrow> unit dbop" where
  "set_synchronous_mode mode =
     (if mode \<notin> set [''OFF'', ''NORMAL'', ''FULL'']
      then errS (InvalidInput (''Invalid synchronous mode: '' @ mode))
      else execute_pragma)"

definition store_cleanup :: "unit dbop" where
  "store_cleanup = checkpoint_wal ''TRUNCATE''"

definition store_flush :: "unit dbop" where
  "store_flush =
     bindS (set_synchronous_mode ''FULL'') (\<lambda>_.
     bindS (checkpoint_wal ''TRUNCATE'') (\<lambda>_.
     set_synchronous_mode ''NORMAL''))"

definition save_emergency_state :: "network_id \<Rightarrow> u64 \<Rightarrow> string \<Rightarrow> unit dbop" where
  "save_emergency_state network_id n note =
     bindS (set_last_processed_block network_id n) (\<lambda>_. store_flush)"

section \<open>Monitors\<close>

definition actions_to_json :: "string list \<Rightarrow> json" where
  "actions_to_json xs = JArray (map JString xs)"

definition actions_of_json :: "json \<Rightarrow> string list option" where
  "actions_of_json v = (case v of JArray vs \<Rightarrow> those (map json_str vs) | _ \<Rightarrow> None)"

definition row_actions :: "monitor_row \<Rightarrow> persistence_error + string list" where
  "row_actions r = ok_or (SerializationError ''invalid type'') (actions_of_json (mr_actions r))"

definition monitor_of_row :: "monitor_row \<Rightarrow> persistence_error + monitor" where
  "monitor_of_row r =
     bindR (row_actions r) (\<lambda>acts. Inr
       \<lparr>mon_id = mr_monitor_id r, mon_name = mr_name r, mon_network = mr_network r,
        mon_address = mr_address r, mon_abi_name = mr_abi_name r,
        mon_filter_script = mr_filter_script r, mon_actions = acts,
        mon_created_at = mr_created_at r, mon_updated_at = mr_updated_at r,
        mon_status = mr_status r\<rparr>)"

definition monitor_config_of_row :: "monitor_row \<Rightarrow> persistence_error + monitor_config" where
  "monitor_config_of_row r =
     bindR (row_actions r) (\<lambda>acts. Inr
       \<lparr>mc_name = mr_name r, mc_network = mr_network r, mc_address = mr_address r,
        mc_abi_name = mr_abi_name r, mc_filter_script = mr_filter_script r,
        mc_actions = acts, mc_status = mr_status r\<rparr>)"

definition get_monitors :: "network_id \<Rightarrow> monitor list dbop" where
  "get_monitors network_id =
     bindS (select (\<lambda>s. filter (\<lambda>r. mr_network r = network_id) (db_monitors s)))
       (\<lambda>rows. liftS (traverse monitor_of_row rows))"

definition get_monitor_by_id :: "network_id \<Rightarrow> string \<Rightarrow> monitor option dbop" where
  "get_monitor_by_id network_id monitor_id =
     (case parse_i64 monitor_id of
        Inl e \<Rightarrow> errS (InvalidInput (''Invalid monitor_id '' @ quote monitor_id @ '': '' @ e))
      | Inr n \<Rightarrow>
          bindS (select (\<lambda>s. find (\<lambda>r. mr_network r = network_id \<and> mr_monitor_id r = n) (db_monitors s)))
            (\<lambda>row. case row of
               Some r \<Rightarrow> liftS (mapR Some (monitor_of_row r))
             | None \<Rightarrow> retS None))"

text \<open>One \<open>INSERT INTO monitors\<close>: foreign key on \<open>abi_name\<close>, unique \<open>(network, name)\<close>,
  both timestamps defaulting to the current one.\<close>

definition insert_monitor :: "store_env \<Rightarrow> monitor_config \<Rightarrow> db \<Rightarrow> db \<times> (string + unit)" where
  "insert_monitor env m s =
     (if \<exists>r \<in> set (db_monitors s). mr_network r = mc_network m \<and> mr_name r = mc_name m
      then (s, Inl ''UNIQUE constraint failed: monitors.network, monitors.name'')
      else if (case mc_abi_name m of None \<Rightarrow> False | Some a \<Rightarrow> map_of (db_abis s) a = None)
      then (s, Inl ''FOREIGN KEY constraint failed'')
      else
        let i = next_rowid env (db_monitors_seq s);
            r = \<lparr>mr_monitor_id = i, mr_name = mc_name m, mr_network = mc_network m,
                 mr_address = mc_address m, mr_abi_name = mc_abi_name m,
                 mr_filter_script = mc_filter_script m, mr_actions = actions_to_json (mc_actions m),
                 mr_created_at = db_clock s, mr_updated_at = db_clock s, mr_status = mc_status m\<rparr>
        in (s\<lparr>db_monitors := db_monitors s @ [r], db_monitors_seq := i\<rparr>, Inr ()))"

definition add_monitors :: "store_env \<Rightarrow> network_id \<Rightarrow> monitor_config list \<Rightarrow> unit dbop" where
  "add_monitors env network_id ms =
     (case find (\<lambda>m. mc_network m \<noteq> network_id) ms of
        Some m \<Rightarrow> errS (InvalidInput (''Monitor '' @ quote (mc_name m) @ '' has network '' @ quote (mc_network m)
                     @ '' but expected '' @ quote network_id))
      | None \<Rightarrow> transaction (foldS (\<lambda>m. exec (insert_monitor env m)) ms))"

definition clear_monitors :: "network_id \<Rightarrow> unit dbop" where
  "clear_monitors network_id =
     modify (\<lambda>s. s\<lparr>db_monitors := filter (\<lambda>r. mr_network r \<noteq> network_id) (db_monitors s)\<rparr>)"

text \<open>A text operand compared with the integer column \<open>monitor_id\<close>.\<close>

definition monitor_key :: "store_env \<Rightarrow> network_id \<Rightarrow> string \<Rightarrow> monitor_row \<Rightarrow> bool" where
  "monitor_key env network_id monitor_id r \<longleftrightarrow>
     mr_network r = network_id \<and> se_int_affinity env monitor_id = Some (mr_monitor_id r)"

text \<open>A statement that reports \<open>rows_affected()\<close>, and the \<open>NotFound\<close> test that follows it.\<close>

definition or_not_found :: "nat dbop \<Rightarrow> unit dbop" where
  "or_not_found m = bindS m (\<lambda>n. if n = 0 then errS NotFound else retS ())"

definition delete_monitor :: "store_env \<Rightarrow> network_id \<Rightarrow> string \<Rightarrow> unit dbop" where
  "delete_monitor env network_id monitor_id =
     or_not_found (exec (\<lambda>s.
       (s\<lparr>db_monitors := filter (\<lambda>r. \<not> monitor_key env network_id monitor_id r) (db_monitors s)\<rparr>,
        Inr (length (filter (monitor_key env network_id monitor_id) (db_monitors s))))))"

text \<open>\<open>UPDATE monitors\<close> checks the foreign key of the new \<open>abi_name\<close>.\<close>

definition update_monitor_stmt ::
  "store_env \<Rightarrow> network_id \<Rightarrow> string \<Rightarrow> monitor_config \<Rightarrow> db \<Rightarrow> db \<times> (string + nat)" where
  "update_monitor_stmt env network_id monitor_id m s =
     (let hit = monitor_key env network_id monitor_id;
          n = length (filter hit (db_monitors s))
      in if 0 < n \<and> (case mc_abi_name m of None \<Rightarrow> False | Some a \<Rightarrow> map_of (db_abis s) a = None)
         then (s, Inl ''FOREIGN KEY constraint failed'')
         else
           (s\<lparr>db_monitors := map (\<lambda>r. if hit r then
                r\<lparr>mr_address := mc_address m, mr_abi_name := mc_abi_name m,
                  mr_filter_script := mc_filter_script m,
                  mr_actions := actions_to_json (mc_actions m)\<rparr> else r) (db_monitors s)\<rparr>,
            Inr n))"

definition update_monitor ::
  "store_env \<Rightarrow> network_id \<Rightarrow> string \<Rightarrow> monitor_config \<Rightarrow> unit dbop" where
  "update_monitor env network_id monitor_id m =
     or_not_found (exec (update_monitor_stmt env network_id monitor_id m))"

definition update_monitor_status ::
  "store_env \<Rightarrow> network_id \<Rightarrow> string \<Rightarrow> monitor_status \<Rightarrow> unit dbop" where
  "update_monitor_status env network_id monitor_id st =
     or_not_found (exec (\<lambda>s.
       let hit = monitor_key env network_id monitor_id
       in (s\<lparr>db_monitors := map (\<lambda>r. if hit r then r\<lparr>mr_status := st\<rparr> else r) (db_monitors s)\<rparr>,
           Inr (length (filter hit (db_monitors s))))))"

section \<open>ABIs\<close>

definition create_abi :: "string \<Rightarrow> string \<Rightarrow> unit dbop" where
  "create_abi name abi =
     exec (\<lambda>s. if map_of (db_abis s) name \<noteq> None
               then (s, Inl ''UNIQUE constraint failed: abis.name'')
               else (s\<lparr>db_abis := db_abis s @ [(name, abi)]\<rparr>, Inr ()))"

definition get_abi :: "string \<Rightarrow> string option dbop" where
  "get_abi name = select (\<lambda>s. map_of (db_abis s) name)"

definition list_abis :: "string list dbop" where
  "list_abis = select (\<lambda>s. map fst (db_abis s))"

definition get_all_abis :: "(string \<times> string) list dbop" where
  "get_all_abis = select db_abis"

text \<open>\<open>DELETE FROM abis\<close> is itself refused while a monitor references the row.\<close>

definition delete_abi_stmt :: "string \<Rightarrow> db \<Rightarrow> db \<times> (string + nat)" where
  "delete_abi_stmt name s =
     (if (\<exists>r \<in> set (db_monitors s). mr_abi_name r = Some name) \<and> map_of (db_abis s) name \<noteq> None
      then (s, Inl ''FOREIGN KEY constraint failed'')
      else (s\<lparr>db_abis := filter (\<lambda>(n, _). n \<noteq> name) (db_abis s)\<rparr>,
            Inr (length (filter (\<lambda>(n, _). n = name) (db_abis s)))))"

definition delete_abi :: "string \<Rightarrow> unit dbop" where
  "delete_abi name =
     bindS (select (\<lambda>s. map mr_name (filter (\<lambda>r. mr_abi_name r = Some name) (db_monitors s)))) (\<lambda>users.
     if users \<noteq> [] then errS (AbiInUse users)
     else or_not_found (exec (delete_abi_stmt name)))"

section \<open>Actions\<close>

definition action_of_row :: "store_env \<Rightarrow> action_row \<Rightarrow> persistence_error + action_config" where
  "action_of_row env r =
     (case se_dec_action env (ar_config r) of
        None \<Rightarrow> Inl (SerializationError ''invalid action configuration'')
      | Some a \<Rightarrow> Inr (a\<lparr>ac_id := Some (ar_action_id r), ac_name := ar_name r\<rparr>))"

definition optional_action ::
  "store_env \<Rightarrow> action_row option \<Rightarrow> persistence_error + action_config option" where
  "optional_action env row =
     (case row of Some r \<Rightarrow> mapR Some (action_of_row env r) | None \<Rightarrow> Inr None)"

definition get_actions :: "store_env \<Rightarrow> network_id \<Rightarrow> action_config list dbop" where
  "get_actions env network_id =
     bindS (select (\<lambda>s. filter (\<lambda>r. ar_network_id r = network_id) (db_actions s)))
       (\<lambda>rows. liftS (traverse (action_of_row env) rows))"

definition get_action_by_id :: "store_env \<Rightarrow> network_id \<Rightarrow> i64 \<Rightarrow> action_config option dbop" where
  "get_action_by_id env network_id action_id =
     bindS (select (\<lambda>s. find (\<lambda>r. ar_network_id r = network_id \<and> ar_action_id r = action_id) (db_actions s)))
       (\<lambda>row. liftS (optional_action env row))"

definition get_action_by_name :: "store_env \<Rightarrow> network_id \<Rightarrow> string \<Rightarrow> action_config option dbop" where
  "get_action_by_name env network_id name =
     bindS (select (\<lambda>s. find (\<lambda>r. ar_network_id r = network_id \<and> ar_name r = name) (db_actions s)))
       (\<lambda>row. liftS (optional_action env row))"

definition create_action :: "store_env \<Rightarrow> network_id \<Rightarrow> action_config \<Rightarrow> action_config dbop" where
  "create_action env network_id a =
     bindS (exec (\<lambda>s.
       if \<exists>r \<in> set (db_actions s). ar_name r = ac_name a \<and> ar_network_id r = network_id
       then (s, Inl ''UNIQUE constraint failed: actions.name, actions.network_id'')
       else
         let i = next_rowid env (db_actions_seq s);
             r = \<lparr>ar_action_id = i, ar_name = ac_name a, ar_network_id = network_id,
                  ar_config = se_enc_action env a\<rparr>
         in (s\<lparr>db_actions := db_actions s @ [r], db_actions_seq := i\<rparr>, Inr i)))
     (\<lambda>i. retS (a\<lparr>ac_id := Some i\<rparr>))"

definition clear_actions :: "network_id \<Rightarrow> unit dbop" where
  "clear_actions network_id =
     modify (\<lambda>s. s\<lparr>db_actions := filter (\<lambda>r. ar_network_id r \<noteq> network_id) (db_actions s)\<rparr>)"

definition update_action_stmt ::
  "store_env \<Rightarrow> network_id \<Rightarrow> i64 \<Rightarrow> action_config \<Rightarrow> db \<Rightarrow> db \<times> (string + nat)" where
  "update_action_stmt env network_id i a s =
     (let hit = (\<lambda>r. ar_network_id r = network_id \<and> ar_action_id r = i);
          n = length (filter hit (db_actions s))
      in if 0 < n \<and> (\<exists>r \<in> set (db_actions s). \<not> hit r \<and> ar_network_id r = network_id \<and> ar_name r = ac_name a)
         then (s, Inl ''UNIQUE constraint failed: actions.name, actions.network_id'')
         else (s\<lparr>db_actions := map (\<lambda>r. if hit r
                   then r\<lparr>ar_name := ac_name a, ar_config := se_enc_action env a\<rparr> else r) (db_actions s)\<rparr>,
               Inr n))"

definition update_action :: "store_env \<Rightarrow> network_id \<Rightarrow> action_config \<Rightarrow> action_config dbop" where
  "update_action env network_id a =
     (case ac_id a of
        None \<Rightarrow> errS (InvalidInput ''Action ID is required for update'')
      | Some i \<Rightarrow>
          bindS (or_not_found (exec (update_action_stmt env network_id i a))) (\<lambda>_. retS a))"

definition delete_action :: "network_id \<Rightarrow> i64 \<Rightarrow> unit dbop" where
  "delete_action network_id action_id =
     or_not_found (exec (\<lambda>s.
       let hit = (\<lambda>r. ar_network_id r = network_id \<and> ar_action_id r = action_id)
       in (s\<lparr>db_actions := filter (\<lambda>r. \<not> hit r) (db_actions s)\<rparr>,
           Inr (length (filter hit (db_actions s))))))"

text \<open>\<open>replace('%', "\%")\<close>, then \<open>replace('_', "\_")\<close>, in the pattern for one quoted element.\<close>

definition escape_like :: "string \<Rightarrow> string" where
  "escape_like s = concat (map (\<lambda>c. if c = CHR ''%'' \<or> c = CHR ''_'' then [CHR 0x5C, c] else [c]) s)"

definition action_like_clause :: "string \<Rightarrow> string" where
  "action_like_clause name = CHR ''%'' # CHR 0x22 # escape_like name @ [CHR 0x22, CHR ''%'']"

definition get_monitors_by_action_id ::
  "store_env \<Rightarrow> network_id \<Rightarrow> i64 \<Rightarrow> monitor_config list dbop" where
  "get_monitors_by_action_id env network_id action_id =
     bindS (get_action_by_id env network_id action_id) (\<lambda>a.
     case a of
       None \<Rightarrow> errS NotFound
     | Some action \<Rightarrow>
         bindS (select (\<lambda>s. filter (\<lambda>r. mr_network r = network_id \<and>
                   sql_like (Some (CHR 0x5C)) (action_like_clause (ac_name action))
                     (se_json_text env (mr_actions r))) (db_monitors s)))
           (\<lambda>rows. liftS (traverse monitor_config_of_row rows)))"

section \<open>Outbox\<close>

definition SQLITE_MAX_VARIABLES :: nat where "SQLITE_MAX_VARIABLES = 999"
definition OUTBOX_INSERT_COLUMNS :: nat where "OUTBOX_INSERT_COLUMNS = 3"

definition outbox_item_of_row :: "store_env \<Rightarrow> outbox_row \<Rightarrow> persistence_error + outbox_item" where
  "outbox_item_of_row env r =
     bindR (ok_or (SerializationError (''Corrupt outbox item '' @ show_int (ob_id r)))
              (payload_of_json (se_codec env) (ob_payload r))) (\<lambda>p.
     if ob_retries r < - (2 ^ 31) \<or> 2 ^ 31 - 1 < ob_retries r
     then Inl (OperationFailed (''Outbox item '' @ show_int (ob_id r) @ '' has invalid retries value ''
                @ show_int (ob_retries r) @ '' (out of range for i32)''))
     else Inr \<lparr>oi_id = ob_id r, oi_action_name = ob_action_name r, oi_payload = p,
                oi_retries = ob_retries r\<rparr>)"

text \<open>One row of \<open>INSERT OR IGNORE INTO outbox\<close>, and the statement for a chunk of rows. SQLite refuses a
  statement that binds more than \<open>SQLITE_MAX_VARIABLES\<close> variables.\<close>

definition insert_or_ignore :: "store_env \<Rightarrow> string \<times> json \<times> string \<Rightarrow> db \<Rightarrow> db" where
  "insert_or_ignore env item s =
     (case item of (action_name, payload, key) \<Rightarrow>
        if \<exists>r \<in> set (db_outbox s). ob_idempotency_key r = key then s
        else
          let i = next_rowid env (db_outbox_seq s)
          in s\<lparr>db_outbox := db_outbox s @
                 [\<lparr>ob_id = i, ob_action_name = action_name, ob_payload = payload, ob_retries = 0,
                   ob_last_attempt = None, ob_idempotency_key = key\<rparr>],
               db_outbox_seq := i\<rparr>)"

definition serialize_item :: "store_env \<Rightarrow> string \<times> action_payload \<Rightarrow> string \<times> json \<times> string" where
  "serialize_item env item =
     (case item of (name, payload) \<Rightarrow>
        (name, payload_to_json (se_codec env) payload, idempotency_key (se_finish env) payload))"

definition enqueue_chunk :: "store_env \<Rightarrow> (string \<times> action_payload) list \<Rightarrow> unit dbop" where
  "enqueue_chunk env chunk =
     exec (\<lambda>s. if SQLITE_MAX_VARIABLES < OUTBOX_INSERT_COLUMNS * length chunk
               then (s, Inl ''too many SQL variables'')
               else (fold (insert_or_ignore env) (map (serialize_item env) chunk) s, Inr ()))"

definition enqueue_outbox_batch :: "store_env \<Rightarrow> (string \<times> action_payload) list \<Rightarrow> unit dbop" where
  "enqueue_outbox_batch env items =
     (if items = [] then retS ()
      else transaction (foldS (enqueue_chunk env) (chunks (SQLITE_MAX_VARIABLES div OUTBOX_INSERT_COLUMNS) items)))"

definition sql_limit :: "i64 \<Rightarrow> 'a list \<Rightarrow> 'a list" where
  "sql_limit n xs = (if n < 0 then xs else take (nat n) xs)"

definition get_pending_outbox :: "store_env \<Rightarrow> i64 \<Rightarrow> outbox_item list dbop" where
  "get_pending_outbox env limit =
     bindS (select (\<lambda>s. sql_limit limit (sort_key ob_id (db_outbox s))))
       (\<lambda>rows. liftS (traverse (outbox_item_of_row env) rows))"

definition delete_chunk :: "i64 list \<Rightarrow> unit dbop" where
  "delete_chunk ids =
     exec (\<lambda>s. if SQLITE_MAX_VARIABLES < length ids
               then (s, Inl ''too many SQL variables'')
               else (s\<lparr>db_outbox := filter (\<lambda>r. ob_id r \<notin> set ids) (db_outbox s)\<rparr>, Inr ()))"

definition delete_outbox_items_batch :: "i64 list \<Rightarrow> unit dbop" where
  "delete_outbox_items_batch ids =
     (if ids = [] then retS () else transaction (foldS delete_chunk (chunks SQLITE_MAX_VARIABLES ids)))"

definition increment_outbox_retries :: "i64 \<Rightarrow> unit dbop" where
  "increment_outbox_retries i =
     modify (\<lambda>s. s\<lparr>db_outbox := map (\<lambda>r. if ob_id r = i
               then r\<lparr>ob_retries := ob_retries r + 1, ob_last_attempt := Some (db_clock s)\<rparr> else r)
             (db_outbox s)\<rparr>)"

section \<open>Key-value store\<close>

definition get_json_state :: "(json \<Rightarrow> 'a option) \<Rightarrow> string \<Rightarrow> 'a option dbop" where
  "get_json_state dec key =
     bindS (select (\<lambda>s. map_of (db_state s) key)) (\<lambda>r.
     case r of
       Some v \<Rightarrow> liftS (mapR Some (ok_or (SerializationError key) (dec v)))
     | None \<Rightarrow> retS None)"

definition set_json_state :: "('a \<Rightarrow> json) \<Rightarrow> string \<Rightarrow> 'a \<Rightarrow> unit dbop" where
  "set_json_state enc key value =
     modify (\<lambda>s. s\<lparr>db_state := AList.update key (enc value) (db_state s)\<rparr>)"

definition get_all_json_states_by_prefix :: "(json \<Rightarrow> 'a option) \<Rightarrow> string \<Rightarrow> (string \<times> 'a) list dbop" where
  "get_all_json_states_by_prefix dec prefix =
     bindS (select (\<lambda>s. filter (\<lambda>(k, v). sql_like None (prefix @ ''%'') k) (db_state s)))
       (\<lambda>rows. liftS (traverse (\<lambda>(k, v). mapR (Pair k) (ok_or (SerializationError k) (dec v))) rows))"

section \<open>Statements and transactions\<close>

text \<open>A well-behaved statement ignores the statement counter, leaves the database alone when it
  reports an error and never touches the fault oracle.\<close>

definition stmt :: "(db \<Rightarrow> db \<times> (string + 'a)) \<Rightarrow> bool" where
  "stmt q \<longleftrightarrow>
     (\<forall>s n. q (s\<lparr>db_queries := n\<rparr>) = map_prod (\<lambda>t. t\<lparr>db_queries := n\<rparr>) id (q s)) \<and>
     (\<forall>s t e. q s = (t, Inl e) \<longrightarrow> t = s) \<and> (\<forall>s. db_faults (fst (q s)) = db_faults s)"

definition faultless :: "db \<Rightarrow> bool" where
  "faultless s \<longleftrightarrow> (\<forall>n \<ge> db_queries s. db_faults s n = None)"

definition same_tables :: "db \<Rightarrow> db \<Rightarrow> bool" where
  "same_tables s t \<longleftrightarrow> t\<lparr>db_queries := db_queries s\<rparr> = s"

lemma stmtI:
  assumes "\<And>s n. q (s\<lparr>db_queries := n\<rparr>) = map_prod (\<lambda>t. t\<lparr>db_queries := n\<rparr>) id (q s)"
    "\<And>s t e. q s = (t, Inl e) \<Longrightarrow> t = s" "\<And>s. db_faults (fst (q s)) = db_faults s"
  shows "stmt q"
  using assms by (auto simp: stmt_def)

lemma same_tables_refl [simp]: "same_tables s s"
  and same_tables_count [simp]: "same_tables s (s\<lparr>db_queries := n\<rparr>)"
  by (simp_all add: same_tables_def)

lemma same_tables_trans: "same_tables s t \<Longrightarrow> same_tables t u \<Longrightarrow> same_tables s u"
  unfolding same_tables_def by (metis db.unfold_congs(12) db.surjective db.update_convs(12))

lemma exec_Inr:
  assumes "stmt q"
  shows "exec q s = (t, Inr x) \<longleftrightarrow>
    db_faults s (db_queries s) = None \<and>
    (\<exists>u. q s = (u, Inr x) \<and> t = u\<lparr>db_queries := Suc (db_queries s)\<rparr>)"
  using assms
  by (cases "q s") (auto simp: exec_def stmt_def Let_def map_err_eq_Inr_iff split: option.splits prod.splits)

lemma exec_Inl:
  assumes "stmt q" "exec q s = (t, Inl e)"
  shows "t = s\<lparr>db_queries := Suc (db_queries s)\<rparr>" "\<exists>m. e = OperationFailed m"
    "db_faults s (db_queries s) = None \<Longrightarrow> \<exists>m. snd (q s) = Inl m"
  using assms
  by (cases "q s"; force simp: exec_def stmt_def Let_def map_err_eq_Inl_iff split: option.splits prod.splits)+

lemma stmt_select [intro!, simp]:
  "(\<And>s n. f (s\<lparr>db_queries := n\<rparr>) = f s) \<Longrightarrow> stmt (\<lambda>s. (s, Inr (f s)))"
  by (simp add: stmt_def)

lemma select_Inr:
  assumes "\<And>s n. f (s\<lparr>db_queries := n\<rparr>) = f s"
  shows "select f s = (t, Inr x) \<longleftrightarrow>
    db_faults s (db_queries s) = None \<and> x = f s \<and> t = s\<lparr>db_queries := Suc (db_queries s)\<rparr>"
  using assms by (auto simp: select_def exec_Inr)

lemma select_fst: "fst (select f s) = s\<lparr>db_queries := Suc (db_queries s)\<rparr>"
  by (simp add: select_def exec_def Let_def split: option.splits)

lemma modify_Inr:
  assumes "\<And>s n. f (s\<lparr>db_queries := n\<rparr>) = (f s)\<lparr>db_queries := n\<rparr>" "\<And>s. db_faults (f s) = db_faults s"
  shows "modify f s = (t, Inr x) \<longleftrightarrow>
    db_faults s (db_queries s) = None \<and> t = (f s)\<lparr>db_queries := Suc (db_queries s)\<rparr>"
  using assms by (auto simp: modify_def exec_Inr stmt_def)

lemma modify_Inl:
  assumes "\<And>s n. f (s\<lparr>db_queries := n\<rparr>) = (f s)\<lparr>db_queries := n\<rparr>" "\<And>s. db_faults (f s) = db_faults s"
    "modify f s = (t, Inl e)"
  shows "t = s\<lparr>db_queries := Suc (db_queries s)\<rparr>" "db_faults s (db_queries s) \<noteq> None"
  using assms by (auto simp: modify_def exec_def Let_def split: option.splits)

text \<open>A transaction either changes nothing or has the effect of its body.\<close>

lemma transaction_Inl:
  "transaction body s = (t, Inl e) \<Longrightarrow> same_tables s t"
  by (auto simp: transaction_def rollback_def modify_def exec_def Let_def same_tables_def
      split: prod.splits sum.splits option.splits)

lemma transaction_Inr:
  "transaction body s = (t, Inr ()) \<longleftrightarrow>
     (\<exists>u. db_faults s (db_queries s) = None \<and>
       body (s\<lparr>db_queries := Suc (db_queries s)\<rparr>) = (u, Inr ()) \<and>
       db_faults u (db_queries u) = None \<and> t = u\<lparr>db_queries := Suc (db_queries u)\<rparr>)"
proof -
  have m: "modify id s = (if db_faults s (db_queries s) = None
      then (s\<lparr>db_queries := Suc (db_queries s)\<rparr>, Inr ())
      else (s\<lparr>db_queries := Suc (db_queries s)\<rparr>, Inl (OperationFailed (the (db_faults s (db_queries s))))))" for s
    by (auto simp: modify_def exec_def Let_def split: option.splits)
  show ?thesis
    by (auto simp: transaction_def m bindS_def split: prod.splits sum.splits if_splits)
qed

text \<open>Invariants that ignore the counter are kept by a transaction whose body keeps them.\<close>

locale db_predicate =
  fixes P :: "db \<Rightarrow> bool"
  assumes counter_blind: "P (s\<lparr>db_queries := n\<rparr>) \<longleftrightarrow> P s"
begin

lemma exec_keeps: "(\<And>s. P s \<Longrightarrow> P (fst (q s))) \<Longrightarrow> P s \<Longrightarrow> P (fst (exec q s))"
  by (simp add: exec_def Let_def counter_blind split: option.splits prod.splits)
     (metis counter_blind fst_conv)

lemma select_keeps: "P s \<Longrightarrow> P (fst (select f s))"
  by (simp add: select_fst counter_blind)

lemma modify_keeps: "(\<And>s. P s \<Longrightarrow> P (f s)) \<Longrightarrow> P s \<Longrightarrow> P (fst (modify f s))"
  unfolding modify_def by (rule exec_keeps) simp_all

lemma bindS_keeps:
  "P (fst (m s)) \<Longrightarrow> (\<And>x t. P t \<Longrightarrow> P (fst (f x t))) \<Longrightarrow> P (fst (bindS m f s))"
  by (auto simp: fst_bindS split: prod.splits sum.splits)

lemma transaction_keeps:
  assumes "\<And>s. P s \<Longrightarrow> P (fst (body s))" "P s"
  shows "P (fst (transaction body s))"
proof -
  have m: "P u \<Longrightarrow> P (fst (modify id u))" for u by (rule modify_keeps) simp_all
  show ?thesis
  proof (cases "transaction body s")
    case (Pair t r)
    show ?thesis
    proof (cases r)
      case (Inl e)
      then have "same_tables s t" using Pair transaction_Inl by blast
      then show ?thesis using Pair assms(2) counter_blind by (metis fst_conv same_tables_def)
    next
      case (Inr x)
      then obtain u where "body (s\<lparr>db_queries := Suc (db_queries s)\<rparr>) = (u, Inr ())"
          "t = u\<lparr>db_queries := Suc (db_queries u)\<rparr>"
        using Pair by (cases x) (auto simp: transaction_Inr)
      then show ?thesis
        using Pair assms(1) [of "s\<lparr>db_queries := Suc (db_queries s)\<rparr>"] assms(2) by (simp add: counter_blind)
    qed
  qed
qed

lemma or_not_found_keeps: "P (fst (m s)) \<Longrightarrow> P (fst (or_not_found m s))"
  unfolding or_not_found_def by (rule bindS_keeps) auto

end

section \<open>The outbox as a queue\<close>

text \<open>The abstract outbox: entries in the order of their ids, with their idempotency keys.\<close>

record outbox_entry =
  oe_id :: i64
  oe_key :: string
  oe_action :: string
  oe_payload :: "action_payload option"
  oe_retries :: i64

definition entry_of_row :: "store_env \<Rightarrow> outbox_row \<Rightarrow> outbox_entry" where
  "entry_of_row env r =
     \<lparr>oe_id = ob_id r, oe_key = ob_idempotency_key r, oe_action = ob_action_name r,
      oe_payload = payload_of_json (se_codec env) (ob_payload r), oe_retries = ob_retries r\<rparr>"

definition outbox_abs :: "store_env \<Rightarrow> db \<Rightarrow> outbox_entry list" where
  "outbox_abs env s = map (entry_of_row env) (db_outbox s)"

definition outbox_ok :: "db \<Rightarrow> bool" where
  "outbox_ok s \<longleftrightarrow>
     sorted (map ob_id (db_outbox s)) \<and> distinct (map ob_id (db_outbox s)) \<and>
     (\<forall>r \<in> set (db_outbox s). ob_id r \<le> db_outbox_seq s) \<and>
     distinct (map ob_idempotency_key (db_outbox s))"

interpretation outbox_ok: db_predicate outbox_ok
  by unfold_locales (simp add: outbox_ok_def)

lemma entry_of_row_simps [simp]:
  "oe_id (entry_of_row env r) = ob_id r" "oe_key (entry_of_row env r) = ob_idempotency_key r"
  "oe_action (entry_of_row env r) = ob_action_name r" "oe_retries (entry_of_row env r) = ob_retries r"
  "oe_payload (entry_of_row env r) = payload_of_json (se_codec env) (ob_payload r)"
  by (simp_all add: entry_of_row_def)

lemma outbox_abs_counter [simp]: "outbox_abs env (s\<lparr>db_queries := n\<rparr>) = outbox_abs env s"
  by (simp add: outbox_abs_def)

text \<open>Reads leave the tables as they are.\<close>

lemma read_only:
  "same_tables s (fst (select f s))"
  "same_tables s (fst (get_monitors n s))"
  "same_tables s (fst (get_monitor_by_id n i s))"
  "same_tables s (fst (get_abi name s))"
  "same_tables s (fst (list_abis s))"
  "same_tables s (fst (get_actions env n s))"
  "same_tables s (fst (get_action_by_id env n j s))"
  "same_tables s (fst (get_all_abis s))"
  "same_tables s (fst (get_last_processed_block n s))"
  "same_tables s (fst (get_all_json_states_by_prefix dec prefix s))"
  by (auto simp: get_monitors_def get_monitor_by_id_def get_abi_def list_abis_def get_actions_def get_action_by_id_def get_all_abis_def
      get_last_processed_block_def get_all_json_states_by_prefix_def fst_bindS select_def exec_def Let_def
      split: option.splits prod.splits sum.splits)

lemma same_tables_monitors: "same_tables s t \<Longrightarrow> db_monitors t = db_monitors s"
  unfolding same_tables_def by (drule arg_cong [of _ _ db_monitors]) simp

lemma outbox_abs_same_tables: "same_tables s t \<Longrightarrow> outbox_abs env t = outbox_abs env s"
  by (metis outbox_abs_counter same_tables_def)

lemma outbox_ok_same_tables: "same_tables s t \<Longrightarrow> outbox_ok t = outbox_ok s"
  by (metis outbox_ok.counter_blind same_tables_def)

lemma next_rowid_gt: "i < next_rowid env i"
  by (simp add: next_rowid_def)

lemma insert_or_ignore_counter [simp]:
  "insert_or_ignore env x (s\<lparr>db_queries := n\<rparr>) = (insert_or_ignore env x s)\<lparr>db_queries := n\<rparr>"
  by (simp add: insert_or_ignore_def Let_def split: prod.splits)

lemma insert_or_ignore_faults [simp]:
  "db_faults (insert_or_ignore env x s) = db_faults s" "db_queries (insert_or_ignore env x s) = db_queries s"
  by (simp_all add: insert_or_ignore_def Let_def split: prod.splits)

lemma fold_insert_counter [simp]:
  "fold (insert_or_ignore env) xs (s\<lparr>db_queries := n\<rparr>) = (fold (insert_or_ignore env) xs s)\<lparr>db_queries := n\<rparr>"
  by (induction xs arbitrary: s) simp_all

lemma fold_insert_faults [simp]:
  "db_faults (fold (insert_or_ignore env) xs s) = db_faults s"
  "db_queries (fold (insert_or_ignore env) xs s) = db_queries s"
  by (induction xs arbitrary: s) simp_all

lemma insert_or_ignore_ok: "outbox_ok s \<Longrightarrow> outbox_ok (insert_or_ignore env x s)"
  using next_rowid_gt [of "db_outbox_seq s" env]
  by (fastforce simp: insert_or_ignore_def Let_def outbox_ok_def sorted_append split: prod.splits)

lemma fold_insert_ok: "outbox_ok s \<Longrightarrow> outbox_ok (fold (insert_or_ignore env) xs s)"
  by (induction xs arbitrary: s) (simp_all add: insert_or_ignore_ok)

text \<open>What a batch adds: the first item of every key that is not yet in the outbox, in order.\<close>

fun fresh_items :: "('i \<Rightarrow> string) \<Rightarrow> string set \<Rightarrow> 'i list \<Rightarrow> 'i list" where
  "fresh_items key seen [] = []"
| "fresh_items key seen (x # xs) =
     (if key x \<in> seen then fresh_items key seen xs
      else x # fresh_items key (insert (key x) seen) xs)"

lemma fresh_items_keys: "key ` set (fresh_items key seen xs) = key ` set xs - seen"
  by (induction xs arbitrary: seen) auto

lemma fresh_items_subset: "set (fresh_items key seen xs) \<subseteq> set xs"
  by (induction xs arbitrary: seen) (auto split: if_splits)

lemma fresh_items_seen: "\<forall>x \<in> set xs. key x \<in> seen \<Longrightarrow> fresh_items key seen xs = []"
  by (induction xs) auto

lemma fold_insert_rows:
  "\<exists>ids. length ids = length (fresh_items (\<lambda>x. snd (snd x)) (ob_idempotency_key ` set (db_outbox s)) xs) \<and>
     db_outbox (fold (insert_or_ignore env) xs s) =
       db_outbox s @ map2 (\<lambda>i (a, p, k). \<lparr>ob_id = i, ob_action_name = a, ob_payload = p, ob_retries = 0,
                              ob_last_attempt = None, ob_idempotency_key = k\<rparr>)
         ids (fresh_items (\<lambda>x. snd (snd x)) (ob_idempotency_key ` set (db_outbox s)) xs)"
proof (induction xs arbitrary: s)
  case (Cons x xs)
  obtain a p k where x: "x = (a, p, k)" by (cases x)
  show ?case
  proof (cases "k \<in> ob_idempotency_key ` set (db_outbox s)")
    case True
    then have "insert_or_ignore env x s = s" by (auto simp: insert_or_ignore_def x)
    then show ?thesis using Cons.IH [of s] True by (simp add: x)
  next
    case False
    let ?s = "insert_or_ignore env x s"
    let ?i = "next_rowid env (db_outbox_seq s)"
    have s: "db_outbox ?s = db_outbox s @ [\<lparr>ob_id = ?i, ob_action_name = a, ob_payload = p,
        ob_retries = 0, ob_last_attempt = None, ob_idempotency_key = k\<rparr>]"
      using False by (auto simp: insert_or_ignore_def x Let_def)
    obtain ids where "length ids = length (fresh_items (\<lambda>x. snd (snd x)) (insert k (ob_idempotency_key ` set (db_outbox s))) xs)"
      "db_outbox (fold (insert_or_ignore env) xs ?s) =
         db_outbox ?s @ map2 (\<lambda>i (a, p, k). \<lparr>ob_id = i, ob_action_name = a, ob_payload = p, ob_retries = 0,
                              ob_last_attempt = None, ob_idempotency_key = k\<rparr>)
           ids (fresh_items (\<lambda>x. snd (snd x)) (insert k (ob_idempotency_key ` set (db_outbox s))) xs)"
      using Cons.IH [of ?s] by (auto simp: s)
    then show ?thesis using False by (intro exI [of _ "?i # ids"]) (simp add: x s [unfolded x])
  qed
qed simp

text \<open>The batch statements inside the transaction.\<close>

lemma stmt_enqueue: "stmt (\<lambda>s. if SQLITE_MAX_VARIABLES < OUTBOX_INSERT_COLUMNS * length chunk
    then (s, Inl ''too many SQL variables'')
    else (fold (insert_or_ignore env) (map (serialize_item env) chunk) s, Inr ()))"
  by (rule stmtI) (auto split: if_splits)

lemma foldS_enqueue:
  "foldS (enqueue_chunk env) cs s = (t, Inr ()) \<Longrightarrow>
     \<exists>n. t = (fold (insert_or_ignore env) (map (serialize_item env) (concat cs)) s)\<lparr>db_queries := n\<rparr>"
proof (induction cs arbitrary: s)
  case (Cons c cs)
  then obtain u where u: "enqueue_chunk env c s = (u, Inr ())" "foldS (enqueue_chunk env) cs u = (t, Inr ())"
    by (auto split: prod.splits sum.splits)
  then have "u = (fold (insert_or_ignore env) (map (serialize_item env) c) s)\<lparr>db_queries := Suc (db_queries s)\<rparr>"
    by (auto simp: enqueue_chunk_def exec_Inr [OF stmt_enqueue] split: if_splits)
  then show ?case using Cons.IH [OF u(2)] by auto
next
  case Nil
  then show ?case by (intro exI [of _ "db_queries s"]) simp
qed

lemma enqueue_effect:
  assumes "enqueue_outbox_batch env items s = (t, Inr ())"
  shows "\<exists>n. t = (fold (insert_or_ignore env) (map (serialize_item env) items) s)\<lparr>db_queries := n\<rparr>"
proof (cases "items = []")
  case False
  then obtain u where u: "foldS (enqueue_chunk env) (chunks (SQLITE_MAX_VARIABLES div OUTBOX_INSERT_COLUMNS) items)
      (s\<lparr>db_queries := Suc (db_queries s)\<rparr>) = (u, Inr ())" "t = u\<lparr>db_queries := Suc (db_queries u)\<rparr>"
    using assms by (auto simp: enqueue_outbox_batch_def transaction_Inr)
  show ?thesis using foldS_enqueue [OF u(1)] u(2) by auto
next
  case True
  then show ?thesis
    using assms by (intro exI [of _ "db_queries s"]) (simp add: enqueue_outbox_batch_def)
qed

lemma enqueue_error:
  "enqueue_outbox_batch env items s = (t, Inl e) \<Longrightarrow> same_tables s t"
  by (auto simp: enqueue_outbox_batch_def split: if_splits dest: transaction_Inl)

lemma foldS_enqueue_live:
  assumes "faultless s" "\<And>c. c \<in> set cs \<Longrightarrow> OUTBOX_INSERT_COLUMNS * length c \<le> SQLITE_MAX_VARIABLES"
  shows "\<exists>t. foldS (enqueue_chunk env) cs s = (t, Inr ()) \<and> faultless t"
  using assms
proof (induction cs arbitrary: s)
  case (Cons c cs)
  define u where "u = (fold (insert_or_ignore env) (map (serialize_item env) c) s)\<lparr>db_queries := Suc (db_queries s)\<rparr>"
  have "enqueue_chunk env c s = (u, Inr ())"
    using Cons.prems unfolding enqueue_chunk_def exec_Inr [OF stmt_enqueue]
    by (simp add: u_def faultless_def not_less)
  moreover have "faultless u" using Cons.prems by (simp add: u_def faultless_def)
  ultimately show ?case using Cons.IH [of u] Cons.prems by simp
qed simp

lemma enqueue_live:
  assumes "faultless s"
  shows "\<exists>t. enqueue_outbox_batch env items s = (t, Inr ()) \<and> faultless t"
proof (cases "items = []")
  case False
  let ?cs = "chunks (SQLITE_MAX_VARIABLES div OUTBOX_INSERT_COLUMNS) items"
  have "length c \<le> 333" if "c \<in> set ?cs" for c
    using length_chunk_le [OF that] by (simp add: SQLITE_MAX_VARIABLES_def OUTBOX_INSERT_COLUMNS_def)
  then have "OUTBOX_INSERT_COLUMNS * length c \<le> SQLITE_MAX_VARIABLES" if "c \<in> set ?cs" for c
    using that by (fastforce simp: SQLITE_MAX_VARIABLES_def OUTBOX_INSERT_COLUMNS_def)
  then obtain u where u: "foldS (enqueue_chunk env) ?cs (s\<lparr>db_queries := Suc (db_queries s)\<rparr>) = (u, Inr ())" "faultless u"
    using foldS_enqueue_live [of "s\<lparr>db_queries := Suc (db_queries s)\<rparr>" ?cs env] assms
    by (auto simp: faultless_def)
  then show ?thesis using False assms
    by (intro exI [of _ "u\<lparr>db_queries := Suc (db_queries u)\<rparr>"])
       (auto simp: enqueue_outbox_batch_def transaction_Inr faultless_def)
qed (use assms in \<open>simp add: enqueue_outbox_batch_def\<close>)

lemma enqueue_abs:
  assumes "enqueue_outbox_batch env items s = (t, Inr ())"
  shows "\<exists>new. outbox_abs env t = outbox_abs env s @ new \<and>
    map (\<lambda>e. (oe_key e, oe_action e, oe_payload e, oe_retries e)) new =
    map (\<lambda>(a, p). (idempotency_key (se_finish env) p, a,
                    payload_of_json (se_codec env) (payload_to_json (se_codec env) p), 0))
      (fresh_items (\<lambda>(a, p). idempotency_key (se_finish env) p) (oe_key ` set (outbox_abs env s)) items)"
proof -
  let ?seen = "ob_idempotency_key ` set (db_outbox s)"
  let ?xs = "fresh_items (\<lambda>x. snd (snd x)) ?seen (map (serialize_item env) items)"
  let ?mk = "\<lambda>i (a, p, k). \<lparr>ob_id = i, ob_action_name = a, ob_payload = p, ob_retries = 0,
                              ob_last_attempt = None, ob_idempotency_key = k\<rparr>"
  have seen: "oe_key ` set (outbox_abs env s) = ?seen" by (simp add: outbox_abs_def image_image)
  have fresh: "fresh_items (\<lambda>x. snd (snd x)) seen (map (serialize_item env) items) =
    map (serialize_item env) (fresh_items (\<lambda>(a, p). idempotency_key (se_finish env) p) seen items)" for seen
    by (induction items arbitrary: seen) (auto simp: serialize_item_def split: prod.splits)
  obtain n where "t = (fold (insert_or_ignore env) (map (serialize_item env) items) s)\<lparr>db_queries := n\<rparr>"
    using enqueue_effect [OF assms] by blast
  then obtain ids where ids: "length ids = length ?xs" "db_outbox t = db_outbox s @ map2 ?mk ids ?xs"
    using fold_insert_rows [of s "map (serialize_item env) items" env] by auto
  have "map (\<lambda>e. (oe_key e, oe_action e, oe_payload e, oe_retries e)) (map (entry_of_row env) (map2 ?mk ids ys)) =
    map (\<lambda>(a, p, k). (k, a, payload_of_json (se_codec env) p, 0)) ys" if "length ids = length ys" for ids ys
    using that by (induction ids ys rule: list_induct2) (auto split: prod.splits)
  note this [OF ids(1)]
  also have "map (\<lambda>(a, p, k). (k, a, payload_of_json (se_codec env) p, 0)) ?xs =
    map (\<lambda>(a, p). (idempotency_key (se_finish env) p, a,
                    payload_of_json (se_codec env) (payload_to_json (se_codec env) p), 0))
      (fresh_items (\<lambda>(a, p). idempotency_key (se_finish env) p) ?seen items)"
    unfolding fresh map_map by (rule map_cong) (auto simp: serialize_item_def)
  finally show ?thesis
    by (intro exI [of _ "map (entry_of_row env) (map2 ?mk ids ?xs)"] conjI)
       (simp_all only: seen, simp only: outbox_abs_def ids(2) map_append)
qed

lemma enqueue_ok:
  assumes "outbox_ok s"
  shows "outbox_ok (fst (enqueue_outbox_batch env items s))"
proof (cases "enqueue_outbox_batch env items s")
  case (Pair t r)
  then show ?thesis
    using enqueue_effect [of env items s t] enqueue_error [of env items s t] assms
    by (cases r) (auto simp: outbox_ok_same_tables outbox_ok.counter_blind fold_insert_ok)
qed

subsection \<open>Deleting, counting retries and reading\<close>

lemma stmt_delete: "stmt (\<lambda>s. if SQLITE_MAX_VARIABLES < length ids then (s, Inl ''too many SQL variables'')
    else (s\<lparr>db_outbox := filter (\<lambda>r. ob_id r \<notin> set ids) (db_outbox s)\<rparr>, Inr ()))"
  by (rule stmtI) (auto split: if_splits)

lemma foldS_delete:
  "foldS delete_chunk cs s = (t, Inr ()) \<Longrightarrow>
     \<exists>n. t = s\<lparr>db_outbox := filter (\<lambda>r. ob_id r \<notin> set (concat cs)) (db_outbox s), db_queries := n\<rparr>"
proof (induction cs arbitrary: s)
  case Nil
  then show ?case by (intro exI [of _ "db_queries s"]) simp
next
  case (Cons c cs)
  then obtain u where u: "delete_chunk c s = (u, Inr ())" "foldS delete_chunk cs u = (t, Inr ())"
    by (auto split: prod.splits sum.splits)
  then have "u = s\<lparr>db_outbox := filter (\<lambda>r. ob_id r \<notin> set c) (db_outbox s), db_queries := Suc (db_queries s)\<rparr>"
    by (auto simp: delete_chunk_def exec_Inr [OF stmt_delete] split: if_splits)
  then show ?case using Cons.IH [OF u(2)] by (auto simp: conj_commute)
qed

lemma delete_effect:
  assumes "delete_outbox_items_batch ids s = (t, Inr ())"
  shows "\<exists>n. t = s\<lparr>db_outbox := filter (\<lambda>r. ob_id r \<notin> set ids) (db_outbox s), db_queries := n\<rparr>"
proof (cases "ids = []")
  case False
  then obtain u where u: "foldS delete_chunk (chunks SQLITE_MAX_VARIABLES ids)
      (s\<lparr>db_queries := Suc (db_queries s)\<rparr>) = (u, Inr ())" "t = u\<lparr>db_queries := Suc (db_queries u)\<rparr>"
    using assms by (auto simp: delete_outbox_items_batch_def transaction_Inr)
  show ?thesis using foldS_delete [OF u(1)] u(2) by auto
next
  case True
  then show ?thesis
    using assms by (intro exI [of _ "db_queries s"]) (simp add: delete_outbox_items_batch_def)
qed

lemma delete_error: "delete_outbox_items_batch ids s = (t, Inl e) \<Longrightarrow> same_tables s t"
  by (auto simp: delete_outbox_items_batch_def split: if_splits dest: transaction_Inl)

lemma foldS_delete_live:
  assumes "faultless s" "\<And>c. c \<in> set cs \<Longrightarrow> length c \<le> SQLITE_MAX_VARIABLES"
  shows "\<exists>t. foldS delete_chunk cs s = (t, Inr ()) \<and> faultless t"
  using assms
proof (induction cs arbitrary: s)
  case (Cons c cs)
  define u where "u = s\<lparr>db_outbox := filter (\<lambda>r. ob_id r \<notin> set c) (db_outbox s), db_queries := Suc (db_queries s)\<rparr>"
  have "delete_chunk c s = (u, Inr ())"
    using Cons.prems unfolding delete_chunk_def exec_Inr [OF stmt_delete]
    by (simp add: u_def faultless_def not_less)
  moreover have "faultless u" using Cons.prems by (simp add: u_def faultless_def)
  ultimately show ?case using Cons.IH [of u] Cons.prems by simp
qed simp

lemma delete_live:
  assumes "faultless s"
  shows "\<exists>t. delete_outbox_items_batch ids s = (t, Inr ()) \<and> faultless t"
proof (cases "ids = []")
  case False
  let ?cs = "chunks SQLITE_MAX_VARIABLES ids"
  have "length c \<le> SQLITE_MAX_VARIABLES" if "c \<in> set ?cs" for c
    using length_chunk_le [OF that] by (simp add: SQLITE_MAX_VARIABLES_def)
  then obtain u where u: "foldS delete_chunk ?cs (s\<lparr>db_queries := Suc (db_queries s)\<rparr>) = (u, Inr ())" "faultless u"
    using foldS_delete_live [of "s\<lparr>db_queries := Suc (db_queries s)\<rparr>" ?cs] assms
    by (auto simp: faultless_def)
  then show ?thesis using False assms
    by (intro exI [of _ "u\<lparr>db_queries := Suc (db_queries u)\<rparr>"])
       (auto simp: delete_outbox_items_batch_def transaction_Inr faultless_def)
qed (use assms in \<open>simp add: delete_outbox_items_batch_def\<close>)

lemma outbox_ok_filter:
  "outbox_ok s \<Longrightarrow> outbox_ok (s\<lparr>db_outbox := filter P (db_outbox s)\<rparr>)"
  by (auto simp: outbox_ok_def sorted_filter distinct_map_filter)

lemma delete_ok:
  assumes "outbox_ok s"
  shows "outbox_ok (fst (delete_outbox_items_batch ids s))"
proof (cases "delete_outbox_items_batch ids s")
  case (Pair t r)
  then show ?thesis
    using delete_effect [of ids s t] delete_error [of ids s t] assms outbox_ok_filter [OF assms]
    by (cases r) (auto simp: outbox_ok_same_tables outbox_ok.counter_blind)
qed

definition bump_retries :: "i64 \<Rightarrow> outbox_entry \<Rightarrow> outbox_entry" where
  "bump_retries i e = (if oe_id e = i then e\<lparr>oe_retries := oe_retries e + 1\<rparr> else e)"

lemma increment_cases:
  "increment_outbox_retries i s = (t, r) \<Longrightarrow>
     outbox_abs env t = (case r of Inl _ \<Rightarrow> outbox_abs env s | Inr _ \<Rightarrow> map (bump_retries i) (outbox_abs env s)) \<and>
     (outbox_ok s \<longrightarrow> outbox_ok t) \<and> (faultless s \<longrightarrow> faultless t \<and> r = Inr ())"
  by (auto simp: increment_outbox_retries_def modify_def exec_def Let_def outbox_abs_def bump_retries_def
      entry_of_row_def outbox_ok_def faultless_def comp_def if_distrib cong: if_cong split: option.splits)

lemma sort_outbox: "outbox_ok s \<Longrightarrow> sort_key ob_id (db_outbox s) = db_outbox s"
  by (simp add: outbox_ok_def sort_key_id_if_sorted)

lemma pending_counter: "fst (get_pending_outbox env n s) = s\<lparr>db_queries := Suc (db_queries s)\<rparr>"
  using select_fst [of "\<lambda>s. sql_limit n (sort_key ob_id (db_outbox s))" s]
  by (auto simp: get_pending_outbox_def fst_bindS split: prod.splits sum.splits)

lemma sql_limit_map: "sql_limit n (map f xs) = map f (sql_limit n xs)"
  by (simp add: sql_limit_def take_map)

definition item_of_entry :: "outbox_item \<Rightarrow> outbox_entry \<Rightarrow> bool" where
  "item_of_entry it e \<longleftrightarrow> oi_id it = oe_id e \<and> oi_action_name it = oe_action e \<and>
     oe_payload e = Some (oi_payload it) \<and> oi_retries it = oe_retries e"

definition readable :: "outbox_entry \<Rightarrow> bool" where
  "readable e \<longleftrightarrow> oe_payload e \<noteq> None \<and> - (2 ^ 31) \<le> oe_retries e \<and> oe_retries e \<le> 2 ^ 31 - 1"

lemma outbox_item_of_row_Inr:
  "outbox_item_of_row env r = Inr it \<Longrightarrow> item_of_entry it (entry_of_row env r)"
  by (auto simp: outbox_item_of_row_def result_simps item_of_entry_def split: if_splits)

lemma outbox_item_of_row_readable:
  "readable (entry_of_row env r) \<Longrightarrow> \<exists>it. outbox_item_of_row env r = Inr it"
  by (auto simp: outbox_item_of_row_def readable_def)

lemma pending_Inr:
  assumes "outbox_ok s" "get_pending_outbox env n s = (t, Inr items)"
  shows "list_all2 item_of_entry items (sql_limit n (outbox_abs env s))"
proof -
  have "traverse (outbox_item_of_row env) (sql_limit n (db_outbox s)) = Inr items"
    using assms by (auto simp: get_pending_outbox_def bindS_Inr_iff select_Inr sort_outbox)
  then have "list_all2 (\<lambda>r it. item_of_entry it (entry_of_row env r)) (sql_limit n (db_outbox s)) items"
    unfolding traverse_Inr_iff by (rule list_all2_mono) (rule outbox_item_of_row_Inr)
  then show ?thesis
    by (simp add: outbox_abs_def sql_limit_map list.rel_map list_all2_conv_all_nth)
qed

lemma pending_live:
  assumes "outbox_ok s" "faultless s" "\<forall>e \<in> set (sql_limit n (outbox_abs env s)). readable e"
  shows "\<exists>t items. get_pending_outbox env n s = (t, Inr items) \<and> faultless t"
proof -
  have "\<exists>it. outbox_item_of_row env r = Inr it" if "r \<in> set (sql_limit n (db_outbox s))" for r
    using assms(3) that outbox_item_of_row_readable by (auto simp: outbox_abs_def sql_limit_map)
  then obtain g where g: "\<And>r. r \<in> set (sql_limit n (db_outbox s)) \<Longrightarrow> outbox_item_of_row env r = Inr (g r)"
    by metis
  have "traverse (outbox_item_of_row env) (sql_limit n (db_outbox s)) = Inr (map g (sql_limit n (db_outbox s)))"
    by (rule traverse_map_Inr) (rule g)
  then have "get_pending_outbox env n s = (s\<lparr>db_queries := Suc (db_queries s)\<rparr>, Inr (map g (sql_limit n (db_outbox s))))"
    using assms(1,2) by (auto simp: get_pending_outbox_def bindS_Inr_iff select_Inr sort_outbox faultless_def)
  then show ?thesis using assms(2) by (auto simp: faultless_def)
qed

section \<open>The outbox contract of the repository trait\<close>

text \<open>The outbox methods of the trait \<open>AppRepository\<close>, as its generic clients see them.\<close>

record 's outbox_repo =
  r_enqueue :: "(string \<times> action_payload) list \<Rightarrow> ('s, persistence_error, unit) op"
  r_pending :: "i64 \<Rightarrow> ('s, persistence_error, outbox_item list) op"
  r_delete :: "i64 list \<Rightarrow> ('s, persistence_error, unit) op"
  r_increment :: "i64 \<Rightarrow> ('s, persistence_error, unit) op"

definition sqlite_outbox :: "store_env \<Rightarrow> db outbox_repo" where
  "sqlite_outbox env =
     \<lparr>r_enqueue = enqueue_outbox_batch env, r_pending = get_pending_outbox env,
      r_delete = delete_outbox_items_batch, r_increment = increment_outbox_retries\<rparr>"

text \<open>What its clients rely on, over an abstract queue: ids and keys are unique, reading returns a
  prefix, deletion and retry counting act on exactly the named ids, enqueueing appends the items
  whose key is new, and a call that returns an error changed nothing. \<open>live\<close> says that the store
  will not refuse a statement.\<close>

locale outbox_queue =
  fixes repo :: "'s outbox_repo"
    and abs :: "'s \<Rightarrow> outbox_entry list"
    and ok :: "'s \<Rightarrow> bool"
    and live :: "'s \<Rightarrow> bool"
    and key :: "action_payload \<Rightarrow> string"
    and stored :: "action_payload \<Rightarrow> action_payload option"
  assumes ids_distinct: "ok s \<Longrightarrow> distinct (map oe_id (abs s))"
    and keys_distinct: "ok s \<Longrightarrow> distinct (map oe_key (abs s))"
    and pending_keeps: "r_pending repo n s = (t, r) \<Longrightarrow> abs t = abs s \<and> (ok s \<longrightarrow> ok t)"
    and pending_items: "ok s \<Longrightarrow> r_pending repo n s = (t, Inr items) \<Longrightarrow>
      list_all2 item_of_entry items (sql_limit n (abs s))"
    and pending_lives: "ok s \<Longrightarrow> live s \<Longrightarrow> \<forall>e \<in> set (sql_limit n (abs s)). readable e \<Longrightarrow>
      \<exists>t items. r_pending repo n s = (t, Inr items) \<and> live t"
    and delete_done: "r_delete repo ids s = (t, Inr ()) \<Longrightarrow> abs t = filter (\<lambda>e. oe_id e \<notin> set ids) (abs s)"
    and delete_failed: "r_delete repo ids s = (t, Inl e) \<Longrightarrow> abs t = abs s"
    and delete_keeps: "ok s \<Longrightarrow> ok (fst (r_delete repo ids s))"
    and delete_lives: "live s \<Longrightarrow> \<exists>t. r_delete repo ids s = (t, Inr ()) \<and> live t"
    and increment_done: "r_increment repo i s = (t, c) \<Longrightarrow>
      abs t = (case c of Inl _ \<Rightarrow> abs s | Inr _ \<Rightarrow> map (bump_retries i) (abs s)) \<and> (ok s \<longrightarrow> ok t) \<and>
      (live s \<longrightarrow> live t \<and> c = Inr ())"
    and enqueue_done: "r_enqueue repo batch s = (t, Inr ()) \<Longrightarrow>
      \<exists>new. abs t = abs s @ new \<and>
        map (\<lambda>e. (oe_key e, oe_action e, oe_payload e, oe_retries e)) new =
        map (\<lambda>(a, p). (key p, a, stored p, 0)) (fresh_items (\<lambda>(a, p). key p) (oe_key ` set (abs s)) batch)"
    and enqueue_failed: "r_enqueue repo batch s = (t, Inl e) \<Longrightarrow> abs t = abs s"
    and enqueue_keeps: "ok s \<Longrightarrow> ok (fst (r_enqueue repo batch s))"
    and enqueue_lives: "live s \<Longrightarrow> \<exists>t. r_enqueue repo batch s = (t, Inr ()) \<and> live t"
begin

lemma enqueue_keys:
  assumes "r_enqueue repo items s = (t, Inr ())"
  shows "oe_key ` set (abs t) = oe_key ` set (abs s) \<union> (key \<circ> snd) ` set items"
proof -
  let ?f = "fresh_items (\<lambda>(a, p). key p) (oe_key ` set (abs s)) items"
  obtain new where new: "abs t = abs s @ new"
    "map (\<lambda>e. (oe_key e, oe_action e, oe_payload e, oe_retries e)) new = map (\<lambda>(a, p). (key p, a, stored p, 0)) ?f"
    using enqueue_done [OF assms] by blast
  have "map oe_key new = map fst (map (\<lambda>e. (oe_key e, oe_action e, oe_payload e, oe_retries e)) new)"
    by simp
  also have "\<dots> = map (\<lambda>(a, p). key p) ?f" unfolding new(2) by (simp add: case_prod_beta')
  finally have "set (map oe_key new) = set (map (\<lambda>(a, p). key p) ?f)" by (rule arg_cong)
  then have "oe_key ` set new = (key \<circ> snd) ` set items - oe_key ` set (abs s)"
    by (simp add: fresh_items_keys comp_def case_prod_beta')
  then show ?thesis by (auto simp: new(1) image_Un)
qed

lemma enqueue_again:
  assumes "r_enqueue repo items s = (t, Inr ())" "r_enqueue repo items' t = (u, Inr ())"
    "(key \<circ> snd) ` set items' \<subseteq> (key \<circ> snd) ` set items"
  shows "abs u = abs t"
proof -
  have "\<forall>x \<in> set items'. (\<lambda>(a, p). key p) x \<in> oe_key ` set (abs t)"
    using enqueue_keys [OF assms(1)] assms(3) by (simp add: comp_def case_prod_beta' image_subset_iff)
  then have "fresh_items (\<lambda>(a, p). key p) (oe_key ` set (abs t)) items' = []" by (rule fresh_items_seen)
  then show ?thesis using enqueue_done [OF assms(2)] by auto
qed

end

interpretation sqlite: outbox_queue "sqlite_outbox env" "outbox_abs env" outbox_ok faultless
  "idempotency_key (se_finish env)" "\<lambda>p. payload_of_json (se_codec env) (payload_to_json (se_codec env) p)"
  for env
proof (unfold_locales, goal_cases)
  case (3 n s t r)
  then show ?case
    using pending_counter [of env n s] by (auto simp: sqlite_outbox_def outbox_ok.counter_blind)
next
  case (4 s n t items)
  then show ?case by (simp add: sqlite_outbox_def pending_Inr)
next
  case (5 s n)
  then show ?case using pending_live [of s n env] by (simp add: sqlite_outbox_def)
next
  case (6 ids s t)
  then show ?case
    using delete_effect [of ids s t] by (auto simp: sqlite_outbox_def outbox_abs_def filter_map comp_def)
next
  case (7 ids s t e)
  then show ?case using delete_error by (fastforce simp: sqlite_outbox_def outbox_abs_same_tables)
next
  case (10 i s t c)
  then show ?case using increment_cases [of i s t c env] by (auto simp: sqlite_outbox_def split: sum.splits)
next
  case (11 items s t)
  then show ?case using enqueue_abs [of env items s t] by (simp add: sqlite_outbox_def)
next
  case (12 items s t e)
  then show ?case using enqueue_error by (fastforce simp: sqlite_outbox_def outbox_abs_same_tables)
qed (simp_all add: sqlite_outbox_def delete_ok delete_live enqueue_ok enqueue_live,
     simp_all add: outbox_ok_def outbox_abs_def comp_def)

section \<open>The contract of the key-value store\<close>

text \<open>A written key reads back, other keys are unaffected, and a refused write changes nothing.\<close>

locale kv_store =
  fixes put :: "string \<Rightarrow> json \<Rightarrow> ('s, persistence_error, unit) op"
    and view :: "'s \<Rightarrow> string \<Rightarrow> json option"
    and live :: "'s \<Rightarrow> bool"
  assumes put_done: "put k v s = (t, Inr ()) \<Longrightarrow> view t = (view s)(k \<mapsto> v)"
    and put_failed: "put k v s = (t, Inl e) \<Longrightarrow> view t = view s"
    and put_lives: "live s \<Longrightarrow> \<exists>t. put k v s = (t, Inr ()) \<and> live t"
begin

lemma put_all:
  assumes "live s"
  shows "\<exists>t. foldS (\<lambda>(k, v). put (f k) (g v)) kvs s = (t, Inr ()) \<and> live t \<and>
    view t = fold (\<lambda>(k, v) m. m(f k \<mapsto> g v)) kvs (view s)"
  using assms
proof (induction kvs arbitrary: s)
  case (Cons x kvs)
  obtain k v where x: "x = (k, v)" by (cases x)
  obtain u where u: "put (f k) (g v) s = (u, Inr ())" "live u" using put_lives [OF Cons.prems] by blast
  then show ?case using Cons.IH [OF u(2)] put_done [OF u(1)] by (auto simp: x)
qed simp

end

interpretation sqlite_kv: kv_store "set_json_state id" "\<lambda>s. map_of (db_state s)" faultless
  by unfold_locales
     (auto simp: set_json_state_def modify_def exec_def Let_def faultless_def split: option.splits)

lemma set_json_state_id: "set_json_state enc k v = set_json_state id k (enc v)"
  by (simp add: set_json_state_def)

section \<open>The invariant of the database\<close>

definition abi_exists :: "db \<Rightarrow> string option \<Rightarrow> bool" where
  "abi_exists s a \<longleftrightarrow> (\<forall>n. a = Some n \<longrightarrow> n \<in> fst ` set (db_abis s))"

definition monitors_ok :: "db \<Rightarrow> bool" where
  "monitors_ok s \<longleftrightarrow>
     distinct (map mr_monitor_id (db_monitors s)) \<and>
     (\<forall>r \<in> set (db_monitors s). mr_monitor_id r \<le> db_monitors_seq s) \<and>
     distinct (map (\<lambda>r. (mr_network r, mr_name r)) (db_monitors s)) \<and>
     (\<forall>r \<in> set (db_monitors s). abi_exists s (mr_abi_name r) \<and> actions_of_json (mr_actions r) \<noteq> None)"

definition actions_ok :: "db \<Rightarrow> bool" where
  "actions_ok s \<longleftrightarrow>
     distinct (map ar_action_id (db_actions s)) \<and>
     (\<forall>r \<in> set (db_actions s). ar_action_id r \<le> db_actions_seq s) \<and>
     distinct (map (\<lambda>r. (ar_network_id r, ar_name r)) (db_actions s))"

definition keyed_ok :: "db \<Rightarrow> bool" where
  "keyed_ok s \<longleftrightarrow>
     distinct (map fst (db_abis s)) \<and> distinct (map fst (db_state s)) \<and>
     distinct (map fst (db_processed s)) \<and> (\<forall>(n, b) \<in> set (db_processed s). 0 \<le> b \<and> b \<le> i64_max)"

definition db_ok :: "db \<Rightarrow> bool" where
  "db_ok s \<longleftrightarrow> outbox_ok s \<and> monitors_ok s \<and> actions_ok s \<and> keyed_ok s"

lemmas db_ok_defs = db_ok_def outbox_ok_def monitors_ok_def actions_ok_def keyed_ok_def abi_exists_def

interpretation db_ok: db_predicate db_ok
  by unfold_locales (simp add: db_ok_defs)

lemma outbox_frame [simp]:
  "outbox_ok (s\<lparr>db_processed := a\<rparr>) = outbox_ok s" "outbox_ok (s\<lparr>db_monitors := b\<rparr>) = outbox_ok s"
  "outbox_ok (s\<lparr>db_monitors_seq := i\<rparr>) = outbox_ok s" "outbox_ok (s\<lparr>db_actions := c\<rparr>) = outbox_ok s"
  "outbox_ok (s\<lparr>db_actions_seq := i\<rparr>) = outbox_ok s" "outbox_ok (s\<lparr>db_abis := d\<rparr>) = outbox_ok s"
  "outbox_ok (s\<lparr>db_state := e\<rparr>) = outbox_ok s" "outbox_ok (s\<lparr>db_clock := i\<rparr>) = outbox_ok s"
  by (simp_all add: outbox_ok_def)

lemma monitors_frame [simp]:
  "monitors_ok (s\<lparr>db_processed := a\<rparr>) = monitors_ok s" "monitors_ok (s\<lparr>db_actions := c\<rparr>) = monitors_ok s"
  "monitors_ok (s\<lparr>db_actions_seq := i\<rparr>) = monitors_ok s" "monitors_ok (s\<lparr>db_state := e\<rparr>) = monitors_ok s"
  "monitors_ok (s\<lparr>db_outbox := f\<rparr>) = monitors_ok s" "monitors_ok (s\<lparr>db_outbox_seq := i\<rparr>) = monitors_ok s"
  "monitors_ok (s\<lparr>db_clock := i\<rparr>) = monitors_ok s"
  by (simp_all add: monitors_ok_def abi_exists_def)

lemma actions_frame [simp]:
  "actions_ok (s\<lparr>db_processed := a\<rparr>) = actions_ok s" "actions_ok (s\<lparr>db_monitors := b\<rparr>) = actions_ok s"
  "actions_ok (s\<lparr>db_monitors_seq := i\<rparr>) = actions_ok s" "actions_ok (s\<lparr>db_abis := d\<rparr>) = actions_ok s"
  "actions_ok (s\<lparr>db_state := e\<rparr>) = actions_ok s" "actions_ok (s\<lparr>db_outbox := f\<rparr>) = actions_ok s"
  "actions_ok (s\<lparr>db_outbox_seq := i\<rparr>) = actions_ok s" "actions_ok (s\<lparr>db_clock := i\<rparr>) = actions_ok s"
  by (simp_all add: actions_ok_def)

lemma keyed_frame [simp]:
  "keyed_ok (s\<lparr>db_monitors := b\<rparr>) = keyed_ok s" "keyed_ok (s\<lparr>db_monitors_seq := i\<rparr>) = keyed_ok s"
  "keyed_ok (s\<lparr>db_actions := c\<rparr>) = keyed_ok s" "keyed_ok (s\<lparr>db_actions_seq := i\<rparr>) = keyed_ok s"
  "keyed_ok (s\<lparr>db_outbox := f\<rparr>) = keyed_ok s" "keyed_ok (s\<lparr>db_outbox_seq := i\<rparr>) = keyed_ok s"
  "keyed_ok (s\<lparr>db_clock := i\<rparr>) = keyed_ok s"
  by (simp_all add: keyed_ok_def)

lemma db_ok_split: "db_ok s \<Longrightarrow> outbox_ok s \<and> monitors_ok s \<and> actions_ok s \<and> keyed_ok s"
  by (simp add: db_ok_def)

lemma actions_roundtrip [simp]: "actions_of_json (actions_to_json xs) = Some xs"
proof -
  have "those (map (\<lambda>x. json_str (JString x)) xs) = Some (map (\<lambda>x. x) xs)" by (rule those_map_Some) simp
  then show ?thesis by (simp add: actions_of_json_def actions_to_json_def comp_def)
qed

lemma distinct_map_update:
  "distinct (map f xs) \<Longrightarrow> (\<And>x. f (g x) = f x) \<Longrightarrow> distinct (map f (map g xs))"
  by (simp add: comp_def)

lemma set_last_processed_block_ok: "db_ok s \<Longrightarrow> db_ok (fst (set_last_processed_block n b s))"
proof -
  assume ok: "db_ok s"
  have "db_ok (t\<lparr>db_processed := AList.update n (uint b) (db_processed t)\<rparr>)"
    if "db_ok t" "uint b \<le> i64_max" for t
  proof -
    have "\<forall>(k, c) \<in> set (AList.update n (uint b) (db_processed t)). 0 \<le> c \<and> c \<le> i64_max"
    proof (clarify)
      fix k c assume "(k, c) \<in> set (AList.update n (uint b) (db_processed t))"
      then have "map_of (AList.update n (uint b) (db_processed t)) k = Some c"
        using that by (intro map_of_is_SomeI) (simp_all add: db_ok_def keyed_ok_def distinct_update)
      then have "k = n \<and> c = uint b \<or> (k, c) \<in> set (db_processed t)"
        by (auto split: if_splits dest: map_of_SomeD)
      then show "0 \<le> c \<and> c \<le> i64_max"
        using that by (auto simp: db_ok_def keyed_ok_def)
    qed
    then show ?thesis using that by (simp add: db_ok_def keyed_ok_def distinct_update)
  qed
  with ok show ?thesis unfolding set_last_processed_block_def
    by (auto intro: db_ok.modify_keeps)
qed

lemma pragma_ok: "db_ok s \<Longrightarrow> db_ok (fst (execute_pragma s))"
  unfolding execute_pragma_def by (rule db_ok.modify_keeps) simp_all

lemma checkpoint_ok: "db_ok s \<Longrightarrow> db_ok (fst (checkpoint_wal m s))"
  by (simp add: checkpoint_wal_def pragma_ok)

lemma synchronous_ok: "db_ok s \<Longrightarrow> db_ok (fst (set_synchronous_mode m s))"
  by (simp add: set_synchronous_mode_def pragma_ok)

lemma flush_ok: "db_ok s \<Longrightarrow> db_ok (fst (store_flush s))"
  unfolding store_flush_def by (intro db_ok.bindS_keeps synchronous_ok checkpoint_ok)

lemma save_emergency_state_ok: "db_ok s \<Longrightarrow> db_ok (fst (save_emergency_state n b x s))"
  unfolding save_emergency_state_def by (intro db_ok.bindS_keeps set_last_processed_block_ok flush_ok)

lemma insert_monitor_ok: "db_ok s \<Longrightarrow> db_ok (fst (insert_monitor env m s))"
  using next_rowid_gt [of "db_monitors_seq s" env]
  by (fastforce simp: insert_monitor_def Let_def db_ok_def monitors_ok_def abi_exists_def map_of_eq_None_iff
      split: option.splits)

lemma add_monitors_ok: "db_ok s \<Longrightarrow> db_ok (fst (add_monitors env n ms s))"
  unfolding add_monitors_def
  by (auto split: option.splits intro!: db_ok.transaction_keeps foldS_invariant [where P = db_ok]
      db_ok.exec_keeps insert_monitor_ok)

lemma filter_monitors_ok: "db_ok s \<Longrightarrow> db_ok (s\<lparr>db_monitors := filter P (db_monitors s)\<rparr>)"
  by (auto simp: db_ok_def monitors_ok_def abi_exists_def distinct_map_filter)

lemma clear_monitors_ok: "db_ok s \<Longrightarrow> db_ok (fst (clear_monitors n s))"
  unfolding clear_monitors_def by (rule db_ok.modify_keeps) (rule filter_monitors_ok)

lemma delete_monitor_ok: "db_ok s \<Longrightarrow> db_ok (fst (delete_monitor env n i s))"
  unfolding delete_monitor_def
  by (intro db_ok.or_not_found_keeps db_ok.exec_keeps) (auto intro: filter_monitors_ok)

lemma map_monitors_ok:
  assumes "db_ok s" "\<And>r. mr_monitor_id (g r) = mr_monitor_id r" "\<And>r. mr_name (g r) = mr_name r"
    "\<And>r. mr_network (g r) = mr_network r"
    "\<And>r. r \<in> set (db_monitors s) \<Longrightarrow> abi_exists s (mr_abi_name (g r)) \<and> actions_of_json (mr_actions (g r)) \<noteq> None"
  shows "db_ok (s\<lparr>db_monitors := map g (db_monitors s)\<rparr>)"
  using assms by (simp add: db_ok_def monitors_ok_def abi_exists_def comp_def)

lemma update_monitor_ok:
  assumes "db_ok s"
  shows "db_ok (fst (update_monitor env n i m s))"
proof -
  have "db_ok (fst (update_monitor_stmt env n i m t))" if ok: "db_ok t" for t
  proof -
    let ?hit = "monitor_key env n i"
    let ?g = "\<lambda>r. if ?hit r then r\<lparr>mr_address := mc_address m, mr_abi_name := mc_abi_name m,
       mr_filter_script := mc_filter_script m, mr_actions := actions_to_json (mc_actions m)\<rparr> else r"
    have "db_ok (t\<lparr>db_monitors := map ?g (db_monitors t)\<rparr>)"
      if "filter ?hit (db_monitors t) = [] \<or> abi_exists t (mc_abi_name m)"
      by (rule map_monitors_ok [OF ok])
         (use ok that in \<open>auto simp: monitors_ok_def db_ok_def filter_empty_conv\<close>)
    then show ?thesis
      using ok by (auto simp: update_monitor_stmt_def Let_def abi_exists_def map_of_eq_None_iff split: option.splits)
  qed
  then show ?thesis
    unfolding update_monitor_def by (intro db_ok.or_not_found_keeps db_ok.exec_keeps assms)
qed

lemma update_monitor_status_ok:
  assumes "db_ok s"
  shows "db_ok (fst (update_monitor_status env n i st s))"
proof -
  have "db_ok (t\<lparr>db_monitors := map (\<lambda>r. if hit r then r\<lparr>mr_status := st\<rparr> else r) (db_monitors t)\<rparr>)"
    if "db_ok t" for t hit
    by (rule map_monitors_ok [OF that]) (use that in \<open>auto simp: db_ok_def monitors_ok_def\<close>)
  then show ?thesis using assms
    unfolding update_monitor_status_def Let_def
    by (intro db_ok.or_not_found_keeps db_ok.exec_keeps) simp_all
qed

lemma create_abi_ok: "db_ok s \<Longrightarrow> db_ok (fst (create_abi n a s))"
  unfolding create_abi_def
  by (intro db_ok.exec_keeps) (auto simp: db_ok_def monitors_ok_def keyed_ok_def abi_exists_def map_of_eq_None_iff)

lemma delete_abi_stmt_ok:
  assumes u: "db_ok u"
  shows "db_ok (fst (delete_abi_stmt n u))"
proof (cases "(\<exists>r \<in> set (db_monitors u). mr_abi_name r = Some n) \<and> map_of (db_abis u) n \<noteq> None")
  case False
  let ?abis = "filter (\<lambda>(m, _). m \<noteq> n) (db_abis u)"
  have keys: "fst ` set ?abis = fst ` set (db_abis u) - {n}" by force
  have "\<forall>r \<in> set (db_monitors u). mr_abi_name r \<noteq> Some n"
    using False u by (auto simp: db_ok_def monitors_ok_def abi_exists_def map_of_eq_None_iff)
  then have "monitors_ok (u\<lparr>db_abis := ?abis\<rparr>)"
    using u unfolding db_ok_def monitors_ok_def abi_exists_def by (simp add: keys del: set_filter) blast
  moreover have "keyed_ok (u\<lparr>db_abis := ?abis\<rparr>)"
    using u by (simp add: db_ok_def keyed_ok_def distinct_map_filter)
  moreover have "outbox_ok (u\<lparr>db_abis := ?abis\<rparr>)" "actions_ok (u\<lparr>db_abis := ?abis\<rparr>)"
    using u by (simp_all add: db_ok_def)
  moreover have "fst (delete_abi_stmt n u) = u\<lparr>db_abis := ?abis\<rparr>"
    unfolding delete_abi_stmt_def if_not_P [OF False] by simp
  ultimately show ?thesis by (simp only: db_ok_def)
qed (use u in \<open>simp add: delete_abi_stmt_def\<close>)

lemma delete_abi_ok: "db_ok s \<Longrightarrow> db_ok (fst (delete_abi n s))"
  unfolding delete_abi_def
  by (intro db_ok.bindS_keeps db_ok.select_keeps)
     (auto intro: db_ok.or_not_found_keeps db_ok.exec_keeps delete_abi_stmt_ok)

lemma create_action_ok: "db_ok s \<Longrightarrow> db_ok (fst (create_action env n a s))"
  unfolding create_action_def
proof (intro db_ok.bindS_keeps db_ok.exec_keeps, goal_cases)
  case (1 s)
  then show ?case using next_rowid_gt [of "db_actions_seq s" env] by (fastforce simp: Let_def db_ok_def actions_ok_def)
qed simp_all

lemma filter_actions_ok: "db_ok s \<Longrightarrow> db_ok (s\<lparr>db_actions := filter P (db_actions s)\<rparr>)"
  by (auto simp: db_ok_def actions_ok_def distinct_map_filter)

lemma clear_actions_ok: "db_ok s \<Longrightarrow> db_ok (fst (clear_actions n s))"
  unfolding clear_actions_def by (rule db_ok.modify_keeps) (rule filter_actions_ok)

lemma delete_action_ok: "db_ok s \<Longrightarrow> db_ok (fst (delete_action n i s))"
  unfolding delete_action_def Let_def
  by (intro db_ok.or_not_found_keeps db_ok.exec_keeps) (auto intro: filter_actions_ok)

lemma set_json_state_ok: "db_ok s \<Longrightarrow> db_ok (fst (set_json_state enc k v s))"
  unfolding set_json_state_def by (rule db_ok.modify_keeps) (auto simp: db_ok_def keyed_ok_def distinct_update)

lemma rename_actions_distinct:
  assumes ok: "actions_ok s"
    and free: "\<And>r. r \<in> set (db_actions s) \<Longrightarrow> \<not> (ar_network_id r = n \<and> ar_action_id r = i) \<Longrightarrow>
      ar_network_id r = n \<Longrightarrow> ar_name r \<noteq> nm"
  shows "distinct (map (\<lambda>r. (ar_network_id r, if ar_network_id r = n \<and> ar_action_id r = i then nm else ar_name r))
    (db_actions s))"
  unfolding distinct_map
proof (intro conjI inj_onI)
  show "distinct (db_actions s)" using ok by (simp add: actions_ok_def distinct_map)
next
  fix x y
  assume xy: "x \<in> set (db_actions s)" "y \<in> set (db_actions s)"
    "(ar_network_id x, if ar_network_id x = n \<and> ar_action_id x = i then nm else ar_name x) =
     (ar_network_id y, if ar_network_id y = n \<and> ar_action_id y = i then nm else ar_name y)"
  have "ar_action_id x = ar_action_id y \<Longrightarrow> x = y"
    and "ar_network_id x = ar_network_id y \<Longrightarrow> ar_name x = ar_name y \<Longrightarrow> x = y"
    using ok xy(1,2) by (auto simp: actions_ok_def distinct_map dest: inj_onD)
  then show "x = y" using xy free [of x] free [of y] by (auto split: if_splits)
qed

lemma update_action_stmt_ok:
  assumes ok: "db_ok s"
  shows "db_ok (fst (update_action_stmt env n i a s))"
proof -
  let ?hit = "\<lambda>r. ar_network_id r = n \<and> ar_action_id r = i"
  let ?g = "\<lambda>r. if ?hit r then r\<lparr>ar_name := ac_name a, ar_config := se_enc_action env a\<rparr> else r"
  have act: "actions_ok (s\<lparr>db_actions := map ?g (db_actions s)\<rparr>)"
    if "\<And>r. r \<in> set (db_actions s) \<Longrightarrow> \<not> ?hit r \<Longrightarrow> ar_network_id r = n \<Longrightarrow> ar_name r \<noteq> ac_name a"
  proof -
    have a: "actions_ok s" using ok by (simp add: db_ok_def)
    have "map (\<lambda>r. (ar_network_id r, ar_name r)) (map ?g (db_actions s)) =
      map (\<lambda>r. (ar_network_id r, if ?hit r then ac_name a else ar_name r)) (db_actions s)"
      by simp
    then have "distinct (map (\<lambda>r. (ar_network_id r, ar_name r)) (map ?g (db_actions s)))"
      by (rule ssubst) (rule rename_actions_distinct [OF a that])
    moreover have "map ar_action_id (map ?g (db_actions s)) = map ar_action_id (db_actions s)" by simp
    moreover have "\<forall>r \<in> set (map ?g (db_actions s)). ar_action_id r \<le> db_actions_seq s"
      using a by (auto simp: actions_ok_def)
    ultimately show ?thesis using a unfolding actions_ok_def by (simp del: map_map)
  qed
  have none: "map ?g (db_actions s) = db_actions s" if "length (filter ?hit (db_actions s)) = 0"
    by (rule map_idI) (use that in \<open>auto simp: filter_empty_conv\<close>)
  show ?thesis
  proof (cases "0 < length (filter ?hit (db_actions s)) \<and>
      (\<exists>r \<in> set (db_actions s). \<not> ?hit r \<and> ar_network_id r = n \<and> ar_name r = ac_name a)")
    case True
    then show ?thesis using ok by (simp add: update_action_stmt_def Let_def)
  next
    case False
    then have "fst (update_action_stmt env n i a s) = s\<lparr>db_actions := map ?g (db_actions s)\<rparr>"
      by (auto simp: update_action_stmt_def Let_def)
    moreover have "actions_ok (s\<lparr>db_actions := map ?g (db_actions s)\<rparr>)"
    proof (cases "length (filter ?hit (db_actions s)) = 0")
      case True
      show ?thesis unfolding none [OF True] using ok by (simp add: db_ok_def)
    qed (rule act, use False in blast)
    ultimately show ?thesis using ok by (simp add: db_ok_def)
  qed
qed

lemma update_action_ok: "db_ok s \<Longrightarrow> db_ok (fst (update_action env n a s))"
  unfolding update_action_def
  by (auto split: option.splits intro!: db_ok.bindS_keeps db_ok.or_not_found_keeps db_ok.exec_keeps update_action_stmt_ok)

section \<open>Runs of the store\<close>

text \<open>Any sequence of calls of the repository, successful or not, interleaved with the passing of time and with changes of which
  statements the engine refuses from then on.\<close>

inductive store_step :: "store_env \<Rightarrow> db \<Rightarrow> db \<Rightarrow> bool" for env where
  tick: "store_step env s (s\<lparr>db_clock := now\<rparr>)"
| refuse: "store_step env s (s\<lparr>db_faults := faults\<rparr>)"
| read: "store_step env s (s\<lparr>db_queries := n\<rparr>)"
| set_last: "store_step env s (fst (set_last_processed_block n b s))"
| emergency: "store_step env s (fst (save_emergency_state n b note s))"
| flush: "store_step env s (fst (store_flush s))"
| add_mons: "store_step env s (fst (add_monitors env n ms s))"
| clear_mons: "store_step env s (fst (clear_monitors n s))"
| delete_mon: "store_step env s (fst (delete_monitor env n i s))"
| update_mon: "store_step env s (fst (update_monitor env n i m s))"
| update_status: "store_step env s (fst (update_monitor_status env n i st s))"
| new_abi: "store_step env s (fst (create_abi name abi s))"
| drop_abi: "store_step env s (fst (delete_abi name s))"
| new_action: "store_step env s (fst (create_action env n a s))"
| clear_acts: "store_step env s (fst (clear_actions n s))"
| update_act: "store_step env s (fst (update_action env n a s))"
| delete_act: "store_step env s (fst (delete_action n j s))"
| enqueue: "store_step env s (fst (enqueue_outbox_batch env items s))"
| dequeue: "store_step env s (fst (delete_outbox_items_batch ids s))"
| retry: "store_step env s (fst (increment_outbox_retries j s))"
| put_state: "store_step env s (fst (set_json_state enc k (v :: json) s))"

lemma fold_insert_frame:
  "\<exists>f q. fold (insert_or_ignore env) xs s = s\<lparr>db_outbox := f, db_outbox_seq := q\<rparr>"
proof (induction xs arbitrary: s)
  case (Cons x xs)
  have "insert_or_ignore env x s =
    s\<lparr>db_outbox := db_outbox (insert_or_ignore env x s), db_outbox_seq := db_outbox_seq (insert_or_ignore env x s)\<rparr>"
    by (auto simp: insert_or_ignore_def Let_def split: prod.splits)
  then obtain f q where "insert_or_ignore env x s = s\<lparr>db_outbox := f, db_outbox_seq := q\<rparr>" by blast
  then show ?case using Cons.IH [of "insert_or_ignore env x s"] by auto
next
  case Nil
  then show ?case by (intro exI [of _ "db_outbox s"] exI [of _ "db_outbox_seq s"]) simp
qed

lemma same_tables_ok: "same_tables s t \<Longrightarrow> db_ok t = db_ok s"
  by (metis db_ok.counter_blind same_tables_def)

lemma enqueue_db_ok:
  assumes ok: "db_ok s"
  shows "db_ok (fst (enqueue_outbox_batch env items s))"
proof (cases "enqueue_outbox_batch env items s")
  case (Pair t r)
  show ?thesis
  proof (cases r)
    case (Inl e)
    then show ?thesis using ok Pair enqueue_error by (fastforce simp: same_tables_ok)
  next
    case (Inr u)
    then obtain n where t: "t = (fold (insert_or_ignore env) (map (serialize_item env) items) s)\<lparr>db_queries := n\<rparr>"
      using Pair enqueue_effect [of env items s t] by auto
    obtain f q where fr: "fold (insert_or_ignore env) (map (serialize_item env) items) s
        = s\<lparr>db_outbox := f, db_outbox_seq := q\<rparr>"
      using fold_insert_frame by blast
    have "outbox_ok (fold (insert_or_ignore env) (map (serialize_item env) items) s)"
      using ok by (simp add: db_ok_def fold_insert_ok)
    then have "outbox_ok (s\<lparr>db_outbox := f, db_outbox_seq := q\<rparr>)" by (simp only: fr)
    then have "db_ok (s\<lparr>db_outbox := f, db_outbox_seq := q\<rparr>)" using ok by (simp add: db_ok_def)
    then show ?thesis using Pair by (simp add: t fr db_ok.counter_blind)
  qed
qed

lemma delete_outbox_db_ok:
  assumes ok: "db_ok s"
  shows "db_ok (fst (delete_outbox_items_batch ids s))"
proof (cases "delete_outbox_items_batch ids s")
  case (Pair t r)
  show ?thesis
  proof (cases r)
    case (Inl e)
    then show ?thesis using ok Pair delete_error by (fastforce simp: same_tables_ok)
  next
    case (Inr u)
    then obtain n where t: "t = s\<lparr>db_outbox := filter (\<lambda>r. ob_id r \<notin> set ids) (db_outbox s), db_queries := n\<rparr>"
      using Pair delete_effect [of ids s t] by auto
    have "db_ok (s\<lparr>db_outbox := filter (\<lambda>r. ob_id r \<notin> set ids) (db_outbox s)\<rparr>)"
      using ok outbox_ok_filter [of s] by (simp add: db_ok_def)
    then show ?thesis using Pair by (simp add: t db_ok.counter_blind)
  qed
qed

lemma increment_db_ok: "db_ok s \<Longrightarrow> db_ok (fst (increment_outbox_retries i s))"
  unfolding increment_outbox_retries_def
  by (rule db_ok.modify_keeps)
     (auto simp: db_ok_def outbox_ok_def comp_def if_distrib cong: if_cong)

lemma store_step_ok: "store_step env s t \<Longrightarrow> db_ok s \<Longrightarrow> db_ok t"
proof (induction rule: store_step.induct)
  case (tick s now)
  then show ?case by (simp add: db_ok_def)
next
  case (refuse s faults)
  then show ?case by (simp add: db_ok_defs)
qed (simp_all add: db_ok.counter_blind set_last_processed_block_ok save_emergency_state_ok flush_ok add_monitors_ok
    clear_monitors_ok delete_monitor_ok update_monitor_ok update_monitor_status_ok create_abi_ok delete_abi_ok
    create_action_ok clear_actions_ok update_action_ok delete_action_ok enqueue_db_ok delete_outbox_db_ok
    increment_db_ok set_json_state_ok)

lemma empty_db_ok: "db_ok empty_db"
  by (simp add: empty_db_def db_ok_defs)

section \<open>What the repository promises\<close>

text \<open>C26. Whatever sequence of repository calls is made on a consistent database, such as a fresh one, whichever statements the engine
  refuses on the way and whenever that changes, the tables stay consistent: row ids are unique and none is above the counter of its table,
  monitor and action names are unique per network, every ABI a monitor names exists, the outbox is sorted by id
  with unique idempotency keys, and stored block numbers fit \<open>i64\<close>.\<close>

theorem store_invariant:
  assumes "(store_step env)\<^sup>*\<^sup>* s0 s" "db_ok s0"
  shows "db_ok s"
  using assms by (induction rule: rtranclp_induct) (auto intro: store_step_ok)

text \<open>Enqueueing a batch appends to the outbox, in order and with zero retries, exactly those payloads whose
  idempotency key is neither in the outbox nor earlier in the batch; everything already queued is
  untouched, and each stored payload decodes to the one that was enqueued.\<close>

lemma enqueue_appends_fresh:
  assumes "outbox_ok s" "codec_ok (se_codec env)"
    and ser: "\<forall>(a, p) \<in> set items. \<forall>m \<in> set (payload_matches p). match_serialisable m"
    and enq: "enqueue_outbox_batch env items s = (t, Inr ())"
  shows "outbox_ok t \<and> (\<exists>new. outbox_abs env t = outbox_abs env s @ new \<and>
    map (\<lambda>e. (oe_action e, oe_payload e, oe_retries e)) new =
    map (\<lambda>(a, p). (a, Some p, 0))
      (fresh_items (\<lambda>(a, p). idempotency_key (se_finish env) p) (oe_key ` set (outbox_abs env s)) items))"
proof
  show "outbox_ok t" using sqlite.enqueue_keeps [OF assms(1)] enq by (metis fst_conv outbox_repo.select_convs(1) sqlite_outbox_def)
next
  let ?f = "fresh_items (\<lambda>(a, p). idempotency_key (se_finish env) p) (oe_key ` set (outbox_abs env s)) items"
  obtain new where new: "outbox_abs env t = outbox_abs env s @ new"
    "map (\<lambda>e. (oe_key e, oe_action e, oe_payload e, oe_retries e)) new =
     map (\<lambda>(a, p). (idempotency_key (se_finish env) p, a, payload_of_json (se_codec env) (payload_to_json (se_codec env) p), 0)) ?f"
    using enqueue_abs [OF enq] by blast
  have "map (\<lambda>e. (oe_action e, oe_payload e, oe_retries e)) new =
    map snd (map (\<lambda>e. (oe_key e, oe_action e, oe_payload e, oe_retries e)) new)"
    by simp
  also have "\<dots> = map (\<lambda>(a, p). (a, payload_of_json (se_codec env) (payload_to_json (se_codec env) p), 0)) ?f"
    unfolding new(2) by (simp add: case_prod_beta')
  also have "\<dots> = map (\<lambda>(a, p). (a, Some p, 0)) ?f"
  proof (rule map_cong [OF refl])
    fix x assume "x \<in> set ?f"
    then have "x \<in> set items" by (rule set_mp [OF fresh_items_subset])
    then have "\<forall>m \<in> set (payload_matches (snd x)). match_serialisable m" using ser by fastforce
    then have "payload_of_json (se_codec env) (payload_to_json (se_codec env) (snd x)) = Some (snd x)"
      using payload_roundtrip [OF assms(2)] by blast
    then show "(\<lambda>(a, p). (a, payload_of_json (se_codec env) (payload_to_json (se_codec env) p), 0)) x =
      (\<lambda>(a, p). (a, Some p, 0)) x" by (simp add: case_prod_beta')
  qed
  finally show "\<exists>new. outbox_abs env t = outbox_abs env s @ new \<and>
      map (\<lambda>e. (oe_action e, oe_payload e, oe_retries e)) new = map (\<lambda>(a, p). (a, Some p, 0)) ?f"
    using new(1) by blast
qed

text \<open>C15. Enqueueing is idempotent: on a store that refuses no statement, a batch of any length is accepted
  (no chunk binds more variables than SQLite allows), and enqueueing afterwards a batch whose keys
  all occurred in the first, in any order, leaves the outbox as it is.\<close>

theorem enqueue_idempotent:
  assumes "faultless s"
    "(\<lambda>x. idempotency_key (se_finish env) (snd x)) ` set again \<subseteq> (\<lambda>x. idempotency_key (se_finish env) (snd x)) ` set items"
  shows "\<exists>t u. enqueue_outbox_batch env items s = (t, Inr ()) \<and> enqueue_outbox_batch env again t = (u, Inr ()) \<and>
    outbox_abs env u = outbox_abs env t"
proof -
  obtain t where t: "enqueue_outbox_batch env items s = (t, Inr ())" "faultless t"
    using enqueue_live [OF assms(1)] by blast
  obtain u where u: "enqueue_outbox_batch env again t = (u, Inr ())"
    using enqueue_live [OF t(2)] by blast
  have "outbox_abs env u = outbox_abs env t"
    by (rule sqlite.enqueue_again [of env items s t again u])
       (use t u assms(2) in \<open>simp_all add: sqlite_outbox_def comp_def\<close>)
  then show ?thesis using t u by blast
qed

text \<open>The last processed block: a number up to \<open>i64::MAX\<close> is stored and read back unchanged, without
  touching the entry of any other network; a larger one is rejected as invalid input before any
  statement runs.\<close>

lemma last_processed_block_roundtrip:
  assumes "faultless s"
  shows "if uint b \<le> i64_max
    then \<exists>t. set_last_processed_block n b s = (t, Inr ()) \<and> snd (get_last_processed_block n t) = Inr (Some b) \<and>
           (\<forall>m. m \<noteq> n \<longrightarrow> snd (get_last_processed_block m t) = snd (get_last_processed_block m s))
    else \<exists>e. set_last_processed_block n b s = (s, Inl (InvalidInput e))"
proof (cases "uint b \<le> i64_max")
  case True
  let ?t = "s\<lparr>db_processed := AList.update n (uint b) (db_processed s), db_queries := Suc (db_queries s)\<rparr>"
  have set: "set_last_processed_block n b s = (?t, Inr ())"
    using True assms unfolding set_last_processed_block_def
    by (auto simp: modify_Inr faultless_def not_less)
  have get: "snd (get_last_processed_block m u) = (case map_of (db_processed u) m of
      None \<Rightarrow> Inr None
    | Some k \<Rightarrow> if 0 \<le> k then Inr (Some (word_of_int k))
                else Inl (OperationFailed ''out of range integral type conversion attempted''))"
    if "faultless u" for m u
    using that by (auto simp: get_last_processed_block_def select_def exec_def bindS_def Let_def faultless_def
        split: option.splits)
  have "faultless ?t" using assms by (simp add: faultless_def)
  then have "snd (get_last_processed_block n ?t) = Inr (Some b)"
    and "m \<noteq> n \<Longrightarrow> snd (get_last_processed_block m ?t) = snd (get_last_processed_block m s)" for m
    by (simp_all add: get assms)
  then show ?thesis using True set by auto
next
  case False
  then show ?thesis by (simp add: set_last_processed_block_def)
qed

definition config_of_row :: "monitor_row \<Rightarrow> monitor_config option" where
  "config_of_row r = okR (monitor_config_of_row r)"

lemma stmt_insert_monitor: "stmt (insert_monitor env m)"
  by (rule stmtI) (auto simp: insert_monitor_def Let_def split: if_splits option.splits)

lemma foldS_insert_monitors:
  "foldS (\<lambda>m. exec (insert_monitor env m)) ms s = (t, Inr ()) \<Longrightarrow>
     \<exists>new. db_monitors t = db_monitors s @ new \<and> map config_of_row new = map Some ms"
proof (induction ms arbitrary: s)
  case (Cons m ms)
  then obtain u where u: "exec (insert_monitor env m) s = (u, Inr ())"
    "foldS (\<lambda>m. exec (insert_monitor env m)) ms u = (t, Inr ())"
    by (auto split: prod.splits sum.splits)
  then obtain r where "db_monitors u = db_monitors s @ [r]" "config_of_row r = Some m"
    unfolding exec_Inr [OF stmt_insert_monitor]
    by (auto simp: insert_monitor_def Let_def config_of_row_def monitor_config_of_row_def row_actions_def
        split: if_splits)
  moreover obtain new where "db_monitors t = db_monitors u @ new" "map config_of_row new = map Some ms"
    using Cons.IH [OF u(2)] by blast
  ultimately show ?case by (intro exI [of _ "r # new"]) simp
qed simp

text \<open>C29. Adding monitors is all or nothing: on success every configuration of the batch has become one new
  row, in order, with a fresh id; on any error, be it a foreign network, a duplicate name, a missing
  ABI or a refused statement, no table has changed.\<close>

theorem add_monitors_atomic:
  "case add_monitors env n ms s of
     (t, Inr _) \<Rightarrow> (\<exists>new. db_monitors t = db_monitors s @ new \<and> map config_of_row new = map Some ms) \<and>
                  (\<forall>m \<in> set ms. mc_network m = n)
   | (t, Inl e) \<Rightarrow> same_tables s t"
proof -
  consider t where "add_monitors env n ms s = (t, Inr ())" | t e where "add_monitors env n ms s = (t, Inl e)"
    by (metis old.sum.exhaust old.unit.exhaust surj_pair)
  then show ?thesis
  proof cases
    case (1 t)
    then have none: "find (\<lambda>m. mc_network m \<noteq> n) ms = None"
      by (auto simp: add_monitors_def split: option.splits)
    then obtain u where "foldS (\<lambda>m. exec (insert_monitor env m)) ms (s\<lparr>db_queries := Suc (db_queries s)\<rparr>) = (u, Inr ())"
      "t = u\<lparr>db_queries := Suc (db_queries u)\<rparr>"
      using 1 by (auto simp: add_monitors_def transaction_Inr)
    then show ?thesis using 1 none foldS_insert_monitors by (fastforce simp: find_None_iff)
  next
    case (2 t e)
    then show ?thesis by (auto simp: add_monitors_def split: option.splits dest: transaction_Inl)
  qed
qed
lemma map_of_filter_key: "map_of (filter (\<lambda>(n, _). n \<noteq> a) m) = (map_of m)(a := None)"
  by (induction m) auto

text \<open>Deleting an ABI keeps referential integrity: it succeeds only when the ABI existed and no monitor
  names it, and then removes that ABI and no other; while a monitor names it the answer is
  \<open>AbiInUse\<close> with the names of exactly those monitors, and nothing changes.\<close>

lemma delete_abi_guarded:
  assumes "db_ok s" "faultless s"
  shows "let users = map mr_name (filter (\<lambda>r. mr_abi_name r = Some a) (db_monitors s))
    in case delete_abi a s of
         (t, Inr _) \<Rightarrow> users = [] \<and> map_of (db_abis s) a \<noteq> None \<and> map_of (db_abis t) = (map_of (db_abis s))(a := None) \<and> db_ok t
       | (t, Inl e) \<Rightarrow> same_tables s t \<and> e = (if users \<noteq> [] then AbiInUse users else NotFound) \<and>
                       (users = [] \<longrightarrow> map_of (db_abis s) a = None)"
proof -
  let ?users = "map mr_name (filter (\<lambda>r. mr_abi_name r = Some a) (db_monitors s))"
  let ?s = "s\<lparr>db_queries := Suc (db_queries s)\<rparr>"
  have sel: "select (\<lambda>s. map mr_name (filter (\<lambda>r. mr_abi_name r = Some a) (db_monitors s))) s = (?s, Inr ?users)"
    using assms(2) by (auto simp: select_Inr faultless_def)
  show ?thesis
  proof (cases "?users = []")
    case False
    then have "delete_abi a s = (?s, Inl (AbiInUse ?users))"
      using sel by (simp add: delete_abi_def bindS_def)
    then show ?thesis using False by (simp add: Let_def)
  next
    case True
    let ?abis = "filter (\<lambda>(n, _). n \<noteq> a) (db_abis s)"
    let ?t = "s\<lparr>db_abis := ?abis, db_queries := Suc (Suc (db_queries s))\<rparr>"
    have free: "\<not> (\<exists>r \<in> set (db_monitors s). mr_abi_name r = Some a)" using True by (auto simp: filter_empty_conv)
    have stmt: "delete_abi_stmt a ?s = (?s\<lparr>db_abis := ?abis\<rparr>, Inr (length (filter (\<lambda>(n, _). n = a) (db_abis s))))"
      using free by (simp add: delete_abi_stmt_def)
    have exec: "exec (delete_abi_stmt a) ?s = (?t, Inr (length (filter (\<lambda>(n, _). n = a) (db_abis s))))"
      using assms(2) stmt by (auto simp: exec_def Let_def faultless_def delete_abi_stmt_def free)
    have "delete_abi a s = (?t, if filter (\<lambda>(n, _). n = a) (db_abis s) = [] then Inl NotFound else Inr ())"
      using sel True exec by (simp add: delete_abi_def bindS_def or_not_found_def)
    moreover have "filter (\<lambda>(n, _). n = a) (db_abis s) = [] \<longleftrightarrow> map_of (db_abis s) a = None"
      by (force simp: filter_empty_conv map_of_eq_None_iff)
    moreover have "?abis = db_abis s" if "map_of (db_abis s) a = None"
      using that by (intro filter_True) (force simp: map_of_eq_None_iff)
    moreover have "map_of ?abis = (map_of (db_abis s))(a := None)"
      by (rule map_of_filter_key)
    moreover have "db_ok (fst (delete_abi a s))" using assms(1) by (rule delete_abi_ok)
    ultimately show ?thesis using True by (auto simp: Let_def same_tables_def split: if_splits)
  qed
qed
subsection \<open>Monitors that use an action\<close>

definition plain_name :: "string \<Rightarrow> bool" where
  "plain_name x \<longleftrightarrow> CHR 0x5C \<notin> set x \<and> CHR 0x22 \<notin> set x \<and> (\<forall>c \<in> set x. 32 \<le> (of_char c :: nat))"

text \<open>JSON writes a string without quotes, backslashes and control characters verbatim between quotes.\<close>

definition json_text_quotes :: "(json \<Rightarrow> string) \<Rightarrow> bool" where
  "json_text_quotes txt \<longleftrightarrow>
     (\<forall>xs x. x \<in> set xs \<longrightarrow> plain_name x \<longrightarrow>
        (\<exists>u v. txt (actions_to_json xs) = u @ CHR 0x22 # x @ CHR 0x22 # v))"

lemma sql_like_percent: "sql_like esc ps t \<Longrightarrow> esc \<noteq> Some (CHR ''%'') \<Longrightarrow> sql_like esc (CHR ''%'' # ps) (u @ t)"
  by (induction u) (cases t; simp)+

lemma sql_like_escaped:
  assumes "sql_like (Some (CHR 0x5C)) ps t" "CHR 0x5C \<notin> set x"
  shows "sql_like (Some (CHR 0x5C)) (escape_like x @ ps) (x @ t)"
  using assms(2) by (induction x) (auto simp: escape_like_def assms(1))

lemma action_like_clause_matches:
  assumes "CHR 0x5C \<notin> set x"
  shows "sql_like (Some (CHR 0x5C)) (action_like_clause x) (u @ CHR 0x22 # x @ CHR 0x22 # v)"
proof -
  have "sql_like (Some (CHR 0x5C)) ''%'' v" using sql_like_percent [of _ "[]" "[]" v] by simp
  then have "sql_like (Some (CHR 0x5C)) (CHR 0x22 # ''%'') (CHR 0x22 # v)" by simp
  then have "sql_like (Some (CHR 0x5C)) (escape_like x @ CHR 0x22 # ''%'') (x @ CHR 0x22 # v)"
    using assms by (rule sql_like_escaped)
  then have "sql_like (Some (CHR 0x5C)) (CHR 0x22 # escape_like x @ CHR 0x22 # ''%'') (CHR 0x22 # x @ CHR 0x22 # v)"
    by simp
  then show ?thesis unfolding action_like_clause_def by (intro sql_like_percent) simp_all
qed

text \<open>The query behind the guard on deleting an action misses no user: when it succeeds it returns
  every monitor of the network whose action list names the action, provided the name is free of
  quotes, backslashes and control characters, wildcard characters included.\<close>

lemma monitors_by_action_complete:
  assumes quoted: "json_text_quotes (se_json_text env)"
    and act: "find (\<lambda>r. ar_network_id r = n \<and> ar_action_id r = i) (db_actions s) = Some a" and plain: "plain_name (ar_name a)"
    and query: "get_monitors_by_action_id env n i s = (t, Inr ms)"
    and row: "r \<in> set (db_monitors s)" "mr_network r = n" "mr_actions r = actions_to_json acts" "ar_name a \<in> set acts"
  shows "\<exists>m \<in> set ms. mc_name m = mr_name r \<and> mc_actions m = acts"
proof -
  obtain u c where u: "get_action_by_id env n i s = (u, Inr (Some c))"
    and rows: "traverse monitor_config_of_row (filter (\<lambda>r. mr_network r = n \<and>
        sql_like (Some (CHR 0x5C)) (action_like_clause (ac_name c)) (se_json_text env (mr_actions r))) (db_monitors u)) = Inr ms"
    using query by (auto simp: get_monitors_by_action_id_def bindS_Inr_iff select_Inr split: option.splits)
  have c: "ac_name c = ar_name a" "db_monitors u = db_monitors s"
    using u act by (auto simp: get_action_by_id_def bindS_Inr_iff select_Inr optional_action_def mapR_eq_Inr_iff
        action_of_row_def split: option.splits)
  obtain v w where "se_json_text env (mr_actions r) = v @ CHR 0x22 # ar_name a @ CHR 0x22 # w"
    using quoted row plain unfolding json_text_quotes_def by metis
  then have "sql_like (Some (CHR 0x5C)) (action_like_clause (ac_name c)) (se_json_text env (mr_actions r))"
    using plain by (simp add: c action_like_clause_matches plain_name_def)
  then have "\<exists>m \<in> set ms. monitor_config_of_row r = Inr m"
    using traverse_Inr_imp [OF rows, of r] row by (simp add: c)
  then show ?thesis using row by (force simp: monitor_config_of_row_def row_actions_def)
qed
section \<open>Witnesses\<close>

definition sample_retry :: http_retry_config where
  "sample_retry = \<lparr>hr_max_retry = 3, hr_base_for_backoff = 2, hr_initial_backoff_ms = 250000000,
     hr_max_backoff_secs = 10000000000, hr_jitter = JitterFull\<rparr>"

definition sample_action :: action_config where
  "sample_action = \<lparr>ac_id = None, ac_name = ''slack_1'', ac_config = Stdout \<lparr>so_message = None\<rparr>, ac_policy = None\<rparr>"

fun quoted_list :: "string list \<Rightarrow> string" where
  "quoted_list [] = []"
| "quoted_list (x # xs) = CHR 0x22 # x @ CHR 0x22 # CHR '','' # quoted_list xs"

definition sample_json_text :: "json \<Rightarrow> string" where
  "sample_json_text v = CHR ''['' # quoted_list (the (actions_of_json v)) @ '']''"

definition sample_env :: store_env where
  "sample_env = \<lparr>se_codec = hex_codec, se_finish = (\<lambda>s. word_of_nat (length s)), se_json_text = sample_json_text,
     se_enc_action = (\<lambda>a. JString (ac_name a)), se_dec_action = (\<lambda>_. Some sample_action),
     se_int_affinity = (\<lambda>s. okR (parse_i64 s)), se_rowid_gap = (\<lambda>_. 0)\<rparr>"

lemma sample_json_text_quotes: "json_text_quotes sample_json_text"
proof -
  have "\<exists>u v. quoted_list xs = u @ CHR 0x22 # x @ CHR 0x22 # v" if "x \<in> set xs" for x xs
    using that
  proof (induction xs)
    case (Cons y ys)
    show ?case
    proof (cases "x = y")
      case True
      then show ?thesis by (intro exI [of _ "[]"] exI [of _ "CHR '','' # quoted_list ys"]) simp
    next
      case False
      then obtain u v where "quoted_list ys = u @ CHR 0x22 # x @ CHR 0x22 # v" using Cons by auto
      then show ?thesis by (intro exI [of _ "CHR 0x22 # y @ CHR 0x22 # CHR '','' # u"] exI [of _ v]) simp
    qed
  qed simp
  then show ?thesis
    unfolding json_text_quotes_def sample_json_text_def
    by (metis actions_roundtrip append_Cons append_assoc option.sel)
qed

text \<open>An ABI is refused, then the engine recovers and takes a batch.\<close>

definition disk_full :: "nat \<Rightarrow> string option" where
  "disk_full = (\<lambda>_. Some ''disk full'')"

theorem store_invariant_witness:
  "snd (create_abi ''erc20'' ''[]'' (empty_db\<lparr>db_faults := disk_full\<rparr>)) = Inl (OperationFailed ''disk full'') \<and>
   db_ok (fst (enqueue_outbox_batch sample_env [(''a'', Single (sample_match 1)), (''a'', Single (sample_match 1))]
     ((fst (create_abi ''erc20'' ''[]'' (empty_db\<lparr>db_faults := disk_full\<rparr>)))\<lparr>db_faults := \<lambda>_. None\<rparr>)))"
proof
  show "snd (create_abi ''erc20'' ''[]'' (empty_db\<lparr>db_faults := disk_full\<rparr>)) = Inl (OperationFailed ''disk full'')"
    by (simp add: create_abi_def disk_full_def exec_def empty_db_def Let_def)
  have run: "(store_step env)\<^sup>*\<^sup>* s u" if "(store_step env)\<^sup>*\<^sup>* s t" "store_step env t u" for env s t u
    using that by (rule rtranclp.rtrancl_into_rtrancl)
  have "(store_step sample_env)\<^sup>*\<^sup>* empty_db (fst (enqueue_outbox_batch sample_env [(''a'', Single (sample_match 1)), (''a'', Single (sample_match 1))]
     ((fst (create_abi ''erc20'' ''[]'' (empty_db\<lparr>db_faults := disk_full\<rparr>)))\<lparr>db_faults := \<lambda>_. None\<rparr>)))"
    by (intro run [OF _ store_step.enqueue] run [OF _ store_step.refuse] run [OF _ store_step.new_abi] rtranclp.rtrancl_refl)
  then show "db_ok (fst (enqueue_outbox_batch sample_env [(''a'', Single (sample_match 1)), (''a'', Single (sample_match 1))]
     ((fst (create_abi ''erc20'' ''[]'' (empty_db\<lparr>db_faults := disk_full\<rparr>)))\<lparr>db_faults := \<lambda>_. None\<rparr>)))"
    by (rule store_invariant [OF _ empty_db_ok])
qed

lemma empty_db_faultless: "faultless empty_db"
  by (simp add: faultless_def empty_db_def)

lemma enqueue_appends_fresh_example:
  "\<exists>t. enqueue_outbox_batch sample_env [(''a'', Single (sample_match 1))] empty_db = (t, Inr ()) \<and> outbox_ok t \<and>
     map (\<lambda>e. (oe_action e, oe_payload e, oe_retries e)) (outbox_abs sample_env t) = [(''a'', Some (Single (sample_match 1)), 0)]"
proof -
  obtain t where t: "enqueue_outbox_batch sample_env [(''a'', Single (sample_match 1))] empty_db = (t, Inr ())"
    using enqueue_live [OF empty_db_faultless] by blast
  have "outbox_ok empty_db" using empty_db_ok by (simp add: db_ok_def)
  then have "outbox_ok t \<and> (\<exists>new. outbox_abs sample_env t = outbox_abs sample_env empty_db @ new \<and>
    map (\<lambda>e. (oe_action e, oe_payload e, oe_retries e)) new = map (\<lambda>(a, p). (a, Some p, 0))
      (fresh_items (\<lambda>(a, p). idempotency_key (se_finish sample_env) p) (oe_key ` set (outbox_abs sample_env empty_db))
        [(''a'', Single (sample_match 1))]))"
    by (rule enqueue_appends_fresh [OF _ _ _ t])
       (simp_all add: sample_env_def hex_codec_ok sample_match_serialisable)
  then show ?thesis using t by (auto simp: outbox_abs_def empty_db_def)
qed

theorem enqueue_idempotent_witness:
  "\<exists>t u. enqueue_outbox_batch sample_env [(''a'', Single (sample_match 1)), (''a'', Single (sample_match 2))] empty_db = (t, Inr ()) \<and>
     enqueue_outbox_batch sample_env [(''a'', Single (sample_match 2))] t = (u, Inr ()) \<and>
     outbox_abs sample_env u = outbox_abs sample_env t"
  by (rule enqueue_idempotent [OF empty_db_faultless]) simp

lemma last_processed_block_roundtrip_example:
  "(\<exists>t. set_last_processed_block ''mainnet'' 17 empty_db = (t, Inr ()) \<and>
     snd (get_last_processed_block ''mainnet'' t) = Inr (Some 17)) \<and>
   (\<exists>e. set_last_processed_block ''mainnet'' 0xFFFFFFFFFFFFFFFF empty_db = (empty_db, Inl (InvalidInput e)))"
  using last_processed_block_roundtrip [OF empty_db_faultless, of 17 "''mainnet''"]
    last_processed_block_roundtrip [OF empty_db_faultless, of "0xFFFFFFFFFFFFFFFF" "''mainnet''"]
  by (auto simp: i64_max_def)

definition sample_monitor :: monitor_config where
  "sample_monitor = monitor_from_config ''m'' ''mainnet'' None (Some ''erc20'') ''true'' [''slack_1'']"

definition sample_db :: db where
  "sample_db = fst (add_monitors sample_env ''mainnet'' [sample_monitor]
     (fst (create_action sample_env ''mainnet'' sample_action (fst (create_abi ''erc20'' ''[]'' empty_db)))))"

lemma sample_db_value:
  "sample_db = empty_db\<lparr>db_abis := [(''erc20'', ''[]'')],
     db_actions := [\<lparr>ar_action_id = 1, ar_name = ''slack_1'', ar_network_id = ''mainnet'', ar_config = JString ''slack_1''\<rparr>],
     db_actions_seq := 1, db_monitors := [\<lparr>mr_monitor_id = 1, mr_name = ''m'', mr_network = ''mainnet'', mr_address = None,
       mr_abi_name = Some ''erc20'', mr_filter_script = ''true'', mr_actions = actions_to_json [''slack_1''],
       mr_created_at = 0, mr_updated_at = 0, mr_status = Active\<rparr>], db_monitors_seq := 1, db_queries := 5\<rparr>"
  by (simp add: sample_db_def add_monitors_def create_action_def create_abi_def exec_def empty_db_def Let_def sample_env_def
      sample_action_def sample_monitor_def monitor_from_config_def next_rowid_def transaction_def modify_def bindS_def
      insert_monitor_def)

theorem add_monitors_atomic_witness:
  "\<exists>t e. add_monitors sample_env ''mainnet'' [sample_monitor, sample_monitor] sample_db = (t, Inl e) \<and> same_tables sample_db t"
proof -
  obtain t e where a: "add_monitors sample_env ''mainnet'' [sample_monitor, sample_monitor] sample_db = (t, Inl e)"
    by (simp add: sample_db_value add_monitors_def sample_monitor_def monitor_from_config_def transaction_def modify_def exec_def
        bindS_def insert_monitor_def empty_db_def)
  then show ?thesis
    using add_monitors_atomic [where env = sample_env and n = "''mainnet''" and ms = "[sample_monitor, sample_monitor]"
        and s = sample_db] by simp
qed

lemma sample_db_ok: "db_ok sample_db" "faultless sample_db"
  by (simp_all add: sample_db_value db_ok_defs faultless_def empty_db_def)

lemma delete_abi_guarded_example:
  "snd (delete_abi ''erc20'' sample_db) = Inl (AbiInUse [''m''])"
  using delete_abi_guarded [OF sample_db_ok, of "''erc20''"]
  by (auto simp: sample_db_value Let_def split: prod.splits sum.splits)

lemma monitors_by_action_complete_example:
  "\<exists>m \<in> set (projr (snd (get_monitors_by_action_id sample_env ''mainnet'' 1 sample_db))). mc_name m = ''m'' \<and> mc_actions m = [''slack_1'']"
proof -
  let ?r = "hd (db_monitors sample_db)"
  have "\<exists>t ms. get_monitors_by_action_id sample_env ''mainnet'' 1 sample_db = (t, Inr ms)"
    by (cases "sql_like (Some (CHR 0x5C)) (action_like_clause ''slack_1'') (sample_json_text (actions_to_json [''slack_1'']))")
       (simp_all add: get_monitors_by_action_id_def get_action_by_id_def bindS_def select_def exec_def sample_db_value
        empty_db_def optional_action_def action_of_row_def sample_env_def sample_action_def monitor_config_of_row_def
        row_actions_def)
  then obtain t ms where q: "get_monitors_by_action_id sample_env ''mainnet'' 1 sample_db = (t, Inr ms)" by blast
  have "\<exists>m \<in> set ms. mc_name m = mr_name ?r \<and> mc_actions m = [''slack_1'']"
    by (rule monitors_by_action_complete [OF _ _ _ q, of "hd (db_actions sample_db)"])
       (simp_all add: sample_db_value sample_env_def sample_json_text_quotes plain_name_def)
  then have "\<exists>m \<in> set ms. mc_name m = ''m'' \<and> mc_actions m = [''slack_1'']" by (simp add: sample_db_value)
  then show ?thesis by (simp add: q)
qed

end
