(* ===== verification/Argus_Dispatch.thy ===== *)
theory Argus_Dispatch
  imports Argus_Models
begin

text \<open>
  The action dispatcher, \<open>crates/argus-dispatch/src\<close>: how configurations become executable
  actions, how a payload is routed to the action it names, and what each kind of action does with
  single and aggregated payloads.

  The outside world is a type \<open>'w\<close> that the services act on: the template engine, the webhook
  client with its HTTP client pool, the brokers and standard output are fields of
  \<open>services\<close>. The URL of a Telegram action is built from its token and parsed with \<open>unwrap\<close>; a token for which
  that panics is not an outcome of \<open>build_action\<close>.
\<close>

section \<open>Services\<close>

datatype payload_builder =
    SlackBuilder
  | DiscordBuilder
  | TelegramBuilder string bool
  | GenericBuilder

record webhook_components =
  wc_url :: url
  wc_method :: "string option"
  wc_secret :: "string option"
  wc_headers :: "(string \<times> string) list"
  wc_title :: string
  wc_body_template :: string
  wc_retry_policy :: http_retry_config
  wc_builder :: payload_builder

datatype dispatch_error =
    ConfigError string
  | HttpClientError string
  | TemplateError string
  | PublisherError string
  | WebhookError string

datatype broker_message =
    KafkaMessage string string json
  | RabbitMqMessage string string string json
  | NatsMessage string "string option" json

record 'w services =
  sv_render :: "string \<Rightarrow> json \<Rightarrow> string + string"
  sv_parse_method :: "string \<Rightarrow> string option"
  sv_http_client :: "http_retry_config \<Rightarrow> string + unit"
  sv_webhook_client :: "webhook_components \<Rightarrow> string + unit"
  sv_notify :: "webhook_components \<Rightarrow> string \<Rightarrow> string \<Rightarrow> string \<Rightarrow> 'w \<Rightarrow> 'w \<times> (string + unit)"
  sv_connect :: "action_type_config \<Rightarrow> string + unit"
  sv_publish :: "broker_message \<Rightarrow> 'w \<Rightarrow> 'w \<times> (string + unit)"
  sv_print :: "string \<Rightarrow> string option \<Rightarrow> string option \<Rightarrow> json \<Rightarrow> 'w \<Rightarrow> 'w"
  sv_codec :: json_codec
  sv_finish :: "string \<Rightarrow> u64"

section \<open>Webhook components\<close>

fun as_webhook_components :: "'w services \<Rightarrow> action_type_config \<Rightarrow> dispatch_error + webhook_components" where
  "as_webhook_components sv (Webhook c) = Inr
     \<lparr>wc_url = gw_url c, wc_method = Option.bind (gw_method c) (sv_parse_method sv), wc_secret = gw_secret c,
      wc_headers = (case gw_headers c of None \<Rightarrow> [] | Some hs \<Rightarrow> hs), wc_title = nm_title (gw_message c),
      wc_body_template = nm_body (gw_message c), wc_retry_policy = gw_retry_policy c, wc_builder = GenericBuilder\<rparr>"
| "as_webhook_components sv (Discord c) = Inr
     \<lparr>wc_url = di_discord_url c, wc_method = None, wc_secret = None, wc_headers = [],
      wc_title = nm_title (di_message c), wc_body_template = nm_body (di_message c),
      wc_retry_policy = di_retry_policy c, wc_builder = DiscordBuilder\<rparr>"
| "as_webhook_components sv (Telegram c) = Inr
     \<lparr>wc_url = ''https://api.telegram.org/bot'' @ te_token c @ ''/sendMessage'', wc_method = None, wc_secret = None,
      wc_headers = [], wc_title = nm_title (te_message c), wc_body_template = nm_body (te_message c),
      wc_retry_policy = te_retry_policy c,
      wc_builder = TelegramBuilder (te_chat_id c) (te_disable_web_preview c = Some True)\<rparr>"
| "as_webhook_components sv (Slack c) = Inr
     \<lparr>wc_url = sl_slack_url c, wc_method = None, wc_secret = None, wc_headers = [],
      wc_title = nm_title (sl_message c), wc_body_template = nm_body (sl_message c),
      wc_retry_policy = sl_retry_policy c, wc_builder = SlackBuilder\<rparr>"
| "as_webhook_components sv c = Inl (ConfigError ''action does not support webhook components'')"

section \<open>Actions\<close>

datatype action_impl =
    WebhookAction webhook_components
  | StdoutAction stdout_config
  | KafkaAction string
  | RabbitMqAction string "string option"
  | NatsAction string

definition webhook_execute :: "'w services \<Rightarrow> webhook_components \<Rightarrow> action_payload \<Rightarrow> ('w, dispatch_error, unit) op" where
  "webhook_execute sv c p w =
     (let (title, body) = (case p of Aggregated _ _ t \<Rightarrow> (nm_title t, nm_body t) | Single _ \<Rightarrow> (wc_title c, wc_body_template c));
          ctx = payload_context (sv_codec sv) p
      in case sv_render sv title ctx of
           Inl e \<Rightarrow> (w, Inl (TemplateError e))
         | Inr rendered_title \<Rightarrow>
             (case sv_render sv body ctx of
                Inl e \<Rightarrow> (w, Inl (TemplateError e))
              | Inr rendered_body \<Rightarrow>
                  (case sv_notify sv c rendered_title rendered_body (idempotency_key (sv_finish sv) p) w of
                     (v, r) \<Rightarrow> (v, map_err WebhookError r))))"

definition stdout_execute :: "'w services \<Rightarrow> stdout_config \<Rightarrow> action_payload \<Rightarrow> ('w, dispatch_error, unit) op" where
  "stdout_execute sv c p w =
     (let ctx = payload_context (sv_codec sv) p
      in case so_message c of
           None \<Rightarrow> (sv_print sv (payload_action_name p) None None ctx w, Inr ())
         | Some m \<Rightarrow>
             (case sv_render sv (nm_title m) ctx of
                Inl e \<Rightarrow> (w, Inl (TemplateError e))
              | Inr t \<Rightarrow>
                  (case sv_render sv (nm_body m) ctx of
                     Inl e \<Rightarrow> (w, Inl (TemplateError e))
                   | Inr b \<Rightarrow> (sv_print sv (payload_action_name p) (Some t) (Some b) ctx w, Inr ()))))"

text \<open>The three brokers publish single matches and accept aggregated payloads without publishing.\<close>

definition publish_single ::
  "'w services \<Rightarrow> (string \<Rightarrow> json \<Rightarrow> broker_message) \<Rightarrow> action_payload \<Rightarrow> ('w, dispatch_error, unit) op" where
  "publish_single sv message p w =
     (case p of
        Single _ \<Rightarrow>
          (case sv_publish sv (message (idempotency_key (sv_finish sv) p) (payload_context (sv_codec sv) p)) w of
             (v, r) \<Rightarrow> (v, map_err PublisherError r))
      | Aggregated _ _ _ \<Rightarrow> (w, Inr ()))"

definition rabbitmq_message :: "string \<Rightarrow> string option \<Rightarrow> string \<Rightarrow> json \<Rightarrow> broker_message" where
  "rabbitmq_message exchange default_routing_key key ctx =
     RabbitMqMessage exchange (case default_routing_key of Some k \<Rightarrow> k | None \<Rightarrow> exchange) key ctx"

definition nats_message :: "string \<Rightarrow> string \<Rightarrow> json \<Rightarrow> broker_message" where
  "nats_message subject key ctx = NatsMessage subject (if key = [] then None else Some key) ctx"

fun action_execute :: "'w services \<Rightarrow> action_impl \<Rightarrow> action_payload \<Rightarrow> ('w, dispatch_error, unit) op" where
  "action_execute sv (WebhookAction c) p = webhook_execute sv c p"
| "action_execute sv (StdoutAction c) p = stdout_execute sv c p"
| "action_execute sv (KafkaAction topic) p = publish_single sv (KafkaMessage topic) p"
| "action_execute sv (RabbitMqAction exchange rk) p = publish_single sv (rabbitmq_message exchange rk) p"
| "action_execute sv (NatsAction subject) p = publish_single sv (nats_message subject) p"

section \<open>The dispatcher\<close>

text \<open>Building one action: \<open>Inr None\<close> is \<open>continue\<close> after a publisher that failed to start. The
  model is the build with all broker features enabled.\<close>

fun build_action :: "'w services \<Rightarrow> action_type_config \<Rightarrow> dispatch_error + action_impl option" where
  "build_action sv (Kafka c) =
     (case sv_connect sv (Kafka c) of Inl e \<Rightarrow> Inr None | Inr _ \<Rightarrow> Inr (Some (KafkaAction (ka_topic c))))"
| "build_action sv (RabbitMq c) =
     (case sv_connect sv (RabbitMq c) of
        Inl e \<Rightarrow> Inr None | Inr _ \<Rightarrow> Inr (Some (RabbitMqAction (rq_exchange c) (rq_routing_key c))))"
| "build_action sv (Nats c) =
     (case sv_connect sv (Nats c) of Inl e \<Rightarrow> Inr None | Inr _ \<Rightarrow> Inr (Some (NatsAction (na_subject c))))"
| "build_action sv (Stdout c) = Inr (Some (StdoutAction c))"
| "build_action sv cfg =
     bindR (as_webhook_components sv cfg) (\<lambda>components.
     bindR (map_err HttpClientError (sv_http_client sv (wc_retry_policy components))) (\<lambda>_.
     bindR (map_err WebhookError (sv_webhook_client sv components)) (\<lambda>_.
     Inr (Some (WebhookAction components)))))"

type_synonym dispatcher = "(string \<times> action_impl) list"

fun dispatcher_new :: "'w services \<Rightarrow> (string \<times> action_config) list \<Rightarrow> dispatch_error + dispatcher" where
  "dispatcher_new sv [] = Inr []"
| "dispatcher_new sv ((name, cfg) # rest) =
     bindR (build_action sv (ac_config cfg)) (\<lambda>action.
     bindR (dispatcher_new sv rest) (\<lambda>actions.
     Inr (case action of None \<Rightarrow> actions | Some a \<Rightarrow> (name, a) # actions)))"

definition dispatcher_execute :: "'w services \<Rightarrow> dispatcher \<Rightarrow> action_payload \<Rightarrow> ('w, dispatch_error, unit) op" where
  "dispatcher_execute sv d p w =
     (case map_of d (payload_action_name p) of
        None \<Rightarrow> (w, Inl (ConfigError (''Action '' @ payload_action_name p @ '' not found'')))
      | Some a \<Rightarrow> action_execute sv a p w)"

text \<open>\<open>run\<close>: every match from the channel, errors only logged.\<close>

fun dispatcher_run :: "'w services \<Rightarrow> dispatcher \<Rightarrow> monitor_match list \<Rightarrow> 'w \<Rightarrow> 'w" where
  "dispatcher_run sv d [] w = w"
| "dispatcher_run sv d (m # ms) w = dispatcher_run sv d ms (fst (dispatcher_execute sv d (Single m) w))"

section \<open>Facts\<close>

lemma dispatcher_new_keys: "dispatcher_new sv cfgs = Inr d \<Longrightarrow> fst ` set d \<subseteq> fst ` set cfgs"
proof (induction cfgs arbitrary: d)
  case (Cons c cfgs)
  obtain n cf where c: "c = (n, cf)" by (cases c)
  then obtain a d' where "dispatcher_new sv cfgs = Inr d'" "d = (case a of None \<Rightarrow> d' | Some x \<Rightarrow> (n, x) # d')"
    using Cons.prems by (auto simp: bindR_eq_Inr_iff)
  then show ?case using Cons.IH [of d'] c by (auto split: option.splits)
qed simp

lemma dispatcher_new_lookup:
  assumes "dispatcher_new sv cfgs = Inr d" "distinct (map fst cfgs)" "map_of cfgs name = Some cfg"
  shows "build_action sv (ac_config cfg) = Inr (map_of d name)"
  using assms
proof (induction cfgs arbitrary: d)
  case (Cons c cfgs)
  obtain n cf where c: "c = (n, cf)" by (cases c)
  then obtain a d' where d: "build_action sv (ac_config cf) = Inr a" "dispatcher_new sv cfgs = Inr d'"
    "d = (case a of None \<Rightarrow> d' | Some x \<Rightarrow> (n, x) # d')"
    using Cons.prems by (auto simp: bindR_eq_Inr_iff)
  show ?case
  proof (cases "name = n")
    case True
    then have "map_of d' name = None"
      using dispatcher_new_keys [OF d(2)] Cons.prems(2) c by (auto simp: map_of_eq_None_iff)
    then show ?thesis using True Cons.prems(3) c d by (auto split: option.splits)
  next
    case False
    then show ?thesis using Cons c d by (auto split: option.splits)
  qed
qed simp

lemma build_webhook:
  assumes "build_action sv cfg = Inr a" "as_webhook_components sv cfg = Inr wc"
  shows "a = Some (WebhookAction wc)"
  using assms by (cases cfg) (auto simp: result_simps)

definition payload_templates :: "webhook_components \<Rightarrow> action_payload \<Rightarrow> string \<times> string" where
  "payload_templates c p =
     (case p of Single _ \<Rightarrow> (wc_title c, wc_body_template c) | Aggregated _ _ t \<Rightarrow> (nm_title t, nm_body t))"

text \<open>C31. Delivery by webhook (generic, Slack, Discord and Telegram): a dispatcher that was built successfully
  sends a payload exactly once, to the endpoint of the action it names, with the payload's idempotency
  key and with the templates rendered over the payload, the action's own for a single match and the
  aggregation policy's for an aggregated one. Nothing is sent when a template fails to render.\<close>

theorem webhook_delivery:
  assumes new: "dispatcher_new sv cfgs = Inr d" "distinct (map fst cfgs)"
    and cfg: "map_of cfgs (payload_action_name p) = Some cfg" "as_webhook_components sv (ac_config cfg) = Inr wc"
  shows "dispatcher_execute sv d p w =
    (case sv_render sv (fst (payload_templates wc p)) (payload_context (sv_codec sv) p) of
       Inl e \<Rightarrow> (w, Inl (TemplateError e))
     | Inr t \<Rightarrow>
         (case sv_render sv (snd (payload_templates wc p)) (payload_context (sv_codec sv) p) of
            Inl e \<Rightarrow> (w, Inl (TemplateError e))
          | Inr b \<Rightarrow> apsnd (map_err WebhookError) (sv_notify sv wc t b (idempotency_key (sv_finish sv) p) w)))"
proof -
  have "map_of d (payload_action_name p) = Some (WebhookAction wc)"
    using build_webhook [OF dispatcher_new_lookup [OF new cfg(1)] cfg(2)] .
  then show ?thesis
    by (cases p)
       (auto simp: dispatcher_execute_def webhook_execute_def payload_templates_def Let_def apsnd_def
         split: sum.splits prod.splits)
qed

fun broker_message_of :: "action_type_config \<Rightarrow> string \<Rightarrow> json \<Rightarrow> broker_message option" where
  "broker_message_of (Kafka c) key ctx = Some (KafkaMessage (ka_topic c) key ctx)"
| "broker_message_of (RabbitMq c) key ctx =
     Some (RabbitMqMessage (rq_exchange c) (case rq_routing_key c of Some k \<Rightarrow> k | None \<Rightarrow> rq_exchange c) key ctx)"
| "broker_message_of (Nats c) key ctx = Some (NatsMessage (na_subject c) (if key = [] then None else Some key) ctx)"
| "broker_message_of _ key ctx = None"

text \<open>Delivery by message broker (Kafka, RabbitMQ and NATS): once connected, a single match is published as
  one message under its id. An aggregated payload is reported as delivered although nothing is
  published, so the outbox will drop it.\<close>

lemma broker_delivery:
  assumes new: "dispatcher_new sv cfgs = Inr d" "distinct (map fst cfgs)"
    and cfg: "map_of cfgs (payload_action_name p) = Some cfg" "sv_connect sv (ac_config cfg) = Inr ()"
    and msg: "broker_message_of (ac_config cfg) (idempotency_key (sv_finish sv) p) (payload_context (sv_codec sv) p) = Some message"
  shows "dispatcher_execute sv d p w =
    (case p of Single _ \<Rightarrow> apsnd (map_err PublisherError) (sv_publish sv message w)
             | Aggregated _ _ _ \<Rightarrow> (w, Inr ()))"
  using dispatcher_new_lookup [OF new cfg(1)] cfg(2) msg
  by (cases "ac_config cfg"; cases p)
     (auto simp: dispatcher_execute_def publish_single_def rabbitmq_message_def nats_message_def apsnd_def
       split: prod.splits dest!: sym [of "Some _"])

section \<open>Witnesses\<close>

text \<open>A world that records what reached it.\<close>

definition log_services :: "string list services" where
  "log_services =
     \<lparr>sv_render = (\<lambda>t ctx. if t = [] then Inl ''empty'' else Inr t), sv_parse_method = Some,
      sv_http_client = (\<lambda>_. Inr ()), sv_webhook_client = (\<lambda>_. Inr ()),
      sv_notify = (\<lambda>c t b k w. (w @ [wc_url c @ t @ k], Inr ())), sv_connect = (\<lambda>_. Inr ()),
      sv_publish = (\<lambda>m w. (w @ [''published''], Inr ())),
      sv_print = (\<lambda>n t b ctx w. w @ [n]), sv_codec = hex_codec, sv_finish = (\<lambda>s. word_of_nat (length s))\<rparr>"

definition slack_action :: action_config where
  "slack_action = \<lparr>ac_id = None, ac_name = ''slack-1'',
     ac_config = Slack \<lparr>sl_slack_url = ''u:'', sl_message = \<lparr>nm_title = ''t'', nm_body = ''b''\<rparr>,
       sl_retry_policy = \<lparr>hr_max_retry = 3, hr_base_for_backoff = 2, hr_initial_backoff_ms = 250, hr_max_backoff_secs = 10,
         hr_jitter = JitterFull\<rparr>\<rparr>, ac_policy = None\<rparr>"

definition nats_action :: action_config where
  "nats_action = \<lparr>ac_id = None, ac_name = ''slack-1'', ac_config = Nats \<lparr>na_urls = ''n'', na_subject = ''s'', na_credentials = None\<rparr>,
     ac_policy = None\<rparr>"

lemma sample_match_action: "mm_action_name (sample_match i) = ''slack-1''"
  by (simp add: sample_defs)

theorem webhook_delivery_witness:
  "dispatcher_execute log_services (projr (dispatcher_new log_services [(''slack-1'', slack_action)])) (Single (sample_match 3)) [] =
     ([''u:t'' @ mm_id (sample_match 3)], Inr ())"
  by (subst webhook_delivery [where cfgs = "[(''slack-1'', slack_action)]" and cfg = slack_action
      and wc = "projr (as_webhook_components log_services (ac_config slack_action))"])
     (simp_all add: log_services_def slack_action_def payload_templates_def sample_match_action)

lemma broker_delivery_example:
  "dispatcher_execute log_services (projr (dispatcher_new log_services [(''slack-1'', nats_action)]))
     (Aggregated ''slack-1'' [sample_match 3] \<lparr>nm_title = ''t'', nm_body = ''b''\<rparr>) [] = ([], Inr ())"
  by (subst broker_delivery [where cfgs = "[(''slack-1'', nats_action)]" and cfg = nats_action])
     (simp_all add: log_services_def nats_action_def)

end
