(* ===== verification/Argus_Outbox.thy ===== *)
theory Argus_Outbox
  imports Argus_Store Argus_Dispatch
begin

text \<open>
  The outbox processor, \<open>crates/argus-engine/src/outbox_processor.rs\<close>. It is generic in the
  repository, which enters as the record of trait methods, and its lemmas are proved once in the
  locale \<open>outbox_queue\<close> that states the repository's contract; the properties instantiate them
  with the SQLite repository and the dispatcher.

  A batch is dispatched concurrently (\<open>buffer_unordered\<close>). Tasks only touch the outside world, so
  a batch is modelled by the order in which its tasks complete, an arbitrary permutation chosen by
  the world. The drain loop is a \<open>partial_function\<close>: not returning is \<open>None\<close>.
\<close>

section \<open>The processor\<close>

record outbox_config =
  oc_batch_size :: i64
  oc_concurrency :: nat
  oc_poll_interval_ms :: u64

definition default_outbox_config :: outbox_config where
  "default_outbox_config = \<lparr>oc_batch_size = 100, oc_concurrency = 10, oc_poll_interval_ms = 500\<rparr>"

record ('w, 's) outbox_processor =
  op_state :: "'s outbox_repo"
  op_execute :: "action_payload \<Rightarrow> ('w, dispatch_error, unit) op"
  op_completion :: "'w \<Rightarrow> outbox_item list \<Rightarrow> outbox_item list"
  op_config :: outbox_config

text \<open>The loop over the results: successes are collected, failures counted at once.\<close>

fun handle_results ::
  "('w, 's) outbox_processor \<Rightarrow> outbox_item list \<Rightarrow> 'w \<times> 's \<Rightarrow> ('w \<times> 's) \<times> i64 list" where
  "handle_results pr [] ws = (ws, [])"
| "handle_results pr (it # its) (w, s) =
     (case op_execute pr (oi_payload it) w of
        (w', Inr _) \<Rightarrow> (case handle_results pr its (w', s) of (ws, ids) \<Rightarrow> (ws, oi_id it # ids))
      | (w', Inl _) \<Rightarrow> handle_results pr its (w', fst (r_increment (op_state pr) (oi_id it) s)))"

text \<open>The per-id fallback after a failed batch deletion.\<close>

fun delete_each :: "'s outbox_repo \<Rightarrow> i64 list \<Rightarrow> 's \<Rightarrow> 's \<times> nat" where
  "delete_each repo [] s = (s, 0)"
| "delete_each repo (i # ids) s =
     (case r_delete repo [i] s of
        (t, Inl _) \<Rightarrow> delete_each repo ids t
      | (t, Inr _) \<Rightarrow> apsnd Suc (delete_each repo ids t))"

definition delete_delivered :: "'s outbox_repo \<Rightarrow> i64 list \<Rightarrow> 's \<Rightarrow> 's \<times> nat" where
  "delete_delivered repo ids s =
     (if ids = [] then (s, 0)
      else case r_delete repo ids s of
             (t, Inr _) \<Rightarrow> (t, length ids)
           | (t, Inl _) \<Rightarrow> delete_each repo ids t)"

definition process_batch_items ::
  "('w, 's) outbox_processor \<Rightarrow> outbox_item list \<Rightarrow> 'w \<times> 's \<Rightarrow> ('w \<times> 's) \<times> nat" where
  "process_batch_items pr items ws =
     (case handle_results pr (op_completion pr (fst ws) items) ws of
        ((w, s), ids) \<Rightarrow> (case delete_delivered (op_state pr) ids s of (t, n) \<Rightarrow> ((w, t), n)))"

definition process_batch :: "('w, 's) outbox_processor \<Rightarrow> ('w \<times> 's, persistence_error, unit) op" where
  "process_batch pr ws =
     (case r_pending (op_state pr) (oc_batch_size (op_config pr)) (snd ws) of
        (s, Inl e) \<Rightarrow> ((fst ws, s), Inl e)
      | (s, Inr items) \<Rightarrow>
          if items = [] then ((fst ws, s), Inr ())
          else (fst (process_batch_items pr items (fst ws, s)), Inr ()))"

text \<open>\<open>run\<close>, cancelled after \<open>n\<close> polls; errors of a poll are logged.\<close>

fun outbox_run :: "('w, 's) outbox_processor \<Rightarrow> nat \<Rightarrow> 'w \<times> 's \<Rightarrow> 'w \<times> 's" where
  "outbox_run pr 0 ws = ws"
| "outbox_run pr (Suc n) ws = outbox_run pr n (fst (process_batch pr ws))"

partial_function (option) drain_loop ::
  "('w, 's) outbox_processor \<Rightarrow> nat \<Rightarrow> 'w \<times> 's \<Rightarrow> (('w \<times> 's) \<times> (persistence_error + nat)) option" where
  "drain_loop pr sent ws =
     (case r_pending (op_state pr) (oc_batch_size (op_config pr)) (snd ws) of
        (s, Inl e) \<Rightarrow> Some ((fst ws, s), Inl e)
      | (s, Inr items) \<Rightarrow>
          if items = [] then Some ((fst ws, s), Inr sent)
          else (case process_batch_items pr items (fst ws, s) of
                  (ws', n) \<Rightarrow> drain_loop pr (sent + n) ws'))"

definition drain_queue ::
  "('w, 's) outbox_processor \<Rightarrow> 'w \<times> 's \<Rightarrow> (('w \<times> 's) \<times> (persistence_error + nat)) option" where
  "drain_queue pr ws = drain_loop pr 0 ws"

section \<open>What a batch does\<close>

text \<open>The calls of a batch, in completion order: the id of the entry, its payload and whether the dispatcher accepted it, in the world
  the calls before it left.\<close>

type_synonym dispatch_call = "i64 \<times> action_payload \<times> bool"

fun batch_dispatches :: "('w, 's) outbox_processor \<Rightarrow> outbox_item list \<Rightarrow> 'w \<Rightarrow> dispatch_call list" where
  "batch_dispatches pr [] w = []"
| "batch_dispatches pr (it # its) w =
     (case op_execute pr (oi_payload it) w of (w', r) \<Rightarrow> (oi_id it, oi_payload it, is_ok r) # batch_dispatches pr its w')"

text \<open>The calls of a poll, of \<open>n\<close> polls, and of a drain.\<close>

definition poll_dispatches :: "('w, 's) outbox_processor \<Rightarrow> 'w \<times> 's \<Rightarrow> dispatch_call list" where
  "poll_dispatches pr ws =
     (case snd (r_pending (op_state pr) (oc_batch_size (op_config pr)) (snd ws)) of
        Inl e \<Rightarrow> []
      | Inr items \<Rightarrow> if items = [] then [] else batch_dispatches pr (op_completion pr (fst ws) items) (fst ws))"

fun run_dispatches :: "('w, 's) outbox_processor \<Rightarrow> nat \<Rightarrow> 'w \<times> 's \<Rightarrow> dispatch_call list" where
  "run_dispatches pr 0 ws = []"
| "run_dispatches pr (Suc n) ws = poll_dispatches pr ws @ run_dispatches pr n (fst (process_batch pr ws))"

partial_function (option) drain_dispatches :: "('w, 's) outbox_processor \<Rightarrow> 'w \<times> 's \<Rightarrow> dispatch_call list option" where
  "drain_dispatches pr ws =
     (case r_pending (op_state pr) (oc_batch_size (op_config pr)) (snd ws) of
        (s, Inl e) \<Rightarrow> Some []
      | (s, Inr items) \<Rightarrow>
          if items = [] then Some []
          else Option.bind (drain_dispatches pr (fst (process_batch_items pr items (fst ws, s))))
            (\<lambda>cs. Some (batch_dispatches pr (op_completion pr (fst ws) items) (fst ws) @ cs)))"

definition accepted_in :: "dispatch_call list \<Rightarrow> outbox_entry \<Rightarrow> bool" where
  "accepted_in cs e \<longleftrightarrow> (\<exists>p. oe_payload e = Some p \<and> (oe_id e, p, True) \<in> set cs)"

lemma accepted_in_append [simp]: "accepted_in (cs @ ds) e \<longleftrightarrow> accepted_in cs e \<or> accepted_in ds e"
  by (auto simp: accepted_in_def)

text \<open>The outcome of each task in completion order, and the two groups of ids.\<close>

fun outcomes :: "('w, 's) outbox_processor \<Rightarrow> outbox_item list \<Rightarrow> 'w \<Rightarrow> (i64 \<times> bool) list" where
  "outcomes pr [] w = []"
| "outcomes pr (it # its) w =
     (case op_execute pr (oi_payload it) w of (w', r) \<Rightarrow> (oi_id it, is_ok r) # outcomes pr its w')"

definition delivered :: "(i64 \<times> bool) list \<Rightarrow> i64 list" where
  "delivered os = map fst (filter snd os)"

definition failed :: "(i64 \<times> bool) list \<Rightarrow> i64 list" where
  "failed os = map fst (filter (\<lambda>p. \<not> snd p) os)"

lemma outcomes_ids [simp]: "map fst (outcomes pr its w) = map oi_id its"
  by (induction its arbitrary: w) (auto split: prod.splits)

lemma outcome_ids_subset:
  "set (delivered (outcomes pr its w)) \<subseteq> oi_id ` set its" "set (failed (outcomes pr its w)) \<subseteq> oi_id ` set its"
proof -
  have "fst ` set (outcomes pr its w) = oi_id ` set its"
    by (metis list.set_map outcomes_ids)
  then show "set (delivered (outcomes pr its w)) \<subseteq> oi_id ` set its" "set (failed (outcomes pr its w)) \<subseteq> oi_id ` set its"
    unfolding delivered_def failed_def by force+
qed

lemma outcomes_all_ok:
  assumes "\<And>it w. it \<in> set its \<Longrightarrow> is_ok (snd (op_execute pr (oi_payload it) w))"
  shows "\<forall>oc \<in> set (outcomes pr its w). snd oc"
  using assms
proof (induction its arbitrary: w)
  case (Cons it its)
  obtain v r where "op_execute pr (oi_payload it) w = (v, r)" by fastforce
  then show ?case using Cons.IH Cons.prems [of it w] Cons.prems by simp
qed simp

lemma delivered_was_called:
  "i \<in> set (delivered (outcomes pr its w)) \<Longrightarrow>
     \<exists>it \<in> set its. oi_id it = i \<and> (i, oi_payload it, True) \<in> set (batch_dispatches pr its w)"
proof (induction its arbitrary: w)
  case (Cons it its)
  obtain v r where "op_execute pr (oi_payload it) w = (v, r)" by fastforce
  then show ?case using Cons.prems Cons.IH [of v] by (cases "is_ok r") (auto simp: delivered_def)
qed (simp add: delivered_def)

text \<open>What the calls of a log do to the world: each is made in the world the one before it left, with the result the log has.\<close>

fun performs :: "(action_payload \<Rightarrow> ('w, 'e, unit) op) \<Rightarrow> 'w \<Rightarrow> dispatch_call list \<Rightarrow> 'w \<Rightarrow> bool" where
  "performs exe w [] w' \<longleftrightarrow> w' = w"
| "performs exe w ((i, p, accepted) # cs) w' \<longleftrightarrow> (case exe p w of (v, r) \<Rightarrow> is_ok r = accepted \<and> performs exe v cs w')"

lemma performs_append: "performs exe w cs v \<Longrightarrow> performs exe w (cs @ ds) w' \<longleftrightarrow> performs exe v ds w'"
  by (induction exe w cs v rule: performs.induct) (auto split: prod.splits)

lemma handle_results_performs:
  "performs (op_execute pr) (fst ws) (batch_dispatches pr its (fst ws)) (fst (fst (handle_results pr its ws)))"
  by (induction pr its ws rule: handle_results.induct) (auto split: prod.splits sum.splits)

lemma process_batch_items_performs:
  "performs (op_execute pr) w (batch_dispatches pr (op_completion pr w items) w) (fst (fst (process_batch_items pr items (w, s))))"
  using handle_results_performs [of pr "(w, s)" "op_completion pr w items"] by (auto simp: process_batch_items_def split: prod.splits)

text \<open>What a retry does not change of an entry.\<close>

definition entry_core :: "outbox_entry \<Rightarrow> i64 \<times> string \<times> string \<times> action_payload option" where
  "entry_core e = (oe_id e, oe_key e, oe_action e, oe_payload e)"

lemma accepted_in_core: "entry_core f = entry_core e \<Longrightarrow> accepted_in cs f \<longleftrightarrow> accepted_in cs e"
  by (simp add: accepted_in_def entry_core_def)

lemma entry_core_bump [simp]: "entry_core (bump_retries i e) = entry_core e"
  by (simp add: entry_core_def bump_retries_def)

lemma entry_core_ids: "map entry_core xs = map entry_core ys \<Longrightarrow> map oe_id xs = map oe_id ys"
proof -
  assume "map entry_core xs = map entry_core ys"
  then have "map fst (map entry_core xs) = map fst (map entry_core ys)" by simp
  then show ?thesis by (simp add: entry_core_def comp_def)
qed

definition completes :: "('w, 's) outbox_processor \<Rightarrow> bool" where
  "completes pr \<longleftrightarrow> (\<forall>w its. mset (op_completion pr w its) = mset its)"

lemma handle_results_ids: "snd (handle_results pr its ws) = delivered (outcomes pr its (fst ws))"
  by (induction pr its ws rule: handle_results.induct) (auto simp: delivered_def split: prod.splits sum.splits)

lemma list_all2_elem:
  assumes "x \<in> set xs" "list_all2 R xs ys" "\<And>y. y \<in> set ys \<Longrightarrow> R x y \<Longrightarrow> thesis"
  shows thesis
  using assms by (metis in_set_conv_nth list_all2_conv_all_nth)

context outbox_queue
begin

lemma handle_results_abs:
  assumes "handle_results pr its (w, s) = ((w', t), ids)" "op_state pr = repo"
  shows "(ok s \<longrightarrow> ok t) \<and> (live s \<longrightarrow> live t) \<and> map entry_core (abs t) = map entry_core (abs s)"
  using assms
proof (induction its arbitrary: w s ids)
  case (Cons it its)
  obtain v r where e: "op_execute pr (oi_payload it) w = (v, r)" by fastforce
  show ?case
  proof (cases r)
    case (Inr x)
    then show ?thesis using Cons e by (auto split: prod.splits)
  next
    case (Inl x)
    obtain u c where u: "r_increment repo (oi_id it) s = (u, c)" by fastforce
    have "map entry_core (abs u) = map entry_core (abs s) \<and> (ok s \<longrightarrow> ok u) \<and> (live s \<longrightarrow> live u)"
      using increment_done [OF u] by (auto split: sum.splits)
    moreover have "handle_results pr its (v, u) = ((w', t), ids)" using Cons.prems e Inl u by simp
    ultimately show ?thesis using Cons.IH Cons.prems(2) by fastforce
  qed
qed simp

lemma delete_each_abs:
  "delete_each repo ids s = (t, n) \<Longrightarrow>
     (ok s \<longrightarrow> ok t) \<and> (\<exists>D. D \<subseteq> set ids \<and> abs t = filter (\<lambda>e. oe_id e \<notin> D) (abs s))"
proof (induction ids arbitrary: s n)
  case (Cons i ids)
  obtain u r where u: "r_delete repo [i] s = (u, r)" by fastforce
  obtain m where rest: "delete_each repo ids u = (t, m)"
    using Cons.prems u by (cases r) (auto simp: apsnd_def map_prod_def split: prod.splits)
  then obtain D where D: "D \<subseteq> set ids" "abs t = filter (\<lambda>e. oe_id e \<notin> D) (abs u)" "ok u \<longrightarrow> ok t"
    using Cons.IH by blast
  have "ok s \<longrightarrow> ok u" using delete_keeps [of s "[i]"] u by auto
  moreover have "abs u = abs s \<or> abs u = filter (\<lambda>e. oe_id e \<notin> {i}) (abs s)"
    using delete_done [of "[i]" s u] delete_failed [of "[i]" s u] u by (cases r) auto
  ultimately consider "ok s \<longrightarrow> ok t" "abs t = filter (\<lambda>e. oe_id e \<notin> D) (abs s)"
    | "ok s \<longrightarrow> ok t" "abs t = filter (\<lambda>e. oe_id e \<notin> insert i D) (abs s)"
    using D by (auto simp: conj_commute)
  then show ?case
  proof cases
    case 1
    then show ?thesis using D(1) by (intro conjI exI [of _ D]) auto
  next
    case 2
    then show ?thesis using D(1) by (intro conjI exI [of _ "insert i D"]) auto
  qed
qed (auto intro: exI [of _ "{}"])

lemma delete_delivered_abs:
  assumes "delete_delivered repo ids s = (t, n)"
  shows "(ok s \<longrightarrow> ok t) \<and> (\<exists>D. D \<subseteq> set ids \<and> abs t = filter (\<lambda>e. oe_id e \<notin> D) (abs s))"
proof (cases "ids = []")
  case False
  obtain u r where u: "r_delete repo ids s = (u, r)" by fastforce
  have "ok s \<longrightarrow> ok u" using delete_keeps [of s ids] u by auto
  then show ?thesis
    using assms False u delete_done [of ids s u] delete_failed [of ids s u] delete_each_abs [of ids u t n]
    by (cases r) (auto simp: delete_delivered_def intro!: exI [of _ "set ids"])
qed (use assms in \<open>auto simp: delete_delivered_def intro!: exI [of _ "{}"]\<close>)

text \<open>No batch loses an item: what leaves the queue was delivered.\<close>

lemma batch_no_loss:
  assumes b: "process_batch_items pr items (w, s) = ((w', t), n)" and r: "op_state pr = repo"
  shows "(ok s \<longrightarrow> ok t) \<and>
    (\<exists>D. D \<subseteq> set (delivered (outcomes pr (op_completion pr w items) w)) \<and>
       map entry_core (abs t) = filter (\<lambda>(i, _). i \<notin> D) (map entry_core (abs s)))"
proof -
  obtain v u ids where h: "handle_results pr (op_completion pr w items) (w, s) = ((v, u), ids)"
    by (metis prod.collapse)
  have ids: "ids = delivered (outcomes pr (op_completion pr w items) w)"
    using handle_results_ids [of pr "op_completion pr w items" "(w, s)"] h by simp
  have d: "delete_delivered repo ids u = (t, n)"
    using b h r by (auto simp: process_batch_items_def split: prod.splits)
  obtain D where D: "D \<subseteq> set ids" "abs t = filter (\<lambda>e. oe_id e \<notin> D) (abs u)" "ok u \<longrightarrow> ok t"
    using delete_delivered_abs [OF d] by blast
  have u: "ok s \<longrightarrow> ok u" "map entry_core (abs u) = map entry_core (abs s)"
    using handle_results_abs [OF h r] by blast+
  have "map entry_core (abs t) = filter (\<lambda>(i, _). i \<notin> D) (map entry_core (abs u))"
    by (simp add: D(2) filter_map comp_def entry_core_def)
  then show ?thesis using D u unfolding ids by auto
qed

text \<open>On a store that refuses nothing the effect of a batch is exact.\<close>

lemma handle_results_live:
  assumes "handle_results pr its (w, s) = ((w', t), ids)" "op_state pr = repo" "live s" "distinct (map oi_id its)"
  shows "live t \<and> abs t = map (\<lambda>e. if oe_id e \<in> set (failed (outcomes pr its w))
    then e\<lparr>oe_retries := oe_retries e + 1\<rparr> else e) (abs s)"
  using assms
proof (induction its arbitrary: w s ids)
  case (Cons it its)
  obtain v r where e: "op_execute pr (oi_payload it) w = (v, r)" by fastforce
  show ?case
  proof (cases r)
    case (Inr x)
    then show ?thesis using Cons e by (auto simp: failed_def split: prod.splits)
  next
    case (Inl x)
    obtain u c where u: "r_increment repo (oi_id it) s = (u, c)" by fastforce
    have a: "abs u = map (bump_retries (oi_id it)) (abs s)" "live u"
      using increment_done [OF u] Cons.prems(3) by auto
    have "oi_id it \<notin> set (failed (outcomes pr its v))"
      using Cons.prems(4) outcome_ids_subset(2) [of pr its v] by auto
    moreover have "handle_results pr its (v, u) = ((w', t), ids)" using Cons.prems e Inl u by simp
    ultimately show ?thesis using Cons.IH [of v u ids] Cons.prems(2,4) a e Inl
      by (auto simp: bump_retries_def failed_def)
  qed
qed (simp add: failed_def)

lemma batch_exact:
  assumes b: "process_batch_items pr items (w, s) = ((w', t), n)"
    and r: "op_state pr = repo" "live s" "distinct (map oi_id items)" "completes pr"
  shows "live t \<and> n = length (delivered (outcomes pr (op_completion pr w items) w)) \<and>
    abs t = map (\<lambda>e. if oe_id e \<in> set (failed (outcomes pr (op_completion pr w items) w))
        then e\<lparr>oe_retries := oe_retries e + 1\<rparr> else e)
      (filter (\<lambda>e. oe_id e \<notin> set (delivered (outcomes pr (op_completion pr w items) w))) (abs s))"
proof -
  let ?os = "outcomes pr (op_completion pr w items) w"
  have "mset (map oi_id (op_completion pr w items)) = mset (map oi_id items)"
    using r(4) by (simp add: completes_def)
  then have "distinct (map oi_id (op_completion pr w items))" using r(3) by (metis mset_eq_imp_distinct_iff)
  obtain v u ids where h: "handle_results pr (op_completion pr w items) (w, s) = ((v, u), ids)"
    by (metis prod.collapse)
  have ids: "ids = delivered ?os"
    using handle_results_ids [of pr "op_completion pr w items" "(w, s)"] h by simp
  have u: "live u" "abs u = map (\<lambda>e. if oe_id e \<in> set (failed ?os) then e\<lparr>oe_retries := oe_retries e + 1\<rparr> else e) (abs s)"
    using handle_results_live [OF h r(1,2)] \<open>distinct (map oi_id (op_completion pr w items))\<close> by auto
  obtain t' where t': "r_delete repo ids u = (t', Inr ())" "live t'" using delete_lives [OF u(1)] by blast
  have d: "delete_delivered repo ids u = (t, n)"
    using b h r(1) by (auto simp: process_batch_items_def split: prod.splits)
  have "abs t = filter (\<lambda>e. oe_id e \<notin> set ids) (abs u) \<and> live t \<and> n = length ids"
    using d t' u(1) delete_done [OF t'(1)] by (auto simp: delete_delivered_def split: if_splits)
  moreover have "filter (\<lambda>e. oe_id e \<notin> A) (map (\<lambda>e. if oe_id e \<in> B then e\<lparr>oe_retries := oe_retries e + 1\<rparr> else e) xs)
    = map (\<lambda>e. if oe_id e \<in> B then e\<lparr>oe_retries := oe_retries e + 1\<rparr> else e) (filter (\<lambda>e. oe_id e \<notin> A) xs)" for A B xs
    by (induction xs) auto
  ultimately show ?thesis unfolding u(2) ids by simp
qed

lemma pending_ids:
  assumes "ok s" "r_pending repo k s = (t, Inr items)"
  shows "map oi_id items = map oe_id (sql_limit k (abs s))"
  using pending_items [OF assms] by (auto simp: list_all2_conv_all_nth item_of_entry_def intro: nth_equalityI)

lemma sql_limit_distinct: "ok s \<Longrightarrow> distinct (map oe_id (sql_limit k (abs s)))"
  using ids_distinct [of s] by (simp add: sql_limit_def flip: take_map)

text \<open>An entry that is no longer queued was delivered, whatever the store refused.\<close>

lemma process_batch_no_loss:
  assumes p: "process_batch pr (w, s) = ((w', t), r)" and pr: "op_state pr = repo" "completes pr" and "ok s"
  shows "ok t \<and> entry_core ` set (abs t) \<subseteq> entry_core ` set (abs s) \<and>
    performs (op_execute pr) w (poll_dispatches pr (w, s)) w' \<and>
    (\<forall>e \<in> set (abs s). entry_core e \<notin> entry_core ` set (abs t) \<longrightarrow> accepted_in (poll_dispatches pr (w, s)) e)"
proof -
  obtain u q where q: "r_pending repo (oc_batch_size (op_config pr)) s = (u, q)" by fastforce
  have u: "abs u = abs s" "ok u" using pending_keeps [OF q] assms(4) by auto
  show ?thesis
  proof (cases "\<exists>items. q = Inr items \<and> items \<noteq> []")
    case False
    then have "t = u" "w' = w" "poll_dispatches pr (w, s) = []"
      using p q pr by (auto simp: process_batch_def poll_dispatches_def split: sum.splits if_splits)
    then show ?thesis using u by auto
  next
    case True
    then obtain items where items: "q = Inr items" "items \<noteq> []" by blast
    then have b: "process_batch_items pr items (w, u) = ((w', t), snd (process_batch_items pr items (w, u)))"
      using p q pr by (auto simp: process_batch_def prod_eq_iff)
    have calls: "poll_dispatches pr (w, s) = batch_dispatches pr (op_completion pr w items) w"
      using q items pr by (simp add: poll_dispatches_def)
    have perf: "performs (op_execute pr) w (poll_dispatches pr (w, s)) w'"
      using process_batch_items_performs [of pr w items u] arg_cong [OF b, of "\<lambda>x. fst (fst x)"] unfolding calls by simp
    obtain D where D: "D \<subseteq> set (delivered (outcomes pr (op_completion pr w items) w))"
      "map entry_core (abs t) = filter (\<lambda>(i, _). i \<notin> D) (map entry_core (abs s))" and "ok t"
      using batch_no_loss [OF b pr(1)] u by auto
    have sub: "entry_core ` set (abs t) = {c \<in> entry_core ` set (abs s). fst c \<notin> D}"
      using arg_cong [OF D(2), of set] by (auto simp: case_prod_beta')
    have "accepted_in (poll_dispatches pr (w, s)) e" if e: "e \<in> set (abs s)" "entry_core e \<notin> entry_core ` set (abs t)" for e
    proof -
      have "oe_id e \<in> D" using e unfolding sub by (simp add: entry_core_def)
      then obtain it where it: "it \<in> set (op_completion pr w items)" "oi_id it = oe_id e"
        "(oe_id e, oi_payload it, True) \<in> set (batch_dispatches pr (op_completion pr w items) w)"
        using D(1) delivered_was_called [of "oe_id e" pr "op_completion pr w items" w] by auto
      then have "it \<in> set items" using pr(2) unfolding completes_def by (metis set_mset_mset)
      then obtain f where "f \<in> set (sql_limit (oc_batch_size (op_config pr)) (abs s))" and "item_of_entry it f"
        using pending_items [OF assms(4) q [unfolded items(1)]] by (rule list_all2_elem)
      then have f: "f \<in> set (abs s)" "item_of_entry it f"
        by (auto simp: sql_limit_def split: if_splits dest: in_set_takeD)
      then have "f = e"
        using ids_distinct [OF assms(4)] e(1) it(2) by (auto simp: distinct_map item_of_entry_def dest: inj_onD)
      then show ?thesis using f it by (auto simp: item_of_entry_def accepted_in_def calls)
    qed
    then show ?thesis using \<open>ok t\<close> sub perf by blast
  qed
qed

text \<open>A step that loses nothing, followed by a run that loses nothing.\<close>

lemma accepted_trans:
  assumes "\<forall>e \<in> set (abs s). entry_core e \<notin> entry_core ` set (abs u) \<longrightarrow> accepted_in cs e"
    and "\<forall>e \<in> set (abs u). entry_core e \<notin> entry_core ` set (abs t) \<longrightarrow> accepted_in ds e"
  shows "\<forall>e \<in> set (abs s). entry_core e \<notin> entry_core ` set (abs t) \<longrightarrow> accepted_in (cs @ ds) e"
proof (intro ballI impI)
  fix e assume e: "e \<in> set (abs s)" "entry_core e \<notin> entry_core ` set (abs t)"
  show "accepted_in (cs @ ds) e"
  proof (cases "entry_core e \<in> entry_core ` set (abs u)")
    case True
    then obtain f where f: "f \<in> set (abs u)" "entry_core f = entry_core e" by auto
    then have "accepted_in ds f" using assms(2) e by simp
    then show ?thesis using accepted_in_core [OF f(2)] by simp
  qed (use assms(1) e in simp)
qed

lemma run_no_loss:
  assumes "outbox_run pr n (w, s) = (w', t)" "op_state pr = repo" "completes pr" "ok s"
  shows "ok t \<and> entry_core ` set (abs t) \<subseteq> entry_core ` set (abs s) \<and>
    performs (op_execute pr) w (run_dispatches pr n (w, s)) w' \<and>
    (\<forall>e \<in> set (abs s). entry_core e \<notin> entry_core ` set (abs t) \<longrightarrow> accepted_in (run_dispatches pr n (w, s)) e)"
  using assms(1,4)
proof (induction n arbitrary: w s)
  case (Suc n)
  obtain v u r where b: "process_batch pr (w, s) = ((v, u), r)" by (metis prod.collapse)
  note step = process_batch_no_loss [OF b assms(2,3) Suc.prems(2)]
  have rest: "outbox_run pr n (v, u) = (w', t)" using Suc.prems(1) b by simp
  note IH = Suc.IH [OF rest]
  have calls: "run_dispatches pr (Suc n) (w, s) = poll_dispatches pr (w, s) @ run_dispatches pr n (v, u)" using b by simp
  have "performs (op_execute pr) w (run_dispatches pr (Suc n) (w, s)) w'"
    using performs_append [OF step [THEN conjunct2, THEN conjunct2, THEN conjunct1]] IH [THEN conjunct2, THEN conjunct2, THEN conjunct1]
      step unfolding calls by blast
  moreover have "\<forall>e \<in> set (abs s). entry_core e \<notin> entry_core ` set (abs t) \<longrightarrow> accepted_in (run_dispatches pr (Suc n) (w, s)) e"
    unfolding calls by (rule accepted_trans [of s u]) (use step IH in blast)+
  ultimately show ?case using step IH by blast
qed simp

text \<open>Draining: when every delivery succeeds, the loop ends with an empty queue.\<close>

lemma drain_delivers:
  assumes pr: "op_state pr = repo" "completes pr" "0 < oc_batch_size (op_config pr)"
    and "ok s" "live s" "\<forall>e \<in> set (abs s). readable e"
    and "\<forall>e \<in> set (abs s). \<forall>p w. oe_payload e = Some p \<longrightarrow> is_ok (snd (op_execute pr p w))"
  shows "\<exists>w' t. drain_loop pr k (w, s) = Some ((w', t), Inr (k + length (abs s))) \<and> abs t = []"
  using assms(4-7)
proof (induction "length (abs s)" arbitrary: s k w rule: less_induct)
  case less
  let ?b = "oc_batch_size (op_config pr)"
  have "set (sql_limit ?b (abs s)) \<subseteq> set (abs s)" by (auto simp: sql_limit_def dest: in_set_takeD)
  then obtain u items where q: "r_pending repo ?b s = (u, Inr items)" "live u"
    using pending_lives [OF less.prems(1,2)] less.prems(3) by (meson subsetD)
  have u: "abs u = abs s" "ok u" using pending_keeps [OF q(1)] less.prems by auto
  have ids: "map oi_id items = map oe_id (sql_limit ?b (abs s))" using pending_ids [OF less.prems(1) q(1)] .
  show ?case
  proof (cases "items = []")
    case True
    then have "abs s = []" using ids pr(3) by (simp add: sql_limit_def)
    then show ?thesis using True q pr(1) u by (subst drain_loop.simps) simp
  next
    case False
    obtain v t n where b: "process_batch_items pr items (w, u) = ((v, t), n)" by (metis prod.collapse)
    let ?os = "outcomes pr (op_completion pr w items) w"
    have all_ok: "\<forall>oc \<in> set ?os. snd oc"
    proof (rule outcomes_all_ok)
      fix it x assume "it \<in> set (op_completion pr w items)"
      then have "it \<in> set items" using pr(2) unfolding completes_def by (metis set_mset_mset)
      then obtain f where "f \<in> set (sql_limit ?b (abs s))" "item_of_entry it f"
        using pending_items [OF less.prems(1) q(1)] by (rule list_all2_elem)
      then show "is_ok (snd (op_execute pr (oi_payload it) x))"
        using less.prems(4) \<open>set (sql_limit ?b (abs s)) \<subseteq> set (abs s)\<close> by (auto simp: item_of_entry_def)
    qed
    have os: "delivered ?os = map oi_id (op_completion pr w items)" "failed ?os = []"
      using all_ok by (simp_all add: delivered_def failed_def filter_empty_conv)
    have perm: "mset (map oi_id (op_completion pr w items)) = mset (map oi_id items)" using pr(2) by (simp add: completes_def)
    have d: "distinct (map oi_id items)" unfolding ids using less.prems(1) by (rule sql_limit_distinct)
    have set_os: "set (delivered ?os) = oe_id ` set (sql_limit ?b (abs s))"
      using perm ids os(1) by (metis list.set_map mset_eq_setD)
    have t: "live t" "n = length (delivered ?os)" "abs t = filter (\<lambda>e. oe_id e \<notin> set (delivered ?os)) (abs s)"
      using batch_exact [OF b pr(1) q(2) d pr(2)] os(2) u by auto
    have dr: "abs t = drop (nat ?b) (abs s)"
    proof -
      have dis: "distinct (map oe_id (take (nat ?b) (abs s) @ drop (nat ?b) (abs s)))"
        using ids_distinct [OF less.prems(1)] by simp
      have "filter (\<lambda>e. oe_id e \<notin> oe_id ` set (take (nat ?b) (abs s))) (take (nat ?b) (abs s) @ drop (nat ?b) (abs s))
        = drop (nat ?b) (abs s)"
        using dis by (simp only: map_append distinct_append filter_append) (auto simp: filter_id_conv filter_empty_conv)
      then show ?thesis using pr(3) by (simp add: t(3) set_os sql_limit_def)
    qed
    have nt: "n = length (take (nat ?b) (abs s))"
      using t(2) os(1) perm ids pr(3) by (metis length_map mset_eq_length not_less_iff_gr_or_eq sql_limit_def)
    have okt: "ok t" using batch_no_loss [OF b pr(1)] u by blast
    have ne: "abs s \<noteq> []" using False ids by (auto simp: sql_limit_def split: if_splits)
    have lt: "length (abs t) < length (abs s)" using dr ne pr(3) by simp
    have rd: "\<forall>e \<in> set (abs t). readable e" using less.prems(3) by (auto simp: dr dest: in_set_dropD)
    have gd: "\<forall>e \<in> set (abs t). \<forall>p w. oe_payload e = Some p \<longrightarrow> is_ok (snd (op_execute pr p w))"
      using less.prems(4) by (auto simp: dr dest: in_set_dropD)
    note IH = less.hyps [OF lt okt t(1) rd gd, of "k + n" v]
    have "drain_loop pr k (w, s) = drain_loop pr (k + n) (v, t)"
      using q False pr(1) b by (subst drain_loop.simps) simp
    moreover have "k + n + length (abs t) = k + length (abs s)"
      by (simp add: dr nt)
    ultimately show ?thesis using IH by metis
  qed
qed

text \<open>A drain that returns a count leaves nothing behind, and loses nothing whatever it returns.\<close>

lemma drain_no_loss:
  assumes "drain_loop pr k ws = Some y" "op_state pr = repo" "completes pr" "oc_batch_size (op_config pr) \<noteq> 0" "ok (snd ws)"
  shows "ok (snd (fst y)) \<and> (is_ok (snd y) \<longrightarrow> abs (snd (fst y)) = []) \<and>
    (\<exists>cs. drain_dispatches pr ws = Some cs \<and> performs (op_execute pr) (fst ws) cs (fst (fst y)) \<and>
       (\<forall>e \<in> set (abs (snd ws)). entry_core e \<notin> entry_core ` set (abs (snd (fst y))) \<longrightarrow> accepted_in cs e))"
proof -
  let ?post = "\<lambda>pr ws y cs. drain_dispatches pr ws = Some cs \<and> performs (op_execute pr) (fst ws) cs (fst (fst y)) \<and>
    (\<forall>e \<in> set (abs (snd ws)). entry_core e \<notin> entry_core ` set (abs (snd (fst y))) \<longrightarrow> accepted_in cs e)"
  let ?Q = "\<lambda>pr k ws y. op_state pr = repo \<longrightarrow> completes pr \<longrightarrow> oc_batch_size (op_config pr) \<noteq> 0 \<longrightarrow> ok (snd ws) \<longrightarrow>
     ok (snd (fst y)) \<and> (is_ok (snd y) \<longrightarrow> abs (snd (fst y)) = []) \<and> (\<exists>cs. ?post pr ws y cs)"
  have "?Q pr k ws y"
  proof (rule drain_loop.raw_induct [where P = ?Q, OF _ assms(1)], intro impI)
    fix loop pr k ws y
    assume IH: "\<And>pr k ws y. loop pr k ws = Some y \<Longrightarrow> ?Q pr k ws y"
      and run: "(case r_pending (op_state pr) (oc_batch_size (op_config pr)) (snd ws) of
        (s, Inl e) \<Rightarrow> Some ((fst ws, s), Inl e)
      | (s, Inr items) \<Rightarrow>
          if items = [] then Some ((fst ws, s), Inr k)
          else (case process_batch_items pr items (fst ws, s) of (ws', n) \<Rightarrow> loop pr (k + n) ws')) = Some y"
      and pr: "op_state pr = repo" "completes pr" "oc_batch_size (op_config pr) \<noteq> 0" and ok: "ok (snd ws)"
    obtain w s where ws: "ws = (w, s)" by (cases ws)
    obtain u q where q: "r_pending repo (oc_batch_size (op_config pr)) s = (u, q)" by fastforce
    have u: "abs u = abs s" "ok u" using pending_keeps [OF q] ok ws by auto
    show "ok (snd (fst y)) \<and> (is_ok (snd y) \<longrightarrow> abs (snd (fst y)) = []) \<and> (\<exists>cs. ?post pr ws y cs)"
    proof (cases q)
      case (Inl e)
      then have "y = ((w, u), Inl e)" "drain_dispatches pr ws = Some []"
        using run q ws pr by (simp_all add: drain_dispatches.simps)
      then show ?thesis using u ws by auto
    next
      case (Inr items)
      show ?thesis
      proof (cases "items = []")
        case True
        then have "y = ((w, u), Inr k)" "drain_dispatches pr ws = Some []"
          using run q ws pr Inr by (simp_all add: drain_dispatches.simps)
        moreover have "abs s = []"
          using pending_ids [of s "oc_batch_size (op_config pr)" u items] q Inr ok ws True pr(3)
          by (auto simp: sql_limit_def split: if_splits)
        ultimately show ?thesis using u ws by auto
      next
        case False
        obtain v t n where b: "process_batch_items pr items (w, u) = ((v, t), n)" by (metis prod.collapse)
        have p: "process_batch pr (w, s) = ((v, t), Inr ())" using q Inr False b pr(1) by (simp add: process_batch_def)
        have step: "ok t" "performs (op_execute pr) w (poll_dispatches pr (w, s)) v"
          "\<forall>e \<in> set (abs s). entry_core e \<notin> entry_core ` set (abs t) \<longrightarrow> accepted_in (poll_dispatches pr (w, s)) e"
          using process_batch_no_loss [OF p pr(1,2)] ok ws by simp_all
        have "loop pr (k + n) (v, t) = Some y" using run q ws pr Inr False b by simp
        from IH [OF this] pr step(1) obtain cs where rest: "ok (snd (fst y))" "is_ok (snd y) \<longrightarrow> abs (snd (fst y)) = []"
          "?post pr (v, t) y cs" by auto
        have "drain_dispatches pr ws = Some (poll_dispatches pr (w, s) @ cs)"
          using q ws pr(1) Inr False b rest(3) by (subst drain_dispatches.simps) (simp add: poll_dispatches_def)
        moreover have "performs (op_execute pr) w (poll_dispatches pr (w, s) @ cs) (fst (fst y))"
          using performs_append [OF step(2)] rest(3) by simp
        moreover have "\<forall>e \<in> set (abs s). entry_core e \<notin> entry_core ` set (abs (snd (fst y))) \<longrightarrow>
            accepted_in (poll_dispatches pr (w, s) @ cs) e"
          by (rule accepted_trans [OF step(3)]) (use rest(3) in simp)
        ultimately show ?thesis using rest(1,2) ws by auto
      qed
    qed
  qed
  then show ?thesis using assms by blast
qed

end

section \<open>The processor over SQLite and the dispatcher\<close>

definition outbox_processor_new ::
  "store_env \<Rightarrow> 'w services \<Rightarrow> dispatcher \<Rightarrow> ('w \<Rightarrow> outbox_item list \<Rightarrow> outbox_item list) \<Rightarrow> outbox_config \<Rightarrow>
   ('w, db) outbox_processor" where
  "outbox_processor_new env sv d order cfg =
     \<lparr>op_state = sqlite_outbox env, op_execute = dispatcher_execute sv d, op_completion = order, op_config = cfg\<rparr>"

definition permutes_batch :: "('w \<Rightarrow> outbox_item list \<Rightarrow> outbox_item list) \<Rightarrow> bool" where
  "permutes_batch order \<longleftrightarrow> (\<forall>w its. mset (order w its) = mset its)"

lemma outbox_processor_new_simps [simp]:
  "op_state (outbox_processor_new env sv d order cfg) = sqlite_outbox env"
  "op_execute (outbox_processor_new env sv d order cfg) = dispatcher_execute sv d"
  "op_config (outbox_processor_new env sv d order cfg) = cfg"
  "op_completion (outbox_processor_new env sv d order cfg) = order"
  "completes (outbox_processor_new env sv d order cfg) = permutes_batch order"
  by (simp_all add: outbox_processor_new_def completes_def permutes_batch_def)

text \<open>C1. At-least-once delivery: however many polls the outbox processor makes, in whatever order its tasks
  complete and whichever statements the database refuses, an entry that has left the outbox was accepted by the dispatcher during
  these polls: the calls of the run lead from the world at the start to the world at the end, and among them is one with the entry's id and
  payload that succeeded. The entries that stay keep their id, key, action and payload, and none appears.\<close>

theorem outbox_at_least_once:
  assumes "outbox_ok s" "permutes_batch order"
    and "outbox_run (outbox_processor_new env sv d order cfg) n (w, s) = (w', t)"
  shows "outbox_ok t \<and> entry_core ` set (outbox_abs env t) \<subseteq> entry_core ` set (outbox_abs env s) \<and>
    performs (dispatcher_execute sv d) w (run_dispatches (outbox_processor_new env sv d order cfg) n (w, s)) w' \<and>
    (\<forall>e \<in> set (outbox_abs env s). entry_core e \<notin> entry_core ` set (outbox_abs env t) \<longrightarrow>
       accepted_in (run_dispatches (outbox_processor_new env sv d order cfg) n (w, s)) e)"
  using sqlite.run_no_loss [OF assms(3), of env] assms(1,2) by simp

text \<open>One poll on a store that refuses nothing: the first \<open>batch_size\<close> entries are dispatched, each once;
  the delivered ones are removed, the failed ones stay with one more retry, and no other entry changes.\<close>

lemma process_batch_effect:
  assumes "outbox_ok s" "faultless s" "permutes_batch order"
    and "\<forall>e \<in> set (sql_limit (oc_batch_size cfg) (outbox_abs env s)). readable e"
  shows "\<exists>w' t os. process_batch (outbox_processor_new env sv d order cfg) (w, s) = ((w', t), Inr ()) \<and>
    mset (map fst os) = mset (map oe_id (sql_limit (oc_batch_size cfg) (outbox_abs env s))) \<and>
    outbox_abs env t = map (\<lambda>e. if (oe_id e, False) \<in> set os then e\<lparr>oe_retries := oe_retries e + 1\<rparr> else e)
      (filter (\<lambda>e. (oe_id e, True) \<notin> set os) (outbox_abs env s)) \<and> faultless t"
proof -
  let ?pr = "outbox_processor_new env sv d order cfg"
  obtain u items where q: "r_pending (sqlite_outbox env) (oc_batch_size cfg) s = (u, Inr items)" "faultless u"
    using sqlite.pending_lives [OF assms(1,2,4)] by blast
  have u: "outbox_abs env u = outbox_abs env s" "outbox_ok u" using sqlite.pending_keeps [OF q(1)] assms(1) by auto
  have ids: "map oi_id items = map oe_id (sql_limit (oc_batch_size cfg) (outbox_abs env s))"
    using sqlite.pending_ids [OF assms(1) q(1)] .
  show ?thesis
  proof (cases "items = []")
    case True
    then show ?thesis
      using q u ids by (intro exI [of _ w] exI [of _ u] exI [of _ "[]"]) (simp add: process_batch_def)
  next
    case False
    obtain v t n where b: "process_batch_items ?pr items (w, u) = ((v, t), n)" by (metis prod.collapse)
    let ?os = "outcomes ?pr (order w items) w"
    have "distinct (map oi_id items)" unfolding ids using assms(1) by (rule sqlite.sql_limit_distinct)
    then have t: "faultless t" "outbox_abs env t = map (\<lambda>e. if oe_id e \<in> set (failed ?os)
        then e\<lparr>oe_retries := oe_retries e + 1\<rparr> else e) (filter (\<lambda>e. oe_id e \<notin> set (delivered ?os)) (outbox_abs env s))"
      using sqlite.batch_exact [OF b _ q(2)] u assms(3) by simp_all
    have "mset (map fst ?os) = mset (map oi_id items)"
      using assms(3) by (simp add: permutes_batch_def)
    moreover have "i \<in> set (failed ?os) \<longleftrightarrow> (i, False) \<in> set ?os" "i \<in> set (delivered ?os) \<longleftrightarrow> (i, True) \<in> set ?os" for i
      by (force simp: failed_def delivered_def)+
    moreover have "process_batch ?pr (w, s) = ((v, t), Inr ())" using q False b by (simp add: process_batch_def)
    ultimately show ?thesis
      using t ids by (intro exI [of _ v] exI [of _ t] exI [of _ ?os]) simp
  qed
qed

text \<open>C17. Draining terminates and empties the outbox: with a positive batch size, on a store that refuses
  nothing and with a dispatcher that accepts every queued payload, \<open>drain_queue\<close> returns, the outbox is empty
  and the reported count is the number of entries it held.\<close>

theorem drain_queue_empties:
  assumes "outbox_ok s" "faultless s" "permutes_batch order" "0 < oc_batch_size cfg"
    and "\<forall>e \<in> set (outbox_abs env s). readable e"
    and "\<forall>e \<in> set (outbox_abs env s). \<forall>p w. oe_payload e = Some p \<longrightarrow> is_ok (snd (dispatcher_execute sv d p w))"
  shows "\<exists>w' t. drain_queue (outbox_processor_new env sv d order cfg) (w, s) =
    Some ((w', t), Inr (length (outbox_abs env s))) \<and> outbox_abs env t = []"
  using sqlite.drain_delivers [of "outbox_processor_new env sv d order cfg" env s 0 w] assms
  by (simp add: drain_queue_def)

section \<open>Witnesses\<close>

definition queued_db :: db where
  "queued_db = empty_db\<lparr>db_outbox :=
     [\<lparr>ob_id = 1, ob_action_name = ''slack-1'', ob_payload = payload_to_json hex_codec (Single (sample_match 1)), ob_retries = 0,
       ob_last_attempt = None, ob_idempotency_key = ''a''\<rparr>,
      \<lparr>ob_id = 2, ob_action_name = ''slack-1'', ob_payload = payload_to_json hex_codec (Single (sample_match 2)), ob_retries = 0,
       ob_last_attempt = None, ob_idempotency_key = ''b''\<rparr>], db_outbox_seq := 2\<rparr>"

definition slack_dispatcher :: dispatcher where
  "slack_dispatcher = projr (dispatcher_new log_services [(''slack-1'', slack_action)])"

definition slack_config_1 :: outbox_config where
  "slack_config_1 = \<lparr>oc_batch_size = 1, oc_concurrency = 1, oc_poll_interval_ms = 500\<rparr>"

lemma queued_db_ok: "outbox_ok queued_db" "faultless queued_db"
  by (simp_all add: queued_db_def outbox_ok_def faultless_def empty_db_def)

lemma queued_db_abs:
  "outbox_abs sample_env queued_db =
     [\<lparr>oe_id = 1, oe_key = ''a'', oe_action = ''slack-1'', oe_payload = Some (Single (sample_match 1)), oe_retries = 0\<rparr>,
      \<lparr>oe_id = 2, oe_key = ''b'', oe_action = ''slack-1'', oe_payload = Some (Single (sample_match 2)), oe_retries = 0\<rparr>]"
proof -
  have "payload_of_json hex_codec (payload_to_json hex_codec (Single (sample_match i))) = Some (Single (sample_match i))" for i
    by (rule payload_roundtrip) (simp_all add: hex_codec_ok sample_match_serialisable)
  then show ?thesis by (simp add: outbox_abs_def queued_db_def entry_of_row_def sample_env_def)
qed

lemma slack_dispatcher_accepts: "is_ok (snd (dispatcher_execute log_services slack_dispatcher (Single (sample_match i)) w))"
  by (simp add: slack_dispatcher_def dispatcher_execute_def log_services_def slack_action_def webhook_execute_def
      sample_match_action)

theorem drain_queue_empties_witness:
  "\<exists>w' t. drain_queue (outbox_processor_new sample_env log_services slack_dispatcher (\<lambda>_. rev) slack_config_1) ([], queued_db) =
     Some ((w', t), Inr 2) \<and> outbox_abs sample_env t = []"
  using drain_queue_empties [OF queued_db_ok, of "\<lambda>_. rev" slack_config_1 sample_env log_services slack_dispatcher "[]"]
    slack_dispatcher_accepts
  by (simp add: permutes_batch_def slack_config_1_def queued_db_abs readable_def numeral_2_eq_2)

lemma process_batch_effect_example:
  "\<exists>w' t. process_batch (outbox_processor_new sample_env log_services [] (\<lambda>_. rev) slack_config_1) ([], queued_db) =
     ((w', t), Inr ()) \<and> length (outbox_abs sample_env t) \<le> 2"
proof -
  obtain w' t os where "process_batch (outbox_processor_new sample_env log_services [] (\<lambda>_. rev) slack_config_1) ([], queued_db) =
      ((w', t), Inr ())"
    "outbox_abs sample_env t = map (\<lambda>e. if (oe_id e, False) \<in> set os then e\<lparr>oe_retries := oe_retries e + 1\<rparr> else e)
      (filter (\<lambda>e. (oe_id e, True) \<notin> set os) (outbox_abs sample_env queued_db))"
    using process_batch_effect [OF queued_db_ok, of "\<lambda>_. rev" slack_config_1 sample_env log_services "[]" "[]"]
    by (auto simp: permutes_batch_def slack_config_1_def queued_db_abs readable_def sql_limit_def)
  then show ?thesis
    using length_filter_le [of "\<lambda>e. (oe_id e, True) \<notin> set os" "outbox_abs sample_env queued_db"] by (simp add: queued_db_abs)
qed

theorem outbox_at_least_once_witness:
  "outbox_ok (snd (outbox_run (outbox_processor_new sample_env log_services slack_dispatcher (\<lambda>_. rev) slack_config_1) 3 ([], queued_db)))"
  using outbox_at_least_once [OF queued_db_ok(1), of "\<lambda>_. rev" sample_env log_services slack_dispatcher slack_config_1 3 "[]"]
  by (cases "outbox_run (outbox_processor_new sample_env log_services slack_dispatcher (\<lambda>_. rev) slack_config_1) 3 ([], queued_db)")
     (simp add: permutes_batch_def)

end
