(* ===== verification/Argus_Alerts.thy ===== *)
theory Argus_Alerts
  imports Argus_Store
begin

text \<open>
  The alert manager, \<open>crates/argus-engine/src/alert_manager.rs\<close>, with the states of
  \<open>crates/argus-core/src/models/alert_manager_state.rs\<close>: throttling, aggregation windows, direct
  dispatch, and the persistence of both kinds of state through the key-value store.

  The manager's in-memory maps are association lists and the repository is the SQLite model. Every call
  of \<open>Utc::now()\<close> is an argument: \<open>process_matches_batch\<close> gets each match with the time at which
  it is handled. The per-action locks serialise the handlers and have no counterpart in a sequential
  model. The text form of a timestamp belongs to another crate and is the parameter \<open>time_codec\<close>.
\<close>

section \<open>State\<close>

record throttle_state =
  ts_count :: u32
  ts_window_start_time :: timestamp

record aggregation_state =
  as_matches :: "monitor_match list"
  as_window_start_time :: timestamp

record time_codec =
  tc_enc :: "timestamp \<Rightarrow> string"
  tc_dec :: "string \<Rightarrow> timestamp option"

definition throttle_state_to_json :: "time_codec \<Rightarrow> throttle_state \<Rightarrow> json" where
  "throttle_state_to_json tc st =
     JObject [(''count'', JNumber (uint (ts_count st))),
              (''window_start_time'', JString (tc_enc tc (ts_window_start_time st)))]"

definition throttle_state_of_json :: "time_codec \<Rightarrow> json \<Rightarrow> throttle_state option" where
  "throttle_state_of_json tc v =
     (case (Option.bind (json_get ''count'' v) (json_int_in 0 (2 ^ 32 - 1)),
            Option.bind (Option.bind (json_get ''window_start_time'' v) json_str) (tc_dec tc)) of
        (Some n, Some t) \<Rightarrow> Some \<lparr>ts_count = word_of_int n, ts_window_start_time = t\<rparr>
      | _ \<Rightarrow> None)"

definition aggregation_state_to_json :: "json_codec \<Rightarrow> time_codec \<Rightarrow> aggregation_state \<Rightarrow> json" where
  "aggregation_state_to_json c tc st =
     JObject [(''matches'', JArray (map (monitor_match_to_json c) (as_matches st))),
              (''window_start_time'', JString (tc_enc tc (as_window_start_time st)))]"

definition aggregation_state_of_json :: "json_codec \<Rightarrow> time_codec \<Rightarrow> json \<Rightarrow> aggregation_state option" where
  "aggregation_state_of_json c tc v =
     (case (case json_get ''matches'' v of
              Some (JArray vs) \<Rightarrow> those (map (monitor_match_of_json c) vs) | _ \<Rightarrow> None,
            Option.bind (Option.bind (json_get ''window_start_time'' v) json_str) (tc_dec tc)) of
        (Some ms, Some t) \<Rightarrow> Some \<lparr>as_matches = ms, as_window_start_time = t\<rparr>
      | _ \<Rightarrow> None)"

record alert_manager =
  am_db :: db
  am_actions :: "(string \<times> action_config) list"
  am_generated_alerts :: "(string \<times> nat) list"
  am_throttle_states :: "(string \<times> throttle_state) list"
  am_aggregation_states :: "(string \<times> aggregation_state) list"

datatype alert_manager_error = StateRepositoryError persistence_error

type_synonym 'a amop = "(alert_manager, alert_manager_error, 'a) op"

definition throttle_prefix :: string where "throttle_prefix = ''throttle_state:''"
definition aggregation_prefix :: string where "aggregation_prefix = ''aggregation_state:''"

section \<open>Start-up\<close>

text \<open>Rows whose key lacks the prefix are skipped with a warning.\<close>

fun load_states :: "string \<Rightarrow> (string \<times> 'a) list \<Rightarrow> (string \<times> 'a) list \<Rightarrow> (string \<times> 'a) list" where
  "load_states prefix [] m = m"
| "load_states prefix ((key, st) # rows) m =
     load_states prefix rows
       (case strip_prefix key prefix of Some name \<Rightarrow> AList.update name st m | None \<Rightarrow> m)"

definition alert_manager_new ::
  "store_env \<Rightarrow> time_codec \<Rightarrow> (string \<times> action_config) list \<Rightarrow> db \<Rightarrow> alert_manager_error + alert_manager" where
  "alert_manager_new env tc actions s =
     (case get_all_json_states_by_prefix (throttle_state_of_json tc) throttle_prefix s of
        (s1, Inl e) \<Rightarrow> Inl (StateRepositoryError e)
      | (s1, Inr throttles) \<Rightarrow>
          (case get_all_json_states_by_prefix (aggregation_state_of_json (se_codec env) tc) aggregation_prefix s1 of
             (s2, Inl e) \<Rightarrow> Inl (StateRepositoryError e)
           | (s2, Inr aggs) \<Rightarrow>
               Inr \<lparr>am_db = s2, am_actions = actions, am_generated_alerts = [],
                    am_throttle_states = load_states throttle_prefix throttles [],
                    am_aggregation_states = load_states aggregation_prefix aggs []\<rparr>))"

section \<open>Dispatch to the outbox\<close>

definition dispatch_payloads_batch :: "store_env \<Rightarrow> action_payload list \<Rightarrow> unit amop" where
  "dispatch_payloads_batch env payloads am =
     (if payloads = [] then (am, Inr ())
      else case enqueue_outbox_batch env (map (\<lambda>p. (payload_action_name p, p)) payloads) (am_db am) of
             (t, Inl e) \<Rightarrow> (am\<lparr>am_db := t\<rparr>, Inl (StateRepositoryError e))
           | (t, Inr _) \<Rightarrow>
               (am\<lparr>am_db := t,
                   am_generated_alerts := fold (\<lambda>p. entry_update (payload_action_name p) 0 Suc) payloads
                     (am_generated_alerts am)\<rparr>, Inr ()))"

definition dispatch_payload :: "store_env \<Rightarrow> action_payload \<Rightarrow> unit amop" where
  "dispatch_payload env p = dispatch_payloads_batch env [p]"

section \<open>Throttling\<close>

text \<open>The decision of \<open>handle_throttle\<close> on the entry of the action.\<close>

definition throttle_decision :: "throttle_policy \<Rightarrow> timestamp \<Rightarrow> throttle_state \<Rightarrow> throttle_state \<times> bool" where
  "throttle_decision policy now st =
     (let st1 = (if ts_window_start_time st + int (tp_time_window_secs policy) < now
                 then \<lparr>ts_count = 0, ts_window_start_time = now\<rparr> else st)
      in if ts_count st1 < tp_max_count policy then (st1\<lparr>ts_count := ts_count st1 + 1\<rparr>, True) else (st1, False))"

definition handle_throttle :: "store_env \<Rightarrow> timestamp \<Rightarrow> monitor_match \<Rightarrow> throttle_policy \<Rightarrow> unit amop" where
  "handle_throttle env now m policy am =
     (let name = mm_action_name m;
          st = (case map_of (am_throttle_states am) name of
                  Some st \<Rightarrow> st | None \<Rightarrow> \<lparr>ts_count = 0, ts_window_start_time = now\<rparr>);
          (st', should_dispatch) = throttle_decision policy now st;
          am' = am\<lparr>am_throttle_states := AList.update name st' (am_throttle_states am)\<rparr>
      in if should_dispatch then (fst (dispatch_payload env (Single m) am'), Inr ()) else (am', Inr ()))"

section \<open>Aggregation\<close>

definition default_aggregation_state :: aggregation_state where
  "default_aggregation_state = \<lparr>as_matches = [], as_window_start_time = 0\<rparr>"

definition aggregate :: "timestamp \<Rightarrow> monitor_match \<Rightarrow> aggregation_state \<Rightarrow> aggregation_state" where
  "aggregate now m st =
     (if \<exists>m' \<in> set (as_matches st). mm_id m' = mm_id m then st
      else
        let st1 = (if as_matches st = [] then st\<lparr>as_window_start_time := now\<rparr> else st)
        in st1\<lparr>as_matches := as_matches st1 @ [m]\<rparr>)"

definition handle_aggregation :: "timestamp \<Rightarrow> monitor_match \<Rightarrow> unit amop" where
  "handle_aggregation now m am =
     (am\<lparr>am_aggregation_states :=
        entry_update (mm_action_name m) default_aggregation_state (aggregate now m) (am_aggregation_states am)\<rparr>,
      Inr ())"

section \<open>Batches of matches\<close>

fun process_loop ::
  "store_env \<Rightarrow> (timestamp \<times> monitor_match) list \<Rightarrow> action_payload list \<Rightarrow> action_payload list amop" where
  "process_loop env [] immediate am = (am, Inr immediate)"
| "process_loop env ((now, m) # rest) immediate am =
     (case map_of (am_actions am) (mm_action_name m) of
        None \<Rightarrow> process_loop env rest immediate am
      | Some cfg \<Rightarrow>
          (case ac_policy cfg of
             Some (Throttle policy) \<Rightarrow>
               bindS (handle_throttle env now m policy) (\<lambda>_. process_loop env rest immediate) am
           | Some (Aggregation policy) \<Rightarrow>
               bindS (handle_aggregation now m) (\<lambda>_. process_loop env rest immediate) am
           | None \<Rightarrow> process_loop env rest (immediate @ [Single m]) am))"

definition process_matches_batch :: "store_env \<Rightarrow> (timestamp \<times> monitor_match) list \<Rightarrow> unit amop" where
  "process_matches_batch env ms am =
     (if ms = [] then (am, Inr ())
      else bindS (process_loop env ms []) (dispatch_payloads_batch env) am)"

section \<open>Expired windows\<close>

text \<open>One entry of the iteration: the state it leaves behind and the payload it hands over.\<close>

definition expire_window ::
  "(string \<times> action_config) list \<Rightarrow> bool \<Rightarrow> timestamp \<Rightarrow> string \<Rightarrow> aggregation_state \<Rightarrow>
   aggregation_state \<times> action_payload option" where
  "expire_window actions force now name st =
     (if as_matches st = [] then (st, None)
      else
        case map_of actions name of
          None \<Rightarrow> (st\<lparr>as_matches := []\<rparr>, None)
        | Some cfg \<Rightarrow>
            (case ac_policy cfg of
               Some (Aggregation policy) \<Rightarrow>
                 if force \<or> as_window_start_time st + int (ap_window_secs policy) < now
                 then (st\<lparr>as_matches := []\<rparr>, Some (Aggregated name (as_matches st) (ap_template policy)))
                 else (st, None)
             | _ \<Rightarrow> (st\<lparr>as_matches := []\<rparr>, None)))"

definition expired_states :: "bool \<Rightarrow> timestamp \<Rightarrow> alert_manager \<Rightarrow> (string \<times> aggregation_state) list" where
  "expired_states force now am =
     map (\<lambda>(name, st). (name, fst (expire_window (am_actions am) force now name st))) (am_aggregation_states am)"

definition expired_payloads :: "bool \<Rightarrow> timestamp \<Rightarrow> alert_manager \<Rightarrow> action_payload list" where
  "expired_payloads force now am =
     List.map_filter (\<lambda>(name, st). snd (expire_window (am_actions am) force now name st)) (am_aggregation_states am)"

definition put_states :: "string \<Rightarrow> ('a \<Rightarrow> json) \<Rightarrow> (string \<times> 'a) list \<Rightarrow> unit dbop" where
  "put_states prefix enc = foldS (\<lambda>(name, st). set_json_state enc (prefix @ name) st)"

definition sync_states_to_db :: "store_env \<Rightarrow> time_codec \<Rightarrow> unit amop" where
  "sync_states_to_db env tc am =
     (case bindS (put_states throttle_prefix (throttle_state_to_json tc) (am_throttle_states am)) (\<lambda>_.
             put_states aggregation_prefix (aggregation_state_to_json (se_codec env) tc) (am_aggregation_states am)) (am_db am) of
        (s, r) \<Rightarrow> (am\<lparr>am_db := s\<rparr>, map_err StateRepositoryError r))"

definition check_and_dispatch_expired_windows ::
  "store_env \<Rightarrow> time_codec \<Rightarrow> timestamp \<Rightarrow> bool \<Rightarrow> unit amop" where
  "check_and_dispatch_expired_windows env tc now force am =
     (let payloads = expired_payloads force now am;
          am1 = am\<lparr>am_aggregation_states := expired_states force now am\<rparr>
      in sync_states_to_db env tc (fst (dispatch_payloads_batch env payloads am1)))"

fun run_aggregation_dispatcher :: "store_env \<Rightarrow> time_codec \<Rightarrow> timestamp list \<Rightarrow> alert_manager \<Rightarrow> alert_manager" where
  "run_aggregation_dispatcher env tc [] am = am"
| "run_aggregation_dispatcher env tc (now # ticks) am =
     run_aggregation_dispatcher env tc ticks (fst (check_and_dispatch_expired_windows env tc now False am))"

definition alert_flush :: "store_env \<Rightarrow> time_codec \<Rightarrow> timestamp \<Rightarrow> unit amop" where
  "alert_flush env tc now = check_and_dispatch_expired_windows env tc now True"

definition alert_shutdown :: "store_env \<Rightarrow> time_codec \<Rightarrow> timestamp \<Rightarrow> alert_manager \<Rightarrow> alert_manager" where
  "alert_shutdown env tc now am = fst (alert_flush env tc now am)"

section \<open>Throttling\<close>

text \<open>How many entries of an action the outbox holds.\<close>

definition queued :: "store_env \<Rightarrow> string \<Rightarrow> alert_manager \<Rightarrow> nat" where
  "queued env a am = length (filter (\<lambda>e. oe_action e = a) (outbox_abs env (am_db am)))"

lemma fresh_items_filter_le: "length (filter P (fresh_items key seen xs)) \<le> length (filter P xs)"
  by (induction xs arbitrary: seen) (auto intro: le_SucI)

lemma queued_dispatch:
  "queued env a (fst (dispatch_payloads_batch env ps am)) \<le> queued env a am + length (filter (\<lambda>p. payload_action_name p = a) ps)"
proof (cases "ps = []")
  case False
  let ?items = "map (\<lambda>p. (payload_action_name p, p)) ps"
  obtain t r where e: "enqueue_outbox_batch env ?items (am_db am) = (t, r)" by fastforce
  show ?thesis
  proof (cases r)
    case (Inl x)
    then have "outbox_abs env t = outbox_abs env (am_db am)"
      using e enqueue_error by (fastforce simp: outbox_abs_same_tables)
    then show ?thesis using e Inl False by (simp add: dispatch_payloads_batch_def queued_def)
  next
    case (Inr x)
    let ?f = "fresh_items (\<lambda>(a, p). idempotency_key (se_finish env) p) (oe_key ` set (outbox_abs env (am_db am))) ?items"
    obtain new where new: "outbox_abs env t = outbox_abs env (am_db am) @ new"
      "map (\<lambda>e. (oe_key e, oe_action e, oe_payload e, oe_retries e)) new =
       map (\<lambda>(a, p). (idempotency_key (se_finish env) p, a,
                       payload_of_json (se_codec env) (payload_to_json (se_codec env) p), 0)) ?f"
      using enqueue_abs [of env ?items "am_db am" t] e Inr by auto
    have "map oe_action new = map (fst \<circ> snd) (map (\<lambda>e. (oe_key e, oe_action e, oe_payload e, oe_retries e)) new)"
      by simp
    also have "\<dots> = map fst ?f" unfolding new(2) by (simp add: case_prod_beta')
    finally have "length (filter (\<lambda>b. b = a) (map oe_action new)) = length (filter (\<lambda>b. b = a) (map fst ?f))" by simp
    then have "length (filter (\<lambda>e. oe_action e = a) new) = length (filter (\<lambda>x. fst x = a) ?f)"
      by (simp add: filter_map comp_def)
    also have "\<dots> \<le> length (filter (\<lambda>x. fst x = a) ?items)" by (rule fresh_items_filter_le)
    also have "\<dots> = length (filter (\<lambda>p. payload_action_name p = a) ps)" by (simp add: filter_map comp_def)
    finally show ?thesis using e Inr False new(1) by (simp add: dispatch_payloads_batch_def queued_def)
  qed
qed (simp add: dispatch_payloads_batch_def)

lemma dispatch_frame:
  "am_actions (fst (dispatch_payloads_batch env ps am)) = am_actions am"
  "am_throttle_states (fst (dispatch_payloads_batch env ps am)) = am_throttle_states am"
  "am_aggregation_states (fst (dispatch_payloads_batch env ps am)) = am_aggregation_states am"
  by (auto simp: dispatch_payloads_batch_def split: prod.splits sum.splits)

text \<open>The dispatches an action has left in a period that starts at \<open>from\<close> and lasts at most one window.\<close>

definition budget :: "throttle_policy \<Rightarrow> timestamp \<Rightarrow> throttle_state option \<Rightarrow> nat" where
  "budget policy from st =
     (case st of
        None \<Rightarrow> unat (tp_max_count policy)
      | Some st \<Rightarrow> (unat (tp_max_count policy) - unat (ts_count st)) +
                   (if ts_window_start_time st < from then unat (tp_max_count policy) else 0))"

lemma throttle_decision_budget:
  assumes "from \<le> now" "now \<le> from + int (tp_time_window_secs policy)"
    "throttle_decision policy now st = (st', go)"
  shows "(if go then 1 else 0) + budget policy from (Some st') \<le> budget policy from (Some st)"
    and "ts_window_start_time st = now \<Longrightarrow> ts_count st = 0 \<Longrightarrow>
      (if go then 1 else 0) + budget policy from (Some st') \<le> unat (tp_max_count policy)"
proof -
  have suc: "unat (c + 1) = Suc (unat c)" "Suc (unat c) \<le> unat (tp_max_count policy)" if "c < tp_max_count policy" for c
    using that unat_Suc_no_overflow [OF that] by (simp_all add: word_less_nat_alt)
  show "(if go then 1 else 0) + budget policy from (Some st') \<le> budget policy from (Some st)"
    using assms suc
    by (auto simp: throttle_decision_def budget_def Let_def word_less_nat_alt split: if_splits)
  assume "ts_window_start_time st = now" "ts_count st = 0"
  then show "(if go then 1 else 0) + budget policy from (Some st') \<le> unat (tp_max_count policy)"
    using assms suc [of 0]
    by (auto simp: throttle_decision_def budget_def Let_def word_less_nat_alt split: if_splits)
qed

lemma handle_throttle_budget:
  assumes "from \<le> now" "now \<le> from + int (tp_time_window_secs policy)"
  shows "queued env (mm_action_name m) (fst (handle_throttle env now m policy am)) +
      budget policy from (map_of (am_throttle_states (fst (handle_throttle env now m policy am))) (mm_action_name m))
    \<le> queued env (mm_action_name m) am + budget policy from (map_of (am_throttle_states am) (mm_action_name m))"
proof -
  let ?a = "mm_action_name m"
  define st where "st = (case map_of (am_throttle_states am) ?a of
      Some st \<Rightarrow> st | None \<Rightarrow> \<lparr>ts_count = 0, ts_window_start_time = now\<rparr>)"
  obtain st' go where d: "throttle_decision policy now st = (st', go)" by fastforce
  have b: "(if go then 1 else 0) + budget policy from (Some st') \<le> budget policy from (map_of (am_throttle_states am) ?a)"
    using throttle_decision_budget [OF assms d]
    by (cases "map_of (am_throttle_states am) ?a") (auto simp: st_def budget_def)
  let ?am = "am\<lparr>am_throttle_states := AList.update ?a st' (am_throttle_states am)\<rparr>"
  have h: "fst (handle_throttle env now m policy am) = (if go then fst (dispatch_payload env (Single m) ?am) else ?am)"
    using d by (simp add: handle_throttle_def Let_def flip: st_def)
  have "queued env ?a ?am = queued env ?a am" by (simp add: queued_def)
  then show ?thesis
    using b queued_dispatch [of env ?a "[Single m]" ?am] dispatch_frame(2) [of env "[Single m]" ?am]
    by (cases go) (simp_all add: h dispatch_payload_def)
qed

lemma handle_throttle_other:
  assumes "a \<noteq> mm_action_name m"
  shows "queued env a (fst (handle_throttle env now m policy am)) \<le> queued env a am"
    "map_of (am_throttle_states (fst (handle_throttle env now m policy am))) a = map_of (am_throttle_states am) a"
proof -
  let ?st = "case map_of (am_throttle_states am) (mm_action_name m) of
      Some st \<Rightarrow> st | None \<Rightarrow> \<lparr>ts_count = 0, ts_window_start_time = now\<rparr>"
  obtain st' go where d: "throttle_decision policy now ?st = (st', go)" by fastforce
  let ?am = "am\<lparr>am_throttle_states := AList.update (mm_action_name m) st' (am_throttle_states am)\<rparr>"
  have h: "fst (handle_throttle env now m policy am) = (if go then fst (dispatch_payload env (Single m) ?am) else ?am)"
    using d by (simp add: handle_throttle_def Let_def)
  have "queued env a ?am = queued env a am" by (simp add: queued_def)
  then show "queued env a (fst (handle_throttle env now m policy am)) \<le> queued env a am"
    "map_of (am_throttle_states (fst (handle_throttle env now m policy am))) a = map_of (am_throttle_states am) a"
    using assms queued_dispatch [of env a "[Single m]" ?am] dispatch_frame(2) [of env "[Single m]" ?am]
    by (simp_all add: h dispatch_payload_def)
qed

lemma handle_throttle_frame [simp]:
  "am_actions (fst (handle_throttle env now m policy am)) = am_actions am"
  "am_aggregation_states (fst (handle_throttle env now m policy am)) = am_aggregation_states am"
  "snd (handle_throttle env now m policy am) = Inr ()"
  by (simp_all add: handle_throttle_def Let_def dispatch_payload_def dispatch_frame split: prod.splits)

lemma handle_aggregation_frame [simp]:
  "am_actions (fst (handle_aggregation now m am)) = am_actions am" "am_db (fst (handle_aggregation now m am)) = am_db am"
  "am_throttle_states (fst (handle_aggregation now m am)) = am_throttle_states am"
  "snd (handle_aggregation now m am) = Inr ()"
  by (simp_all add: handle_aggregation_def)

lemma bindS_ok: "snd (f s) = Inr () \<Longrightarrow> bindS f g s = g () (fst (f s))"
  by (cases "f s") (simp add: bindS_def)

lemma process_loop_step:
  "process_loop env ((now, m) # rest) im am =
     (case map_of (am_actions am) (mm_action_name m) of
        None \<Rightarrow> process_loop env rest im am
      | Some cfg \<Rightarrow>
          (case ac_policy cfg of
             Some (Throttle policy) \<Rightarrow> process_loop env rest im (fst (handle_throttle env now m policy am))
           | Some (Aggregation policy) \<Rightarrow> process_loop env rest im (fst (handle_aggregation now m am))
           | None \<Rightarrow> process_loop env rest (im @ [Single m]) am))"
  by (simp add: bindS_ok split: option.splits action_policy.splits)

definition direct :: "alert_manager \<Rightarrow> action_payload \<Rightarrow> bool" where
  "direct am p \<longleftrightarrow> (\<exists>cfg. map_of (am_actions am) (payload_action_name p) = Some cfg \<and> ac_policy cfg = None)"

lemma process_loop_budget:
  assumes "map_of (am_actions am) a = Some cfg" "ac_policy cfg = Some (Throttle policy)"
    and "\<forall>(now, m) \<in> set ms. from \<le> now \<and> now \<le> from + int (tp_time_window_secs policy)"
    and "\<forall>p \<in> set im. direct am p"
    and "process_loop env ms im am = (am', r)"
  shows "\<exists>im'. r = Inr im' \<and> (\<forall>p \<in> set im'. direct am p) \<and> am_actions am' = am_actions am \<and>
    queued env a am' + budget policy from (map_of (am_throttle_states am') a)
      \<le> queued env a am + budget policy from (map_of (am_throttle_states am) a)"
  using assms
proof (induction ms arbitrary: am im)
  case (Cons x ms)
  obtain now m where x: "x = (now, m)" by (cases x)
  note eq = Cons.prems(5) [unfolded x process_loop_step]
  note IH = Cons.IH [OF _ Cons.prems(2)]
  show ?case
  proof (cases "map_of (am_actions am) (mm_action_name m)")
    case None
    then show ?thesis using IH [of am im] Cons.prems eq by simp
  next
    case (Some c)
    note c = Some
    show ?thesis
    proof (cases "ac_policy c")
      case None
      then have "direct am (Single m)" using c by (simp add: direct_def)
      then show ?thesis using IH [of am "im @ [Single m]"] Cons.prems eq c None by simp
    next
      case (Some pol)
      show ?thesis
      proof (cases pol)
        case (Aggregation q)
        let ?am = "fst (handle_aggregation now m am)"
        have "queued env a ?am = queued env a am" "direct ?am = direct am" by (simp_all add: queued_def direct_def fun_eq_iff)
        then show ?thesis using IH [of ?am im] Cons.prems eq c Some Aggregation by simp
      next
        case (Throttle q)
        let ?am = "fst (handle_throttle env now m q am)"
        have "queued env a ?am + budget policy from (map_of (am_throttle_states ?am) a)
            \<le> queued env a am + budget policy from (map_of (am_throttle_states am) a)"
        proof (cases "a = mm_action_name m")
          case True
          then have "q = policy" using c Some Throttle Cons.prems(1,2) by simp
          then show ?thesis using handle_throttle_budget [of "from" now policy env m am] Cons.prems(3) True x by simp
        next
          case False
          then show ?thesis using handle_throttle_other [of a m env now q am] by simp
        qed
        moreover have "direct ?am = direct am" by (simp add: direct_def fun_eq_iff)
        ultimately show ?thesis using IH [of ?am im] Cons.prems eq c Some Throttle by fastforce
      qed
    qed
  qed
next
  case Nil
  then show ?case by (intro exI [of _ im]) auto
qed

fun process_batches :: "store_env \<Rightarrow> (timestamp \<times> monitor_match) list list \<Rightarrow> alert_manager \<Rightarrow> alert_manager" where
  "process_batches env [] am = am"
| "process_batches env (b # bs) am = process_batches env bs (fst (process_matches_batch env b am))"

lemma process_matches_batch_budget:
  assumes "map_of (am_actions am) a = Some cfg" "ac_policy cfg = Some (Throttle policy)"
    and "\<forall>(now, m) \<in> set ms. from \<le> now \<and> now \<le> from + int (tp_time_window_secs policy)"
  shows "am_actions (fst (process_matches_batch env ms am)) = am_actions am \<and>
    queued env a (fst (process_matches_batch env ms am)) +
      budget policy from (map_of (am_throttle_states (fst (process_matches_batch env ms am))) a)
    \<le> queued env a am + budget policy from (map_of (am_throttle_states am) a)"
proof (cases "ms = []")
  case False
  obtain am' r where l: "process_loop env ms [] am = (am', r)" by fastforce
  then obtain im where im: "r = Inr im" "\<forall>p \<in> set im. direct am p" "am_actions am' = am_actions am"
    "queued env a am' + budget policy from (map_of (am_throttle_states am') a)
      \<le> queued env a am + budget policy from (map_of (am_throttle_states am) a)"
    using process_loop_budget [OF assms, of "[]" env am' r] by auto
  have "filter (\<lambda>p. payload_action_name p = a) im = []"
    using im(2) assms(1,2) by (auto simp: filter_empty_conv direct_def)
  then have "queued env a (fst (dispatch_payloads_batch env im am')) \<le> queued env a am'"
    using queued_dispatch [of env a im am'] by simp
  then show ?thesis using im l False by (simp add: process_matches_batch_def bindS_def dispatch_frame)
qed (simp add: process_matches_batch_def)

lemma process_batches_budget:
  assumes "map_of (am_actions am) a = Some cfg" "ac_policy cfg = Some (Throttle policy)"
    and "\<forall>(now, m) \<in> set (concat bs). from \<le> now \<and> now \<le> from + int (tp_time_window_secs policy)"
  shows "queued env a (process_batches env bs am) +
      budget policy from (map_of (am_throttle_states (process_batches env bs am)) a)
    \<le> queued env a am + budget policy from (map_of (am_throttle_states am) a)"
  using assms
proof (induction bs arbitrary: am)
  case (Cons b bs)
  have "\<forall>(now, m) \<in> set b. from \<le> now \<and> now \<le> from + int (tp_time_window_secs policy)" using Cons.prems(3) by auto
  note b = process_matches_batch_budget [OF Cons.prems(1,2) this, of env]
  have "\<forall>(now, m) \<in> set (concat bs). from \<le> now \<and> now \<le> from + int (tp_time_window_secs policy)" using Cons.prems(3) by auto
  note Cons.IH [OF _ Cons.prems(2) this, of "fst (process_matches_batch env b am)"]
  then show ?case using b Cons.prems(1) by simp
qed simp

text \<open>Throttling: over any sequence of batches handled within one window length, an action with a throttle
  policy puts at most twice its \<open>max_count\<close> into the outbox, and at most \<open>max_count\<close> when the action
  had no throttle state before; whatever the other matches of the batches are.\<close>

lemma throttle_limits:
  assumes "map_of (am_actions am) a = Some cfg" "ac_policy cfg = Some (Throttle policy)"
    and "\<forall>(now, m) \<in> set (concat bs). from \<le> now \<and> now \<le> from + int (tp_time_window_secs policy)"
  shows "queued env a (process_batches env bs am) \<le> queued env a am + 2 * unat (tp_max_count policy) \<and>
    (map_of (am_throttle_states am) a = None \<longrightarrow>
       queued env a (process_batches env bs am) \<le> queued env a am + unat (tp_max_count policy))"
  using process_batches_budget [OF assms, of env]
  by (auto simp: budget_def split: option.splits if_splits)

section \<open>Aggregation windows\<close>

definition windows_ok :: "alert_manager \<Rightarrow> bool" where
  "windows_ok am \<longleftrightarrow>
     distinct (map fst (am_aggregation_states am)) \<and>
     (\<forall>(a, st) \<in> set (am_aggregation_states am).
        distinct (map mm_id (as_matches st)) \<and> (\<forall>m \<in> set (as_matches st). mm_action_name m = a))"

text \<open>The matches an action has collected.\<close>

definition pending :: "alert_manager \<Rightarrow> string \<Rightarrow> monitor_match list" where
  "pending am a = (case map_of (am_aggregation_states am) a of None \<Rightarrow> [] | Some st \<Rightarrow> as_matches st)"

lemma windows_ok_lookup:
  "windows_ok am \<longleftrightarrow> distinct (map fst (am_aggregation_states am)) \<and>
     (\<forall>a. distinct (map mm_id (pending am a)) \<and> (\<forall>m \<in> set (pending am a). mm_action_name m = a))"
  (is "?l \<longleftrightarrow> ?r")
proof
  assume ?l
  then show ?r by (fastforce simp: windows_ok_def pending_def split: option.splits dest: map_of_SomeD)
next
  assume r: ?r
  show ?l unfolding windows_ok_def
  proof (intro conjI ballI)
    fix x assume x: "x \<in> set (am_aggregation_states am)"
    obtain a st where xa: "x = (a, st)" by (cases x)
    then have "pending am a = as_matches st" using r x by (simp add: pending_def)
    then show "case x of (a, st) \<Rightarrow> distinct (map mm_id (as_matches st)) \<and> (\<forall>m \<in> set (as_matches st). mm_action_name m = a)"
      using r [THEN conjunct2, THEN spec, of a] xa by simp
  qed (use r in blast)
qed

lemma pending_handle_aggregation:
  "pending (fst (handle_aggregation now m am)) a =
     (if a = mm_action_name m \<and> mm_id m \<notin> mm_id ` set (pending am a) then pending am a @ [m] else pending am a)"
  by (auto simp: handle_aggregation_def pending_def map_of_entry_update aggregate_def default_aggregation_state_def Let_def
      image_iff split: option.splits)

lemma windows_ok_handle_aggregation:
  "windows_ok am \<Longrightarrow> windows_ok (fst (handle_aggregation now m am))"
  unfolding windows_ok_lookup pending_handle_aggregation
  by (auto simp: handle_aggregation_def)

lemma pending_cong: "am_aggregation_states am' = am_aggregation_states am \<Longrightarrow> pending am' = pending am"
  by (simp add: pending_def fun_eq_iff)

lemma windows_ok_cong: "am_aggregation_states am' = am_aggregation_states am \<Longrightarrow> windows_ok am' = windows_ok am"
  by (simp add: windows_ok_def)

lemma windows_ok_handle_throttle [simp]: "windows_ok (fst (handle_throttle env now m policy am)) = windows_ok am"
  by (rule windows_ok_cong) simp

lemma process_loop_windows:
  "windows_ok am \<Longrightarrow> windows_ok (fst (process_loop env ms im am)) \<and> am_actions (fst (process_loop env ms im am)) = am_actions am"
proof (induction ms arbitrary: am im)
  case (Cons x ms)
  obtain now m where x: "x = (now, m)" by (cases x)
  show ?case unfolding x process_loop_step
    using Cons by (auto simp: windows_ok_handle_aggregation split: option.splits action_policy.splits)
qed simp

lemma process_matches_batch_windows:
  "windows_ok am \<Longrightarrow> windows_ok (fst (process_matches_batch env ms am))"
  using process_loop_windows [of am env ms "[]"] windows_ok_cong [OF dispatch_frame(3)]
  by (auto simp: process_matches_batch_def fst_bindS split: prod.splits sum.splits)

text \<open>What one check does to the windows and which payloads it produces.\<close>

definition window_due :: "alert_manager \<Rightarrow> bool \<Rightarrow> timestamp \<Rightarrow> string \<Rightarrow> notification_message option" where
  "window_due am force now a =
     (case map_of (am_actions am) a of
        Some cfg \<Rightarrow>
          (case (ac_policy cfg, map_of (am_aggregation_states am) a) of
             (Some (Aggregation policy), Some st) \<Rightarrow>
               if force \<or> as_window_start_time st + int (ap_window_secs policy) < now
               then Some (ap_template policy) else None
           | _ \<Rightarrow> None)
      | None \<Rightarrow> None)"

lemma expired_payloads_iff:
  assumes "windows_ok am"
  shows "p \<in> set (expired_payloads force now am) \<longleftrightarrow>
    (\<exists>a t. pending am a \<noteq> [] \<and> window_due am force now a = Some t \<and> p = Aggregated a (pending am a) t)"
    (is "?l \<longleftrightarrow> ?r")
proof
  assume ?l
  then obtain a st where st: "(a, st) \<in> set (am_aggregation_states am)" "snd (expire_window (am_actions am) force now a st) = Some p"
    by (auto simp: expired_payloads_def map_filter_def)
  moreover have "map_of (am_aggregation_states am) a = Some st"
    using st(1) assms by (auto simp: windows_ok_def)
  ultimately show ?r
    by (intro exI [of _ a])
       (auto simp: expire_window_def pending_def window_due_def split: if_splits option.splits action_policy.splits)
next
  assume ?r
  then obtain a t st where *: "map_of (am_aggregation_states am) a = Some st" "as_matches st \<noteq> []"
    "window_due am force now a = Some t" "p = Aggregated a (as_matches st) t"
    by (auto simp: pending_def split: option.splits)
  then have "snd (expire_window (am_actions am) force now a st) = Some p"
    by (auto simp: expire_window_def window_due_def split: option.splits action_policy.splits if_splits)
  moreover have "(a, st) \<in> set (am_aggregation_states am)" using *(1) by (rule map_of_SomeD)
  ultimately show ?l by (force simp: expired_payloads_def map_filter_def)
qed

lemma sync_frame:
  "am_aggregation_states (fst (sync_states_to_db env tc am)) = am_aggregation_states am"
  "am_throttle_states (fst (sync_states_to_db env tc am)) = am_throttle_states am"
  "am_actions (fst (sync_states_to_db env tc am)) = am_actions am"
  by (simp_all add: sync_states_to_db_def split: prod.splits)

lemma map_of_map_value: "map_of (map (\<lambda>(k, v). (k, f k v)) m) k = map_option (f k) (map_of m k)"
  by (induction m) auto

lemma pending_check:
  "pending (fst (check_and_dispatch_expired_windows env tc now force am)) a =
     (case map_of (am_aggregation_states am) a of None \<Rightarrow> []
      | Some st \<Rightarrow> as_matches (fst (expire_window (am_actions am) force now a st)))"
  by (simp add: check_and_dispatch_expired_windows_def Let_def pending_def sync_frame dispatch_frame expired_states_def
      map_of_map_value split: option.splits)

lemma put_states_outbox:
  "outbox_abs env (fst (put_states prefix enc m s)) = outbox_abs env s"
  unfolding put_states_def
  by (rule foldS_invariant [where P = "\<lambda>t. outbox_abs env t = outbox_abs env s"])
     (auto simp: set_json_state_def modify_def exec_def Let_def outbox_abs_def split: option.splits prod.splits)

lemma sync_outbox: "outbox_abs env (am_db (fst (sync_states_to_db env tc am))) = outbox_abs env (am_db am)"
proof -
  let ?m = "bindS (put_states throttle_prefix (throttle_state_to_json tc) (am_throttle_states am)) (\<lambda>_.
    put_states aggregation_prefix (aggregation_state_to_json (se_codec env) tc) (am_aggregation_states am))"
  obtain t r where t: "put_states throttle_prefix (throttle_state_to_json tc) (am_throttle_states am) (am_db am) = (t, r)"
    by fastforce
  have "outbox_abs env t = outbox_abs env (am_db am)"
    using put_states_outbox [of env throttle_prefix "throttle_state_to_json tc" "am_throttle_states am" "am_db am"] t by simp
  then have "outbox_abs env (fst (?m (am_db am))) = outbox_abs env (am_db am)"
    using t by (simp add: fst_bindS put_states_outbox split: sum.splits)
  moreover have "am_db (fst (sync_states_to_db env tc am)) = fst (?m (am_db am))"
    by (simp add: sync_states_to_db_def split: prod.splits)
  ultimately show ?thesis by simp
qed

lemma dispatch_keys:
  assumes "faultless (am_db am)"
  shows "oe_key ` set (outbox_abs env (am_db (fst (dispatch_payloads_batch env ps am)))) =
    oe_key ` set (outbox_abs env (am_db am)) \<union> idempotency_key (se_finish env) ` set ps"
    "faultless (am_db (fst (dispatch_payloads_batch env ps am)))"
    "snd (dispatch_payloads_batch env ps am) = Inr ()"
proof -
  let ?items = "map (\<lambda>p. (payload_action_name p, p)) ps"
  obtain t where t: "enqueue_outbox_batch env ?items (am_db am) = (t, Inr ())" "faultless t"
    using enqueue_live [OF assms] by blast
  have "oe_key ` set (outbox_abs env t) =
      oe_key ` set (outbox_abs env (am_db am)) \<union> idempotency_key (se_finish env) ` set ps"
    using sqlite.enqueue_keys [of env ?items "am_db am" t] t(1) by (simp add: sqlite_outbox_def image_image)
  then show "oe_key ` set (outbox_abs env (am_db (fst (dispatch_payloads_batch env ps am)))) =
    oe_key ` set (outbox_abs env (am_db am)) \<union> idempotency_key (se_finish env) ` set ps"
    "faultless (am_db (fst (dispatch_payloads_batch env ps am)))"
    "snd (dispatch_payloads_batch env ps am) = Inr ()"
    using t assms by (auto simp: dispatch_payloads_batch_def)
qed

lemma put_states_live:
  "faultless s \<Longrightarrow> \<exists>t. put_states prefix enc m s = (t, Inr ()) \<and> faultless t \<and>
     map_of (db_state t) = fold (\<lambda>(k, v) f. f(prefix @ k \<mapsto> enc v)) m (map_of (db_state s))"
  using sqlite_kv.put_all [of s "\<lambda>k. prefix @ k" enc m]
  unfolding put_states_def set_json_state_id [of enc] by simp

lemma sync_live:
  assumes "faultless (am_db am)"
  shows "snd (sync_states_to_db env tc am) = Inr () \<and> faultless (am_db (fst (sync_states_to_db env tc am))) \<and>
    map_of (db_state (am_db (fst (sync_states_to_db env tc am)))) =
      fold (\<lambda>(k, v) f. f(aggregation_prefix @ k \<mapsto> aggregation_state_to_json (se_codec env) tc v)) (am_aggregation_states am)
        (fold (\<lambda>(k, v) f. f(throttle_prefix @ k \<mapsto> throttle_state_to_json tc v)) (am_throttle_states am)
          (map_of (db_state (am_db am))))"
proof -
  obtain t where t: "put_states throttle_prefix (throttle_state_to_json tc) (am_throttle_states am) (am_db am) = (t, Inr ())"
    "faultless t" "map_of (db_state t) =
      fold (\<lambda>(k, v) f. f(throttle_prefix @ k \<mapsto> throttle_state_to_json tc v)) (am_throttle_states am) (map_of (db_state (am_db am)))"
    using put_states_live [OF assms] by blast
  obtain u where "put_states aggregation_prefix (aggregation_state_to_json (se_codec env) tc) (am_aggregation_states am) t = (u, Inr ())"
    "faultless u" "map_of (db_state u) = fold (\<lambda>(k, v) f. f(aggregation_prefix @ k \<mapsto>
      aggregation_state_to_json (se_codec env) tc v)) (am_aggregation_states am) (map_of (db_state t))"
    using put_states_live [OF t(2)] by blast
  then show ?thesis using t by (simp add: sync_states_to_db_def bindS_def)
qed

text \<open>Aggregation windows stay sets: whatever batches are handled, no action collects two matches with the
  same id, and it collects only matches addressed to it.\<close>

lemma aggregation_no_duplicates:
  assumes "windows_ok am"
  shows "distinct (map mm_id (pending (process_batches env bs am) a)) \<and>
    (\<forall>m \<in> set (pending (process_batches env bs am) a). mm_action_name m = a)"
proof -
  have "windows_ok (process_batches env bs am)"
    using assms by (induction bs arbitrary: am) (simp_all add: process_matches_batch_windows)
  then show ?thesis by (simp add: windows_ok_lookup)
qed

text \<open>The entries a dispatch appends: one for each payload whose key is new, with its action and its payload.\<close>

lemma dispatch_entries:
  assumes "faultless (am_db am)"
  shows "\<exists>new. outbox_abs env (am_db (fst (dispatch_payloads_batch env ps am))) = outbox_abs env (am_db am) @ new \<and>
    map (\<lambda>e. (oe_key e, oe_action e, oe_payload e, oe_retries e)) new =
    map (\<lambda>p. (idempotency_key (se_finish env) p, payload_action_name p,
                payload_of_json (se_codec env) (payload_to_json (se_codec env) p), 0))
      (fresh_items (idempotency_key (se_finish env)) (oe_key ` set (outbox_abs env (am_db am))) ps)"
proof -
  let ?items = "map (\<lambda>p. (payload_action_name p, p)) ps" and ?key = "idempotency_key (se_finish env)"
  obtain t where t: "enqueue_outbox_batch env ?items (am_db am) = (t, Inr ())" using enqueue_live [OF assms] by blast
  have "fresh_items (\<lambda>(a, p). ?key p) seen ?items = map (\<lambda>p. (payload_action_name p, p)) (fresh_items ?key seen ps)" for seen
    by (induction ps arbitrary: seen) (simp_all del: idempotency_key.simps)
  moreover have "am_db (fst (dispatch_payloads_batch env ps am)) = (if ps = [] then am_db am else t)"
    using t by (simp add: dispatch_payloads_batch_def)
  ultimately show ?thesis using enqueue_abs [OF t]
    by (cases "ps = []") (simp_all add: comp_def del: idempotency_key.simps)
qed

lemma flush_dispatches:
  "outbox_abs env (am_db (fst (alert_flush env tc now am))) =
     outbox_abs env (am_db (fst (dispatch_payloads_batch env (expired_payloads True now am) (am\<lparr>am_aggregation_states := expired_states True now am\<rparr>))))"
  by (simp add: alert_flush_def check_and_dispatch_expired_windows_def Let_def sync_outbox)

lemma expired_payload_actions:
  assumes "windows_ok am"
  shows "distinct (map payload_action_name (expired_payloads force now am))"
proof -
  have sub: "payload_action_name ` set (List.map_filter (\<lambda>(name, st). snd (expire_window acts force now name st)) xs) \<subseteq> fst ` set xs"
    for acts and xs :: "(string \<times> aggregation_state) list"
    by (induction xs) (auto simp: map_filter_simps expire_window_def split: option.splits if_splits action_policy.splits)
  have "distinct (map fst xs) \<Longrightarrow>
      distinct (map payload_action_name (List.map_filter (\<lambda>(name, st). snd (expire_window acts force now name st)) xs))"
    for acts and xs :: "(string \<times> aggregation_state) list"
  proof (induction xs)
    case (Cons x xs)
    have "snd (expire_window acts force now (fst x) (snd x)) = Some p \<Longrightarrow> payload_action_name p = fst x" for p
      by (auto simp: expire_window_def split: option.splits if_splits action_policy.splits)
    then have x: "payload_action_name ` set (case snd (expire_window acts force now (fst x) (snd x)) of None \<Rightarrow> [] | Some p \<Rightarrow> [p]) \<subseteq> {fst x}"
      by (auto split: option.splits)
    have "List.map_filter (\<lambda>(name, st). snd (expire_window acts force now name st)) (x # xs) =
        (case snd (expire_window acts force now (fst x) (snd x)) of None \<Rightarrow> [] | Some p \<Rightarrow> [p]) @
        List.map_filter (\<lambda>(name, st). snd (expire_window acts force now name st)) xs"
      by (simp add: map_filter_simps case_prod_beta' split: option.splits)
    moreover have "distinct (map payload_action_name (case snd (expire_window acts force now (fst x) (snd x)) of None \<Rightarrow> [] | Some p \<Rightarrow> [p]))"
      by (simp split: option.splits)
    moreover have "fst x \<notin> payload_action_name ` set (List.map_filter (\<lambda>(name, st). snd (expire_window acts force now name st)) xs)"
      using Cons.prems sub [of acts xs] by auto
    ultimately show ?case using Cons x by auto
  qed (simp add: map_filter_simps)
  then show ?thesis using assms by (simp add: expired_payloads_def windows_ok_def)
qed

text \<open>C30. Flushing hands every collected match over and forgets none: on a store that refuses nothing a flush
  succeeds and leaves no window with matches. It makes one payload for each action with an aggregation policy and collected matches,
  and appends to the outbox exactly one entry for each of these payloads, in order, with its key, its action and the payload in its
  stored form, except for payloads whose idempotency key is already in the outbox or was appended before, which \<open>INSERT OR IGNORE\<close>
  leaves out. Where the codec round-trips, each entry decodes to the collected matches of its action with the template of its policy.\<close>

theorem flush_hands_over:
  assumes "windows_ok am" "faultless (am_db am)" "alert_flush env tc now am = (am', r)"
  shows "r = Inr () \<and> (\<forall>a. pending am' a = []) \<and>
    (\<exists>ps new. set ps = {Aggregated a (pending am a) t | a t. pending am a \<noteq> [] \<and> window_due am True now a = Some t} \<and>
       distinct (map payload_action_name ps) \<and>
       outbox_abs env (am_db am') = outbox_abs env (am_db am) @ new \<and>
       map (\<lambda>e. (oe_key e, oe_action e, oe_payload e, oe_retries e)) new =
         map (\<lambda>p. (idempotency_key (se_finish env) p, payload_action_name p,
                     payload_of_json (se_codec env) (payload_to_json (se_codec env) p), 0))
           (fresh_items (idempotency_key (se_finish env)) (oe_key ` set (outbox_abs env (am_db am))) ps) \<and>
       (codec_ok (se_codec env) \<longrightarrow> (\<forall>a. list_all match_serialisable (pending am a)) \<longrightarrow>
          list_all (\<lambda>e. \<exists>t. window_due am True now (oe_action e) = Some t \<and>
            oe_payload e = Some (Aggregated (oe_action e) (pending am (oe_action e)) t)) new))"
proof -
  define am1 where "am1 = am\<lparr>am_aggregation_states := expired_states True now am\<rparr>"
  define am2 where "am2 = fst (dispatch_payloads_batch env (expired_payloads True now am) am1)"
  let ?ps = "expired_payloads True now am" and ?key = "idempotency_key (se_finish env)" and ?old = "oe_key ` set (outbox_abs env (am_db am))"
  have flush: "alert_flush env tc now am = sync_states_to_db env tc am2"
    by (simp add: alert_flush_def check_and_dispatch_expired_windows_def Let_def am1_def am2_def)
  have live1: "faultless (am_db am1)" using assms(2) by (simp add: am1_def)
  have empty: "pending am' a = []" for a
  proof -
    have "pending am' a = (case map_of (am_aggregation_states am) a of None \<Rightarrow> []
      | Some st \<Rightarrow> as_matches (fst (expire_window (am_actions am) True now a st)))"
      using pending_check [of env tc now True am a] assms(3) by (simp add: alert_flush_def)
    then show ?thesis
      by (auto simp: expire_window_def split: option.splits action_policy.splits)
  qed
  have "faultless (am_db am2)" using dispatch_keys(2) [OF live1] by (simp add: am2_def)
  then have "snd (sync_states_to_db env tc am2) = Inr ()" using sync_live by blast
  then have ok: "r = Inr ()" using flush assms(3) by (metis snd_conv)
  have ps: "set ?ps = {Aggregated a (pending am a) t | a t. pending am a \<noteq> [] \<and> window_due am True now a = Some t}"
    by (rule set_eqI) (auto simp: expired_payloads_iff [OF assms(1)])
  obtain new where new: "outbox_abs env (am_db am') = outbox_abs env (am_db am) @ new"
    "map (\<lambda>e. (oe_key e, oe_action e, oe_payload e, oe_retries e)) new =
     map (\<lambda>p. (?key p, payload_action_name p, payload_of_json (se_codec env) (payload_to_json (se_codec env) p), 0)) (fresh_items ?key ?old ?ps)"
    using dispatch_entries [OF live1, of env ?ps] flush_dispatches [of env tc now am] assms(3) by (auto simp: am1_def)
  have "\<exists>t. window_due am True now (oe_action e) = Some t \<and> oe_payload e = Some (Aggregated (oe_action e) (pending am (oe_action e)) t)"
    if codec: "codec_ok (se_codec env)" "\<forall>a. list_all match_serialisable (pending am a)" and e: "e \<in> set new" for e
  proof -
    have "(oe_key e, oe_action e, oe_payload e, oe_retries e) \<in> set (map (\<lambda>e. (oe_key e, oe_action e, oe_payload e, oe_retries e)) new)"
      using e by simp
    then obtain p where p: "p \<in> set (fresh_items ?key ?old ?ps)" "oe_action e = payload_action_name p"
      "oe_payload e = payload_of_json (se_codec env) (payload_to_json (se_codec env) p)" unfolding new(2) by auto
    then obtain a t where a: "p = Aggregated a (pending am a) t" "window_due am True now a = Some t"
      using subsetD [OF fresh_items_subset p(1)] unfolding ps by blast
    have "payload_of_json (se_codec env) (payload_to_json (se_codec env) p) = Some p"
      by (rule payload_roundtrip [OF codec(1)]) (use codec(2) a in \<open>simp add: list_all_iff\<close>)
    then show ?thesis using p a by simp
  qed
  then show ?thesis using ok empty ps expired_payload_actions [OF assms(1)] new
    by (intro conjI exI [of _ ?ps] exI [of _ new]) (simp_all add: list_all_iff del: idempotency_key.simps)
qed

section \<open>Surviving a restart\<close>

definition time_codec_ok :: "time_codec \<Rightarrow> bool" where
  "time_codec_ok tc \<longleftrightarrow> (\<forall>t. tc_dec tc (tc_enc tc t) = Some t)"

lemma throttle_state_roundtrip:
  "time_codec_ok tc \<Longrightarrow> throttle_state_of_json tc (throttle_state_to_json tc st) = Some st"
  using uint_lt2p [of "ts_count st"]
  by (simp add: throttle_state_of_json_def throttle_state_to_json_def time_codec_ok_def json_int_in_def)

lemma aggregation_state_roundtrip:
  "time_codec_ok tc \<Longrightarrow> codec_ok c \<Longrightarrow> \<forall>m \<in> set (as_matches st). match_serialisable m \<Longrightarrow>
     aggregation_state_of_json c tc (aggregation_state_to_json c tc st) = Some st"
  using matches_json_roundtrip [of c "as_matches st"]
  by (simp add: aggregation_state_of_json_def aggregation_state_to_json_def time_codec_ok_def)

lemma fold_update_other:
  "(\<And>k. k \<in> fst ` set m \<Longrightarrow> y \<noteq> p @ k) \<Longrightarrow> fold (\<lambda>(k, v) f. f(p @ k \<mapsto> g v)) m h y = h y"
  by (induction m arbitrary: h) auto

lemma fold_update_lookup:
  "distinct (map fst m) \<Longrightarrow> fold (\<lambda>(k, v) f. f(p @ k \<mapsto> g v)) m h (p @ x) =
     (case map_of m x of Some v \<Rightarrow> Some (g v) | None \<Rightarrow> h (p @ x))"
proof (induction m arbitrary: h)
  case (Cons y m)
  obtain k v where y: "y = (k, v)" by (cases y)
  show ?case
  proof (cases "x = k")
    case True
    then have "fold (\<lambda>(k, v) f. f(p @ k \<mapsto> g v)) m (h(p @ k \<mapsto> g v)) (p @ x) = (h(p @ k \<mapsto> g v)) (p @ x)"
      using Cons.prems y by (intro fold_update_other) force
    then show ?thesis using True by (simp add: y fun_upd_def)
  next
    case False
    then show ?thesis using Cons y by (simp split: option.splits)
  qed
qed simp

text \<open>Loading the rows of one prefix.\<close>

lemma load_states_map_of:
  assumes "\<forall>(k, v) \<in> set rows. \<exists>a. k = prefix @ a" "distinct (map fst rows)"
  shows "map_of (load_states prefix rows m) a =
    (case map_of rows (prefix @ a) of Some v \<Rightarrow> Some v | None \<Rightarrow> map_of m a)"
  using assms
proof (induction rows arbitrary: m)
  case (Cons x rows)
  obtain b v where x: "x = (prefix @ b, v)" using Cons.prems(1) by (cases x) auto
  have "map_of rows (prefix @ b) = None" using Cons.prems(2) x by (simp add: map_of_eq_None_iff)
  then show ?case using Cons x by (auto split: option.splits)
qed simp

definition saved_keys :: "db \<Rightarrow> string set" where
  "saved_keys s = fst ` set (db_state s)"

lemma throttle_like_aggregation: "\<not> sql_like None (throttle_prefix @ ''%'') (aggregation_prefix @ a)"
  "\<not> sql_like None (aggregation_prefix @ ''%'') (throttle_prefix @ a)"
  by (simp_all add: throttle_prefix_def aggregation_prefix_def to_ascii_lowercase_def)

lemma sql_like_self_prefix:
  assumes "CHR ''%'' \<notin> set p"
  shows "sql_like None (p @ ''%'') (p @ a)"
  using assms
proof (induction p)
  case Nil
  show ?case using sql_like_percent [of None "[]" "[]" a] by simp
qed auto

text \<open>The rows that the prefix query returns, decoded.\<close>

lemma prefix_rows:
  assumes live: "faultless s" and d: "distinct (map fst (db_state s))"
    and keys: "\<And>k v. (k, v) \<in> set (db_state s) \<Longrightarrow> sql_like None (prefix @ ''%'') k \<Longrightarrow> \<exists>a. k = prefix @ a"
    and dec: "\<And>a v. map_of (db_state s) (prefix @ a) = Some v \<Longrightarrow> sql_like None (prefix @ ''%'') (prefix @ a) \<and> dec v = Some (val a)"
  shows "\<exists>rows. get_all_json_states_by_prefix dec prefix s = (s\<lparr>db_queries := Suc (db_queries s)\<rparr>, Inr rows) \<and>
    (\<forall>a. map_of (load_states prefix rows []) a = (if prefix @ a \<in> saved_keys s then Some (val a) else None))"
proof -
  define sel where "sel = filter (\<lambda>(k, v). sql_like None (prefix @ ''%'') k) (db_state s)"
  have selk: "\<exists>a. k = prefix @ a \<and> map_of (db_state s) (prefix @ a) = Some v" if "(k, v) \<in> set sel" for k v
    using that keys d by (auto simp: sel_def)
  have "traverse (\<lambda>(k, v). mapR (Pair k) (ok_or (SerializationError k) (dec v))) sel =
      Inr (map (\<lambda>(k, v). (k, the (dec v))) sel)"
    by (rule traverse_map_Inr) (use selk dec in fastforce)
  then have "get_all_json_states_by_prefix dec prefix s =
      (s\<lparr>db_queries := Suc (db_queries s)\<rparr>, Inr (map (\<lambda>(k, v). (k, the (dec v))) sel))"
    using live by (auto simp: get_all_json_states_by_prefix_def bindS_Inr_iff select_Inr faultless_def sel_def)
  moreover have "map_of (load_states prefix (map (\<lambda>(k, v). (k, the (dec v))) sel) []) a =
      (if prefix @ a \<in> saved_keys s then Some (val a) else None)" for a
  proof -
    have "distinct (map fst sel)" using d by (simp add: sel_def distinct_map_filter)
    then have "distinct (map fst (map (\<lambda>(k, v). (k, the (dec v))) sel))" by (simp add: comp_def case_prod_beta')
    then have "map_of (load_states prefix (map (\<lambda>(k, v). (k, the (dec v))) sel) []) a =
        map_of (map (\<lambda>(k, v). (k, the (dec v))) sel) (prefix @ a)"
      using selk by (subst load_states_map_of) (fastforce split: option.splits)+
    also have "\<dots> = map_option (\<lambda>v. the (dec v)) (map_of sel (prefix @ a))"
      by (rule map_of_map_value)
    also have "map_of sel (prefix @ a) = map_of (db_state s) (prefix @ a)"
    proof (cases "map_of (db_state s) (prefix @ a)")
      case None
      then have "map_of sel (prefix @ a) = None" by (auto simp: sel_def map_of_eq_None_iff)
      then show ?thesis using None by simp
    next
      case (Some v)
      then have "(prefix @ a, v) \<in> set sel" using dec map_of_SomeD by (fastforce simp: sel_def)
      then show ?thesis using \<open>distinct (map fst sel)\<close> Some by simp
    qed
    also have "map_option (\<lambda>v. the (dec v)) (map_of (db_state s) (prefix @ a)) = (if prefix @ a \<in> saved_keys s then Some (val a) else None)"
      using dec by (auto simp: saved_keys_def map_of_eq_None_iff split: option.splits)
        (cases "map_of (db_state s) (prefix @ a)"; force simp: map_of_eq_None_iff)+
    finally show ?thesis .
  qed
  ultimately show ?thesis by blast
qed

text \<open>What was saved under a prefix is read back.\<close>

lemma read_back:
  assumes live: "faultless s" and d: "distinct (map fst (db_state s))"
    and keys: "\<And>k v. (k, v) \<in> set (db_state s) \<Longrightarrow> sql_like None (prefix @ ''%'') k \<Longrightarrow> \<exists>a. k = prefix @ a"
    and like: "\<And>a. sql_like None (prefix @ ''%'') (prefix @ a)"
    and view: "\<And>a. map_of (db_state s) (prefix @ a) = map_option enc (map_of m a)"
    and roundtrip: "\<And>a st. map_of m a = Some st \<Longrightarrow> dec (enc st) = Some st"
  shows "\<exists>rows. get_all_json_states_by_prefix dec prefix s = (s\<lparr>db_queries := Suc (db_queries s)\<rparr>, Inr rows) \<and>
    map_of (load_states prefix rows []) = map_of m"
proof -
  have dec: "sql_like None (prefix @ ''%'') (prefix @ a) \<and> dec v = Some (the (map_of m a))"
    if "map_of (db_state s) (prefix @ a) = Some v" for a v
    using that like roundtrip by (auto simp: view)
  then obtain rows where rows: "get_all_json_states_by_prefix dec prefix s = (s\<lparr>db_queries := Suc (db_queries s)\<rparr>, Inr rows)"
    "\<And>a. map_of (load_states prefix rows []) a = (if prefix @ a \<in> saved_keys s then Some (the (map_of m a)) else None)"
    using prefix_rows [where prefix = prefix and dec = dec and val = "\<lambda>a. the (map_of m a)", OF live d _ dec] keys by blast
  have "prefix @ a \<in> saved_keys s \<longleftrightarrow> map_of m a \<noteq> None" for a
    using view [of a] unfolding saved_keys_def by (metis map_of_eq_None_iff option.map_disc_iff)
  then have "map_of (load_states prefix rows []) = map_of m" using rows(2) by (auto simp: fun_eq_iff)
  then show ?thesis using rows(1) by blast
qed

lemma prefixes_differ [simp]: "throttle_prefix @ a \<noteq> aggregation_prefix @ b" "aggregation_prefix @ b \<noteq> throttle_prefix @ a"
  by (simp_all add: throttle_prefix_def aggregation_prefix_def)

lemma prefix_like [simp]: "sql_like None (throttle_prefix @ ''%'') (throttle_prefix @ a)"
  "sql_like None (aggregation_prefix @ ''%'') (aggregation_prefix @ a)"
  by (rule sql_like_self_prefix; simp add: throttle_prefix_def aggregation_prefix_def)+

text \<open>The keys in the store are those of the states in memory.\<close>

definition states_tracked :: "alert_manager \<Rightarrow> bool" where
  "states_tracked am \<longleftrightarrow>
     saved_keys (am_db am) \<subseteq>
       (\<lambda>a. throttle_prefix @ a) ` fst ` set (am_throttle_states am) \<union>
       (\<lambda>a. aggregation_prefix @ a) ` fst ` set (am_aggregation_states am)"

lemma put_states_ok: "db_ok s \<Longrightarrow> db_ok (fst (put_states prefix enc m s))"
  unfolding put_states_def
  by (rule foldS_invariant [where P = db_ok]) (auto intro: set_json_state_ok)

lemma sync_ok: "db_ok (am_db am) \<Longrightarrow> db_ok (am_db (fst (sync_states_to_db env tc am)))"
proof -
  assume ok: "db_ok (am_db am)"
  have "db_ok (fst (bindS (put_states throttle_prefix (throttle_state_to_json tc) (am_throttle_states am)) (\<lambda>_.
      put_states aggregation_prefix (aggregation_state_to_json (se_codec env) tc) (am_aggregation_states am)) (am_db am)))"
    by (intro db_ok.bindS_keeps put_states_ok ok)
  then show ?thesis by (auto simp: sync_states_to_db_def split: prod.splits)
qed

lemma sync_view:
  assumes "faultless (am_db am)" "states_tracked am"
    "distinct (map fst (am_throttle_states am))" "distinct (map fst (am_aggregation_states am))"
    and t_def: "t = am_db (fst (sync_states_to_db env tc am))"
  shows "map_of (db_state t) (throttle_prefix @ a) = map_option (throttle_state_to_json tc) (map_of (am_throttle_states am) a)"
    and "map_of (db_state t) (aggregation_prefix @ a) =
      map_option (aggregation_state_to_json (se_codec env) tc) (map_of (am_aggregation_states am) a)"
    and "saved_keys t \<subseteq> range (\<lambda>a. throttle_prefix @ a) \<union> range (\<lambda>a. aggregation_prefix @ a)"
proof -
  let ?T = "\<lambda>h. fold (\<lambda>(k, v) f. f(throttle_prefix @ k \<mapsto> throttle_state_to_json tc v)) (am_throttle_states am) h"
  let ?A = "\<lambda>h. fold (\<lambda>(k, v) f. f(aggregation_prefix @ k \<mapsto> aggregation_state_to_json (se_codec env) tc v)) (am_aggregation_states am) h"
  have view: "map_of (db_state t) = ?A (?T (map_of (db_state (am_db am))))"
    using sync_live [OF assms(1), of env tc] by (simp add: t_def)
  have old: "map_of (db_state (am_db am)) (throttle_prefix @ a) = None" if "map_of (am_throttle_states am) a = None"
  proof -
    have "throttle_prefix @ a \<notin> saved_keys (am_db am)"
      using that assms(2) by (auto simp: states_tracked_def map_of_eq_None_iff)
    then show ?thesis by (simp add: saved_keys_def map_of_eq_None_iff)
  qed
  have old': "map_of (db_state (am_db am)) (aggregation_prefix @ a) = None" if "map_of (am_aggregation_states am) a = None"
  proof -
    have "aggregation_prefix @ a \<notin> saved_keys (am_db am)"
      using that assms(2) by (auto simp: states_tracked_def map_of_eq_None_iff)
    then show ?thesis by (simp add: saved_keys_def map_of_eq_None_iff)
  qed
  show "map_of (db_state t) (throttle_prefix @ a) = map_option (throttle_state_to_json tc) (map_of (am_throttle_states am) a)"
    unfolding view
    by (subst fold_update_other) (simp_all add: fold_update_lookup [OF assms(3)] old split: option.splits)
  show "map_of (db_state t) (aggregation_prefix @ a) =
      map_option (aggregation_state_to_json (se_codec env) tc) (map_of (am_aggregation_states am) a)"
    unfolding view fold_update_lookup [OF assms(4)]
    by (subst fold_update_other) (simp_all add: old' split: option.splits)
  show "saved_keys t \<subseteq> range (\<lambda>a. throttle_prefix @ a) \<union> range (\<lambda>a. aggregation_prefix @ a)"
  proof
    fix k assume "k \<in> saved_keys t"
    then have ne: "map_of (db_state t) k \<noteq> None" by (simp add: saved_keys_def map_of_eq_None_iff)
    show "k \<in> range (\<lambda>a. throttle_prefix @ a) \<union> range (\<lambda>a. aggregation_prefix @ a)"
    proof (rule ccontr)
      assume out: "k \<notin> range (\<lambda>a. throttle_prefix @ a) \<union> range (\<lambda>a. aggregation_prefix @ a)"
      then have ks: "k \<noteq> throttle_prefix @ a" "k \<noteq> aggregation_prefix @ a" for a by auto
      have "map_of (db_state t) k = map_of (db_state (am_db am)) k"
        unfolding view by (simp add: fold_update_other ks)
      moreover have "k \<notin> saved_keys (am_db am)" using out assms(2) by (auto simp: states_tracked_def)
      ultimately show False using ne by (simp add: saved_keys_def map_of_eq_None_iff)
    qed
  qed
qed

text \<open>C25. Alert state survives a restart: after a successful sync, a manager built from the same database has
  exactly the throttle counters and aggregation windows the old one had in memory.\<close>

theorem sync_then_restart:
  assumes live: "faultless (am_db am)" and ok: "db_ok (am_db am)" and track: "states_tracked am"
    and codecs: "time_codec_ok tc" "codec_ok (se_codec env)"
    and keys: "distinct (map fst (am_throttle_states am))" "distinct (map fst (am_aggregation_states am))"
    and ser: "\<forall>(a, st) \<in> set (am_aggregation_states am). \<forall>m \<in> set (as_matches st). match_serialisable m"
    and sync: "sync_states_to_db env tc am = (am', r)"
  shows "r = Inr () \<and> (\<exists>am2. alert_manager_new env tc actions (am_db am') = Inr am2 \<and>
    map_of (am_throttle_states am2) = map_of (am_throttle_states am) \<and>
    map_of (am_aggregation_states am2) = map_of (am_aggregation_states am))"
proof -
  define t where "t = am_db am'"
  have r: "r = Inr ()" and lt: "faultless t" using sync_live [OF live, of env tc] sync by (auto simp: t_def)
  have okt: "distinct (map fst (db_state t))"
    using sync_ok [OF ok, of env tc] sync by (simp add: t_def db_ok_def keyed_ok_def)
  have view: "map_of (db_state t) (throttle_prefix @ a) = map_option (throttle_state_to_json tc) (map_of (am_throttle_states am) a)"
    "map_of (db_state t) (aggregation_prefix @ a) =
      map_option (aggregation_state_to_json (se_codec env) tc) (map_of (am_aggregation_states am) a)"
    "saved_keys t \<subseteq> range (\<lambda>a. throttle_prefix @ a) \<union> range (\<lambda>a. aggregation_prefix @ a)" for a
    using sync_view [OF live track keys, of t env tc] sync by (simp_all add: t_def)
  have cls: "(\<exists>a. k = throttle_prefix @ a) \<or> (\<exists>a. k = aggregation_prefix @ a)" if "(k, v) \<in> set (db_state t)" for k v
  proof -
    have "k \<in> saved_keys t" unfolding saved_keys_def using imageI [OF that, of fst] by simp
    then show ?thesis using view(3) by blast
  qed
  obtain th where th: "get_all_json_states_by_prefix (throttle_state_of_json tc) throttle_prefix t = (t\<lparr>db_queries := Suc (db_queries t)\<rparr>, Inr th)"
    "map_of (load_states throttle_prefix th []) = map_of (am_throttle_states am)"
    using read_back [OF lt okt _ prefix_like(1) view(1) throttle_state_roundtrip [OF codecs(1)]] cls throttle_like_aggregation(1) by blast
  let ?t = "t\<lparr>db_queries := Suc (db_queries t)\<rparr>"
  have t': "faultless ?t" "distinct (map fst (db_state ?t))" using lt okt by (simp_all add: faultless_def)
  have "\<exists>a. k = aggregation_prefix @ a" if "(k, v) \<in> set (db_state ?t)" "sql_like None (aggregation_prefix @ ''%'') k" for k v
    using that cls [of k v] throttle_like_aggregation(2) by auto
  moreover have "aggregation_state_of_json (se_codec env) tc (aggregation_state_to_json (se_codec env) tc st) = Some st"
    if "map_of (am_aggregation_states am) a = Some st" for a st
    by (rule aggregation_state_roundtrip [OF codecs]) (use ser map_of_SomeD [OF that] in auto)
  ultimately obtain ag where "get_all_json_states_by_prefix (aggregation_state_of_json (se_codec env) tc) aggregation_prefix ?t
      = (?t\<lparr>db_queries := Suc (db_queries ?t)\<rparr>, Inr ag)"
    "map_of (load_states aggregation_prefix ag []) = map_of (am_aggregation_states am)"
    using read_back [where enc = "aggregation_state_to_json (se_codec env) tc" and m = "am_aggregation_states am"
        and dec = "aggregation_state_of_json (se_codec env) tc", OF t' _ prefix_like(2)] view(2) by auto
  then show ?thesis using r th by (simp add: alert_manager_new_def flip: t_def)
qed

section \<open>The store behind the manager\<close>

text \<open>Whatever enqueueing and saving states preserve, every operation of the manager preserves.\<close>

lemma dispatch_keeps:
  assumes "\<And>items s. P s \<Longrightarrow> P (fst (enqueue_outbox_batch env items s))" "P (am_db am)"
  shows "P (am_db (fst (dispatch_payloads_batch env ps am)))"
  using assms(1) [OF assms(2), of "map (\<lambda>p. (payload_action_name p, p)) ps"] assms(2)
  by (auto simp: dispatch_payloads_batch_def split: prod.splits sum.splits)

lemma handle_throttle_keeps:
  assumes "\<And>items s. P s \<Longrightarrow> P (fst (enqueue_outbox_batch env items s))" "P (am_db am)"
  shows "P (am_db (fst (handle_throttle env now m policy am)))"
  using assms(2) dispatch_keeps [where P = P, OF assms(1)]
  by (auto simp: handle_throttle_def dispatch_payload_def Let_def split: prod.splits)

lemma process_loop_keeps:
  assumes enq: "\<And>items s. P s \<Longrightarrow> P (fst (enqueue_outbox_batch env items s))"
  shows "P (am_db am) \<Longrightarrow> P (am_db (fst (process_loop env ms im am))) \<and> (\<exists>im'. snd (process_loop env ms im am) = Inr im')"
proof (induction ms arbitrary: im am)
  case (Cons x ms)
  obtain now m where x: "x = (now, m)" by (cases x)
  show ?case unfolding x process_loop_step
    using Cons.IH Cons.prems handle_throttle_keeps [where P = P, OF enq Cons.prems]
    by (auto split: option.splits action_policy.splits)
qed simp

lemma process_matches_batch_keeps:
  assumes enq: "\<And>items s. P s \<Longrightarrow> P (fst (enqueue_outbox_batch env items s))" and "P (am_db am)"
  shows "P (am_db (fst (process_matches_batch env ms am)))"
  using process_loop_keeps [where P = P, OF enq assms(2), of ms "[]"] dispatch_keeps [where P = P, OF enq] assms(2)
  by (auto simp: process_matches_batch_def fst_bindS split: prod.splits)

lemma flush_db_ok:
  assumes "db_ok (am_db am)"
  shows "db_ok (am_db (fst (alert_flush env tc now am)))"
  unfolding alert_flush_def check_and_dispatch_expired_windows_def Let_def
  by (intro sync_ok dispatch_keeps [where P = db_ok] enqueue_db_ok) (use assms in simp_all)

text \<open>On a store that refuses nothing no operation fails.\<close>

lemma enqueue_faultless: "faultless s \<Longrightarrow> faultless (fst (enqueue_outbox_batch env items s))"
  using enqueue_live [of s env items] by auto

lemma process_matches_batch_live:
  assumes "faultless (am_db am)"
  shows "snd (process_matches_batch env ms am) = Inr () \<and> faultless (am_db (fst (process_matches_batch env ms am)))"
proof -
  have keeps: "faultless (am_db (fst (process_matches_batch env ms am)))"
    by (rule process_matches_batch_keeps [where P = faultless]) (auto intro: enqueue_faultless assms)
  obtain am' im where l: "process_loop env ms [] am = (am', Inr im)" "faultless (am_db am')"
    using process_loop_keeps [where P = faultless, OF enqueue_faultless assms, of env ms "[]"] by (metis prod.collapse)
  have "snd (dispatch_payloads_batch env im am') = Inr ()"
    using enqueue_live [OF l(2), of env "map (\<lambda>p. (payload_action_name p, p)) im"] by (auto simp: dispatch_payloads_batch_def)
  then show ?thesis using keeps l(1) by (simp add: process_matches_batch_def bindS_def)
qed

lemma flush_live:
  assumes "faultless (am_db am)"
  shows "snd (alert_flush env tc now am) = Inr () \<and> faultless (am_db (fst (alert_flush env tc now am)))"
proof -
  let ?am = "fst (dispatch_payloads_batch env (expired_payloads True now am) (am\<lparr>am_aggregation_states := expired_states True now am\<rparr>))"
  have "faultless (am_db ?am)" by (rule dispatch_keeps [where P = faultless]) (use assms in \<open>auto intro: enqueue_faultless\<close>)
  then show ?thesis using sync_live by (simp add: alert_flush_def check_and_dispatch_expired_windows_def Let_def)
qed

section \<open>No match is forgotten\<close>

lemma enqueue_extends: "set (outbox_abs env s) \<subseteq> set (outbox_abs env (fst (enqueue_outbox_batch env items s)))"
proof (cases "enqueue_outbox_batch env items s")
  case (Pair t r)
  then show ?thesis
    using enqueue_abs [of env items s t] enqueue_error [of env items s t] outbox_abs_same_tables [of s t env] by (cases r) auto
qed

definition outbox_keys :: "store_env \<Rightarrow> db \<Rightarrow> string set" where
  "outbox_keys env s = oe_key ` set (outbox_abs env s)"

text \<open>Between the batches and a flush: the match is queued, or its action's window holds a match with its id.\<close>

definition taken :: "store_env \<Rightarrow> alert_manager \<Rightarrow> monitor_match \<Rightarrow> bool" where
  "taken env am m =
     (case map_of (am_actions am) (mm_action_name m) of
        None \<Rightarrow> True
      | Some cfg \<Rightarrow>
          (case ac_policy cfg of
             None \<Rightarrow> idempotency_key (se_finish env) (Single m) \<in> outbox_keys env (am_db am)
           | Some (Throttle policy) \<Rightarrow> True
           | Some (Aggregation policy) \<Rightarrow> mm_id m \<in> mm_id ` set (pending am (mm_action_name m))))"

text \<open>After a flush: the match is queued alone, or in a payload of its action that holds a match with its id.\<close>

definition handed_over :: "store_env \<Rightarrow> (string \<times> action_config) list \<Rightarrow> db \<Rightarrow> monitor_match \<Rightarrow> bool" where
  "handed_over env actions s m =
     (case map_of actions (mm_action_name m) of
        None \<Rightarrow> True
      | Some cfg \<Rightarrow>
          (case ac_policy cfg of
             None \<Rightarrow> idempotency_key (se_finish env) (Single m) \<in> outbox_keys env s
           | Some (Throttle policy) \<Rightarrow> True
           | Some (Aggregation policy) \<Rightarrow> (\<exists>ms. mm_id m \<in> mm_id ` set ms \<and>
               idempotency_key (se_finish env) (Aggregated (mm_action_name m) ms (ap_template policy)) \<in> outbox_keys env s)))"

lemma enqueue_extends_keys: "outbox_keys env s \<subseteq> outbox_keys env (fst (enqueue_outbox_batch env items s))"
  unfolding outbox_keys_def by (rule image_mono [OF enqueue_extends])

lemma dispatch_extends: "outbox_keys env (am_db am) \<subseteq> outbox_keys env (am_db (fst (dispatch_payloads_batch env ps am)))"
  by (rule dispatch_keeps [where P = "\<lambda>s. outbox_keys env (am_db am) \<subseteq> outbox_keys env s"])
     (blast intro: enqueue_extends_keys [THEN subsetD], simp)

text \<open>What a step of the loop and the whole of it only add to.\<close>

definition extends :: "store_env \<Rightarrow> alert_manager \<Rightarrow> alert_manager \<Rightarrow> bool" where
  "extends env am am' \<longleftrightarrow> am_actions am' = am_actions am \<and> outbox_keys env (am_db am) \<subseteq> outbox_keys env (am_db am') \<and>
     (\<forall>a. set (pending am a) \<subseteq> set (pending am' a))"

lemma extends_trans: "extends env am am1 \<Longrightarrow> extends env am1 am2 \<Longrightarrow> extends env am am2"
  unfolding extends_def by (metis subset_trans)

lemma extends_steps:
  "extends env am (fst (handle_throttle env now m policy am))" "extends env am (fst (handle_aggregation now m am))"
  "extends env am (fst (dispatch_payloads_batch env ps am))"
proof -
  have "outbox_keys env (am_db am) \<subseteq> outbox_keys env (am_db (fst (handle_throttle env now m policy am)))"
    by (rule handle_throttle_keeps [where P = "\<lambda>s. outbox_keys env (am_db am) \<subseteq> outbox_keys env s"])
       (blast intro: enqueue_extends_keys [THEN subsetD], simp)
  then show "extends env am (fst (handle_throttle env now m policy am))"
    using pending_cong [OF handle_throttle_frame(2), of env now m policy am] by (simp add: extends_def)
  show "extends env am (fst (handle_aggregation now m am))"
    by (auto simp: extends_def pending_handle_aggregation)
  show "extends env am (fst (dispatch_payloads_batch env ps am))"
    using dispatch_extends pending_cong [OF dispatch_frame(3), of env ps am] by (simp add: extends_def dispatch_frame)
qed

lemma taken_mono: "taken env am m \<Longrightarrow> extends env am am' \<Longrightarrow> taken env am' m"
  by (auto simp: taken_def extends_def split: option.splits action_policy.splits)

text \<open>A match is taken at its step, or it is in the batch of immediate payloads.\<close>

lemma process_loop_advance:
  assumes "process_loop env ((now, m) # rest) im am = y"
  obtains im1 am1 where "process_loop env rest im1 am1 = y" "extends env am am1" "set im \<subseteq> set im1"
    "taken env am1 m \<or> direct am (Single m) \<and> Single m \<in> set im1"
proof (cases "map_of (am_actions am) (mm_action_name m)")
  case None
  then show ?thesis using assms that [of im am] by (simp add: process_loop_step extends_def taken_def)
next
  case (Some cfg)
  note eq = assms [unfolded process_loop_step Some option.case]
  show ?thesis
  proof (cases "ac_policy cfg")
    case None
    then show ?thesis using eq Some that [of "im @ [Single m]" am] by (auto simp: extends_def direct_def)
  next
    case policy: (Some policy)
    then show ?thesis using eq Some extends_steps [of env am]
      that [of im "fst (handle_aggregation now m am)"] that [of im "fst (handle_throttle env now m (case policy of Throttle p \<Rightarrow> p) am)"]
      by (cases policy) (auto simp: taken_def pending_handle_aggregation)
  qed
qed

lemma process_loop_takes:
  assumes "process_loop env ms im am = (am', Inr im')"
  shows "extends env am am' \<and> set im \<subseteq> set im' \<and> (\<forall>(now, m) \<in> set ms. taken env am' m \<or> direct am (Single m) \<and> Single m \<in> set im')"
  using assms
proof (induction ms arbitrary: im am)
  case (Cons x ms)
  obtain now m where x: "x = (now, m)" by (cases x)
  obtain im1 am1 where s: "process_loop env ms im1 am1 = (am', Inr im')" "extends env am am1" "set im \<subseteq> set im1"
    "taken env am1 m \<or> direct am (Single m) \<and> Single m \<in> set im1"
    using process_loop_advance [OF Cons.prems [unfolded x]] .
  have "extends env am am'" "set im1 \<subseteq> set im'" using Cons.IH [OF s(1)] extends_trans [OF s(2)] by auto
  then show ?case using Cons.IH [OF s(1)] s(2-4) taken_mono [of env am1 m am'] by (auto simp: x direct_def extends_def)
qed (simp add: extends_def)

lemma process_matches_batch_takes:
  assumes "process_matches_batch env ms am = (am', Inr ())"
  shows "extends env am am' \<and> (\<forall>(now, m) \<in> set ms. taken env am' m)"
proof (cases "ms = []")
  case False
  then obtain am1 im where l: "process_loop env ms [] am = (am1, Inr im)" "dispatch_payloads_batch env im am1 = (am', Inr ())"
    using assms process_loop_keeps [where P = "\<lambda>_. True", OF TrueI TrueI, of env ms "[]" am]
    by (auto simp: process_matches_batch_def bindS_def split: prod.splits)
  have keys: "idempotency_key (se_finish env) ` set im \<subseteq> outbox_keys env (am_db am')"
    using l(2) sqlite.enqueue_keys [of env "map (\<lambda>p. (payload_action_name p, p)) im" "am_db am1"]
    by (auto simp: dispatch_payloads_batch_def outbox_keys_def sqlite_outbox_def image_image split: if_splits prod.splits sum.splits)
  have ext: "extends env am1 am'" using extends_steps(3) [of env am1 im] l(2) by simp
  have acts: "am_actions am' = am_actions am" using process_loop_takes [OF l(1)] ext by (simp add: extends_def)
  have queued: "taken env am' m" if "direct am (Single m)" "Single m \<in> set im" for m
    using that(1) keys imageI [OF that(2), of "idempotency_key (se_finish env)"]
    by (auto simp: taken_def direct_def acts simp del: idempotency_key.simps)
  have "taken env am' m" if "(now, m) \<in> set ms" for now m
    using process_loop_takes [OF l(1)] that queued taken_mono [OF _ ext] by blast
  then show ?thesis using process_loop_takes [OF l(1)] extends_trans [OF _ ext] by auto
qed (use assms in \<open>simp add: process_matches_batch_def extends_def\<close>)

lemma flush_extends_keys: "outbox_keys env (am_db am) \<subseteq> outbox_keys env (am_db (fst (alert_flush env tc now am)))"
  using dispatch_extends [of env "am\<lparr>am_aggregation_states := expired_states True now am\<rparr>" "expired_payloads True now am"]
  by (simp add: alert_flush_def check_and_dispatch_expired_windows_def Let_def sync_outbox outbox_keys_def)

lemma flush_hands_over_taken:
  assumes "faultless (am_db am)" "taken env am m"
  shows "handed_over env (am_actions am) (am_db (fst (alert_flush env tc now am))) m"
proof -
  let ?ps = "expired_payloads True now am"
  have keys: "outbox_keys env (am_db (fst (alert_flush env tc now am))) =
      outbox_keys env (am_db am) \<union> idempotency_key (se_finish env) ` set ?ps"
    using dispatch_keys(1) [of "am\<lparr>am_aggregation_states := expired_states True now am\<rparr>" env ?ps] assms(1)
    by (simp add: alert_flush_def check_and_dispatch_expired_windows_def Let_def sync_outbox outbox_keys_def)
  have "Aggregated (mm_action_name m) (pending am (mm_action_name m)) (ap_template policy) \<in> set ?ps"
    if cfg: "map_of (am_actions am) (mm_action_name m) = Some cfg" "ac_policy cfg = Some (Aggregation policy)"
      and id: "mm_id m \<in> mm_id ` set (pending am (mm_action_name m))" for cfg policy
  proof -
    obtain st where st: "map_of (am_aggregation_states am) (mm_action_name m) = Some st" "as_matches st \<noteq> []"
      "pending am (mm_action_name m) = as_matches st"
      using id by (cases "map_of (am_aggregation_states am) (mm_action_name m)") (auto simp: pending_def elim: list.set_cases)
    then have "snd (expire_window (am_actions am) True now (mm_action_name m) st) =
        Some (Aggregated (mm_action_name m) (as_matches st) (ap_template policy))"
      using cfg by (simp add: expire_window_def)
    then show ?thesis using map_of_SomeD [OF st(1)] st(3) by (force simp: expired_payloads_def map_filter_def)
  qed
  then show ?thesis using assms(2)
    by (auto simp: handed_over_def taken_def keys simp del: idempotency_key.simps split: option.splits action_policy.splits)
qed


section \<open>Witnesses\<close>

definition throttled_action :: action_config where
  "throttled_action = sample_action\<lparr>ac_policy := Some (Throttle \<lparr>tp_max_count = 1, tp_time_window_secs = 60\<rparr>)\<rparr>"

definition digest_action :: action_config where
  "digest_action = sample_action\<lparr>ac_policy := Some (Aggregation \<lparr>ap_window_secs = 60, ap_template = \<lparr>nm_title = ''t'', nm_body = ''b''\<rparr>\<rparr>)\<rparr>"

definition sample_manager :: "action_config \<Rightarrow> alert_manager" where
  "sample_manager cfg = \<lparr>am_db = empty_db, am_actions = [(''slack-1'', cfg)], am_generated_alerts = [], am_throttle_states = [],
     am_aggregation_states = []\<rparr>"

lemma throttle_limits_example:
  "queued sample_env ''slack-1'' (process_batches sample_env [[(0, sample_match 1), (5, sample_match 2)], [(60, sample_match 3)]]
     (sample_manager throttled_action)) \<le> 1"
  using throttle_limits [of "sample_manager throttled_action" "''slack-1''" throttled_action "\<lparr>tp_max_count = 1, tp_time_window_secs = 60\<rparr>"
      "[[(0, sample_match 1), (5, sample_match 2)], [(60, sample_match 3)]]" 0 sample_env]
  by (simp add: sample_manager_def throttled_action_def queued_def outbox_abs_def empty_db_def)

definition digest_manager :: alert_manager where
  "digest_manager = (sample_manager digest_action)\<lparr>am_aggregation_states :=
     [(''slack-1'', \<lparr>as_matches = [sample_match 1, sample_match 2], as_window_start_time = 0\<rparr>)]\<rparr>"

lemma sample_match_ids: "mm_id (sample_match 1) \<noteq> mm_id (sample_match 2)"
proof -
  have "match_slot (mb_match_data (sample_builder 1)) \<noteq> match_slot (mb_match_data (sample_builder 2))"
    by (simp add: sample_defs)
  then show ?thesis
    using match_id_unique_fields [OF hex_codec_display, of "sample_builder 1" "sample_builder 2"] by (auto simp: sample_match_def)
qed

lemma digest_manager_ok: "windows_ok digest_manager" "faultless (am_db digest_manager)" "db_ok (am_db digest_manager)"
  using sample_match_ids empty_db_ok empty_db_faultless
  by (simp_all add: digest_manager_def windows_ok_def sample_manager_def) (simp_all add: sample_defs)

lemma aggregation_no_duplicates_example:
  "distinct (map mm_id (pending (process_batches sample_env [[(7, sample_match 2), (8, sample_match 3)]] digest_manager) ''slack-1''))"
  using aggregation_no_duplicates [OF digest_manager_ok(1), of sample_env "[[(7, sample_match 2), (8, sample_match 3)]]" "''slack-1''"]
  by simp

definition hex_time :: time_codec where
  "hex_time = \<lparr>tc_enc = (\<lambda>t. (if t < 0 then CHR ''-'' else CHR ''+'') # show_hex (nat (abs t))),
     tc_dec = (\<lambda>s. case s of [] \<Rightarrow> None
       | c # cs \<Rightarrow> Some (if c = CHR ''-'' then - int (parse_hex cs) else int (parse_hex cs)))\<rparr>"

lemma hex_time_ok: "time_codec_ok hex_time"
  by (simp add: time_codec_ok_def hex_time_def)

theorem flush_hands_over_witness:
  "snd (alert_flush sample_env hex_time 10 digest_manager) = Inr () \<and>
   pending (fst (alert_flush sample_env hex_time 10 digest_manager)) ''slack-1'' = [] \<and>
   (\<exists>new. outbox_abs sample_env (am_db (fst (alert_flush sample_env hex_time 10 digest_manager))) =
      outbox_abs sample_env (am_db digest_manager) @ new)"
  using flush_hands_over [OF digest_manager_ok(1,2), of sample_env hex_time 10
      "fst (alert_flush sample_env hex_time 10 digest_manager)" "snd (alert_flush sample_env hex_time 10 digest_manager)"]
  by (simp del: idempotency_key.simps) blast

theorem sync_then_restart_witness:
  "\<exists>am2. alert_manager_new sample_env hex_time [] (am_db (fst (sync_states_to_db sample_env hex_time digest_manager))) = Inr am2 \<and>
     map_of (am_aggregation_states am2) = map_of (am_aggregation_states digest_manager)"
proof -
  have "states_tracked digest_manager" "codec_ok (se_codec sample_env)"
    by (simp_all add: states_tracked_def saved_keys_def digest_manager_def sample_manager_def empty_db_def sample_env_def hex_codec_ok)
  then show ?thesis
    using sync_then_restart [OF digest_manager_ok(2,3), of hex_time sample_env
        "fst (sync_states_to_db sample_env hex_time digest_manager)" "snd (sync_states_to_db sample_env hex_time digest_manager)" "[]"]
      hex_time_ok sample_match_serialisable
    by (auto simp: digest_manager_def sample_manager_def)
qed

end
