(* ===== verification/Argus_Abi.thy ===== *)
theory Argus_Abi
  imports Argus_Models
begin

text \<open>
  The ABI service, \<open>crates/argus-abi/src\<close>: named ABIs, the per-address cache, the global contracts
  with their event and function indexes, event peeking, and the decoding of logs and calls.

  Selectors, the parsing of Solidity types and the ABI codec belong to the blockchain library and are
  fields of the parameter \<open>abi_lib\<close>. A panic (\<open>expect\<close>) is \<open>None\<close>. Shared pointers to
  contracts are the contracts themselves.
\<close>

section \<open>Solidity types and values\<close>

datatype sol_type =
    TBool | TInt nat | TUint nat | TFixedBytes nat | TAddress | TFunction | TBytes | TString
  | TArray sol_type | TFixedArray sol_type nat | TTuple "sol_type list"

datatype sol_value =
    VBool bool | VInt int nat | VUint nat nat | VFixedBytes "u8 list" nat | VAddress address | VFunction "u8 list"
  | VBytes "u8 list" | VString string | VArray "sol_value list" | VFixedArray "sol_value list" | VTuple "sol_value list"

record abi_param =
  ap_name :: string
  ap_ty :: string
  ap_indexed :: bool

record abi_event =
  ev_name :: string
  ev_inputs :: "abi_param list"

record abi_function =
  fn_name :: string
  fn_inputs :: "abi_param list"

text \<open>A parsed ABI; \<open>ja_arc\<close> identifies the shared allocation, which the interest registry compares.\<close>

record json_abi =
  ja_arc :: nat
  ja_functions :: "abi_function list"
  ja_events :: "abi_event list"

type_synonym selector = u32

record abi_lib =
  al_event_selector :: "abi_event \<Rightarrow> b256"
  al_function_selector :: "abi_function \<Rightarrow> selector"
  al_parse_type :: "string \<Rightarrow> sol_type option"
  al_decode_log_parts :: "abi_event \<Rightarrow> b256 list \<Rightarrow> u8 list \<Rightarrow> string + sol_value list \<times> sol_value list"
  al_abi_decode :: "sol_type \<Rightarrow> u8 list \<Rightarrow> string + sol_value"

record decoded_log =
  dl_name :: string
  dl_params :: "(string \<times> sol_value) list"
  dl_log :: evm_log

record decoded_call =
  dc_name :: string
  dc_params :: "(string \<times> sol_value) list"

section \<open>Cached contracts\<close>

record cached_contract =
  cc_functions :: "(selector \<times> abi_function) list"
  cc_events :: "(b256 \<times> abi_event) list"
  cc_abi :: json_abi
  cc_function_input_types :: "(selector \<times> sol_type list) list"

text \<open>\<open>collect::<HashMap<_, _>>()\<close>: later entries replace earlier ones.\<close>

definition collect_map :: "('k \<times> 'v) list \<Rightarrow> ('k \<times> 'v) list" where
  "collect_map kvs = fold (\<lambda>(k, v) m. AList.update k v m) kvs []"

definition parse_input_types :: "abi_lib \<Rightarrow> abi_function \<Rightarrow> sol_type list option" where
  "parse_input_types lib f = those (map (\<lambda>p. al_parse_type lib (ap_ty p)) (fn_inputs f))"

definition cached_contract_from :: "abi_lib \<Rightarrow> json_abi \<Rightarrow> cached_contract option" where
  "cached_contract_from lib abi =
     map_option (\<lambda>types.
       \<lparr>cc_functions = collect_map (map (\<lambda>f. (al_function_selector lib f, f)) (ja_functions abi)),
        cc_events = collect_map (map (\<lambda>e. (al_event_selector lib e, e)) (ja_events abi)), cc_abi = abi,
        cc_function_input_types = collect_map (zip (map (al_function_selector lib) (ja_functions abi)) types)\<rparr>)
       (those (map (parse_input_types lib) (ja_functions abi)))"

section \<open>The service\<close>

datatype abi_error =
    AbiNotFound address
  | AbiNotFoundInRegistry string
  | EventNotFound b256 address
  | FunctionNotFound selector address
  | ContractCreation
  | InputTooShort nat
  | LogHasNoTopics address
  | DecodingError address string string

record abi_service =
  sv_named_abis :: "(string \<times> json_abi) list"
  sv_address_specific_cache :: "(address \<times> cached_contract) list"
  sv_global_contracts :: "(string \<times> cached_contract) list"
  sv_global_event_index :: "(b256 \<times> cached_contract list) list"
  sv_global_function_index :: "(selector \<times> cached_contract list) list"

definition abi_service_new :: abi_service where
  "abi_service_new = \<lparr>sv_named_abis = [], sv_address_specific_cache = [], sv_global_contracts = [],
     sv_global_event_index = [], sv_global_function_index = []\<rparr>"

definition register_abi :: "string \<Rightarrow> json_abi \<Rightarrow> abi_service \<Rightarrow> abi_service \<times> json_abi option" where
  "register_abi name abi sv =
     (sv\<lparr>sv_named_abis := AList.update name abi (sv_named_abis sv)\<rparr>, map_of (sv_named_abis sv) name)"

fun register_abis :: "(string \<times> json_abi) list \<Rightarrow> abi_service \<Rightarrow> abi_service" where
  "register_abis [] sv = sv"
| "register_abis ((name, abi) # rest) sv = register_abis rest (fst (register_abi name abi sv))"

definition from_named_abis :: "(string \<times> json_abi) list \<Rightarrow> abi_service" where
  "from_named_abis abis = register_abis abis abi_service_new"

definition get_abi_by_name :: "abi_service \<Rightarrow> string \<Rightarrow> json_abi option" where
  "get_abi_by_name sv name = map_of (sv_named_abis sv) name"

definition lookup_named_abi :: "abi_service \<Rightarrow> string \<Rightarrow> abi_error + json_abi" where
  "lookup_named_abi sv name = ok_or (AbiNotFoundInRegistry name) (get_abi_by_name sv name)"

text \<open>The index loops: \<open>entry(k).or_default().push(contract)\<close> for every key.\<close>

definition index_keys :: "'k list \<Rightarrow> 'c \<Rightarrow> ('k \<times> 'c list) list \<Rightarrow> ('k \<times> 'c list) list" where
  "index_keys ks c m = fold (\<lambda>k. entry_update k [] (\<lambda>cs. cs @ [c])) ks m"

definition add_global_abi :: "abi_lib \<Rightarrow> string \<Rightarrow> abi_service \<Rightarrow> (abi_error + abi_service) option" where
  "add_global_abi lib name sv =
     (case lookup_named_abi sv name of
        Inl e \<Rightarrow> Some (Inl e)
      | Inr abi \<Rightarrow>
          map_option (\<lambda>c. Inr (sv\<lparr>sv_global_contracts := AList.update name c (sv_global_contracts sv),
              sv_global_event_index := index_keys (map fst (cc_events c)) c (sv_global_event_index sv),
              sv_global_function_index := index_keys (map fst (cc_functions c)) c (sv_global_function_index sv)\<rparr>))
            (cached_contract_from lib abi))"

definition link_abi :: "abi_lib \<Rightarrow> address \<Rightarrow> string \<Rightarrow> abi_service \<Rightarrow> (abi_error + abi_service) option" where
  "link_abi lib addr name sv =
     (case lookup_named_abi sv name of
        Inl e \<Rightarrow> Some (Inl e)
      | Inr abi \<Rightarrow>
          map_option (\<lambda>c. Inr (sv\<lparr>sv_address_specific_cache := AList.update addr c (sv_address_specific_cache sv)\<rparr>))
            (cached_contract_from lib abi))"

definition remove_abi :: "address \<Rightarrow> abi_service \<Rightarrow> abi_service \<times> bool" where
  "remove_abi addr sv =
     (sv\<lparr>sv_address_specific_cache := AList.delete addr (sv_address_specific_cache sv)\<rparr>,
      map_of (sv_address_specific_cache sv) addr \<noteq> None)"

definition is_monitored :: "abi_service \<Rightarrow> address \<Rightarrow> bool" where
  "is_monitored sv addr = (map_of (sv_address_specific_cache sv) addr \<noteq> None)"

definition cache_size :: "abi_service \<Rightarrow> nat" where
  "cache_size sv = length (sv_address_specific_cache sv)"

definition get_cached_abi :: "abi_service \<Rightarrow> address \<Rightarrow> cached_contract option" where
  "get_cached_abi sv addr = map_of (sv_address_specific_cache sv) addr"

definition has_global_abi :: "abi_service \<Rightarrow> string \<Rightarrow> bool" where
  "has_global_abi sv name = (map_of (sv_global_contracts sv) name \<noteq> None)"

section \<open>Logs\<close>

fun find_event :: "b256 \<Rightarrow> cached_contract list \<Rightarrow> abi_event option" where
  "find_event t [] = None"
| "find_event t (c # cs) = (case map_of (cc_events c) t of Some e \<Rightarrow> Some e | None \<Rightarrow> find_event t cs)"

definition peek_event_name :: "abi_service \<Rightarrow> evm_log \<Rightarrow> abi_event option" where
  "peek_event_name sv log =
     (case log_topics log of
        [] \<Rightarrow> None
      | topic0 # _ \<Rightarrow>
          (case Option.bind (map_of (sv_address_specific_cache sv) (log_address log)) (\<lambda>c. map_of (cc_events c) topic0) of
             Some e \<Rightarrow> Some e
           | None \<Rightarrow> Option.bind (map_of (sv_global_event_index sv) topic0) (find_event topic0)))"

definition decode_log_direct :: "abi_lib \<Rightarrow> evm_log \<Rightarrow> abi_event \<Rightarrow> abi_error + decoded_log" where
  "decode_log_direct lib log event =
     bindR (map_err (DecodingError (log_address log) (''event '' @ ev_name event))
              (al_decode_log_parts lib event (log_topics log) (log_data log)))
       (\<lambda>(indexed, body).
          Inr \<lparr>dl_name = ev_name event, dl_params = zip (map ap_name (ev_inputs event)) (indexed @ body), dl_log = log\<rparr>)"

definition try_decode_log_from_address ::
  "abi_lib \<Rightarrow> abi_service \<Rightarrow> evm_log \<Rightarrow> b256 \<Rightarrow> (abi_error + decoded_log) option" where
  "try_decode_log_from_address lib sv log sig =
     Option.bind (map_of (sv_address_specific_cache sv) (log_address log)) (\<lambda>c.
       map_option (decode_log_direct lib log) (map_of (cc_events c) sig))"

fun decode_log_from :: "abi_lib \<Rightarrow> evm_log \<Rightarrow> b256 \<Rightarrow> abi_error option \<Rightarrow> cached_contract list \<Rightarrow> (abi_error + decoded_log) option" where
  "decode_log_from lib log sig last_error [] = map_option Inl last_error"
| "decode_log_from lib log sig last_error (c # cs) =
     (case map_of (cc_events c) sig of
        None \<Rightarrow> decode_log_from lib log sig last_error cs
      | Some event \<Rightarrow>
          (case decode_log_direct lib log event of
             Inr decoded \<Rightarrow> Some (Inr decoded)
           | Inl e \<Rightarrow> decode_log_from lib log sig (Some e) cs))"

definition try_decode_log_from_global ::
  "abi_lib \<Rightarrow> abi_service \<Rightarrow> evm_log \<Rightarrow> b256 \<Rightarrow> (abi_error + decoded_log) option" where
  "try_decode_log_from_global lib sv log sig =
     Option.bind (map_of (sv_global_event_index sv) sig) (decode_log_from lib log sig None)"

definition decode_log :: "abi_lib \<Rightarrow> abi_service \<Rightarrow> evm_log \<Rightarrow> abi_error + decoded_log" where
  "decode_log lib sv log =
     (case log_topics log of
        [] \<Rightarrow> Inl (LogHasNoTopics (log_address log))
      | sig # _ \<Rightarrow>
          (case try_decode_log_from_address lib sv log sig of
             Some r \<Rightarrow> r
           | None \<Rightarrow>
               (case try_decode_log_from_global lib sv log sig of
                  Some r \<Rightarrow> r
                | None \<Rightarrow> Inl (EventNotFound sig (log_address log)))))"

section \<open>Calls\<close>

definition selector_of_bytes :: "u8 list \<Rightarrow> selector" where
  "selector_of_bytes bs = foldl (\<lambda>acc b. acc * 256 + ucast b) 0 (take 4 bs)"

definition extract_address_and_selector :: "evm_tx \<Rightarrow> abi_error + address \<times> selector" where
  "extract_address_and_selector tx =
     (case tx_to tx of
        None \<Rightarrow> Inl ContractCreation
      | Some addr \<Rightarrow>
          if length (tx_input tx) < 4 then Inl (InputTooShort (length (tx_input tx)))
          else Inr (addr, selector_of_bytes (tx_input tx)))"

definition decode_function_direct :: "abi_lib \<Rightarrow> evm_tx \<Rightarrow> abi_function \<Rightarrow> sol_type list \<Rightarrow> abi_error + decoded_call" where
  "decode_function_direct lib tx f types =
     (let addr = (case tx_to tx of Some a \<Rightarrow> a | None \<Rightarrow> 0)
      in bindR (map_err (DecodingError addr (''function '' @ fn_name f))
           (al_abi_decode lib (TTuple types) (drop 4 (tx_input tx))))
         (\<lambda>v. case v of
            VTuple tokens \<Rightarrow> Inr \<lparr>dc_name = fn_name f, dc_params = zip (map ap_name (fn_inputs f)) tokens\<rparr>
          | _ \<Rightarrow> Inl (DecodingError addr (''function '' @ fn_name f) ''type mismatch'')))"

definition try_decode_function_from_address ::
  "abi_lib \<Rightarrow> abi_service \<Rightarrow> evm_tx \<Rightarrow> address \<Rightarrow> selector \<Rightarrow> (abi_error + decoded_call) option" where
  "try_decode_function_from_address lib sv tx addr sel =
     Option.bind (map_of (sv_address_specific_cache sv) addr) (\<lambda>c.
     Option.bind (map_of (cc_function_input_types c) sel) (\<lambda>types.
     map_option (\<lambda>f. decode_function_direct lib tx f types) (map_of (cc_functions c) sel)))"

fun decode_function_from :: "abi_lib \<Rightarrow> evm_tx \<Rightarrow> selector \<Rightarrow> cached_contract list \<Rightarrow> (abi_error + decoded_call) option" where
  "decode_function_from lib tx sel [] = None"
| "decode_function_from lib tx sel (c # cs) =
     (case map_of (cc_functions c) sel of
        Some f \<Rightarrow> map_option (decode_function_direct lib tx f) (map_of (cc_function_input_types c) sel)
      | None \<Rightarrow> decode_function_from lib tx sel cs)"

definition try_decode_function_from_global ::
  "abi_lib \<Rightarrow> abi_service \<Rightarrow> evm_tx \<Rightarrow> selector \<Rightarrow> (abi_error + decoded_call) option" where
  "try_decode_function_from_global lib sv tx sel =
     Option.bind (map_of (sv_global_function_index sv) sel) (decode_function_from lib tx sel)"

definition decode_function_input :: "abi_lib \<Rightarrow> abi_service \<Rightarrow> evm_tx \<Rightarrow> abi_error + decoded_call" where
  "decode_function_input lib sv tx =
     bindR (extract_address_and_selector tx) (\<lambda>(addr, sel).
       case try_decode_function_from_address lib sv tx addr sel of
         Some r \<Rightarrow> r
       | None \<Rightarrow>
           (case try_decode_function_from_global lib sv tx sel of
              Some r \<Rightarrow> r
            | None \<Rightarrow> Inl (FunctionNotFound sel addr)))"

section \<open>The invariant of the service\<close>

text \<open>Every indexed contract defines the event or function it is indexed under, and the key of an event or
  function is its selector.\<close>

definition contract_ok :: "abi_lib \<Rightarrow> cached_contract \<Rightarrow> bool" where
  "contract_ok lib c \<longleftrightarrow>
     (\<forall>t e. map_of (cc_events c) t = Some e \<longrightarrow> al_event_selector lib e = t) \<and>
     (\<forall>s f. map_of (cc_functions c) s = Some f \<longrightarrow> al_function_selector lib f = s) \<and>
     dom (map_of (cc_function_input_types c)) = dom (map_of (cc_functions c))"

definition abi_service_ok :: "abi_lib \<Rightarrow> abi_service \<Rightarrow> bool" where
  "abi_service_ok lib sv \<longleftrightarrow>
     (\<forall>a c. map_of (sv_address_specific_cache sv) a = Some c \<longrightarrow> contract_ok lib c) \<and>
     (\<forall>t cs. map_of (sv_global_event_index sv) t = Some cs \<longrightarrow> (\<forall>c \<in> set cs. contract_ok lib c \<and> map_of (cc_events c) t \<noteq> None)) \<and>
     (\<forall>s cs. map_of (sv_global_function_index sv) s = Some cs \<longrightarrow> (\<forall>c \<in> set cs. contract_ok lib c \<and> map_of (cc_functions c) s \<noteq> None))"

lemma fold_update_map_of: "map_of (fold (\<lambda>(k, v) m. AList.update k v m) kvs m) = map_of m ++ map_of (rev kvs)"
  by (induction kvs arbitrary: m) (auto simp: map_add_def fun_eq_iff split: option.splits)

lemma collect_map_lookup: "map_of (collect_map kvs) = map_of (rev kvs)"
  by (simp add: collect_map_def fold_update_map_of)

lemma those_length: "those xs = Some ys \<Longrightarrow> length ys = length xs"
  by (induction xs arbitrary: ys) (auto split: option.splits)

lemma cached_contract_from_ok:
  assumes "cached_contract_from lib abi = Some c"
  shows "contract_ok lib c"
proof -
  obtain types where t: "those (map (parse_input_types lib) (ja_functions abi)) = Some types"
    and c: "c = \<lparr>cc_functions = collect_map (map (\<lambda>f. (al_function_selector lib f, f)) (ja_functions abi)),
        cc_events = collect_map (map (\<lambda>e. (al_event_selector lib e, e)) (ja_events abi)), cc_abi = abi,
        cc_function_input_types = collect_map (zip (map (al_function_selector lib) (ja_functions abi)) types)\<rparr>"
    using assms by (auto simp: cached_contract_from_def)
  have "length types = length (ja_functions abi)" using those_length [OF t] by simp
  then have "dom (map_of (cc_function_input_types c)) = dom (map_of (cc_functions c))"
    by (simp add: c collect_map_lookup dom_map_of_conv_image_fst comp_def flip: set_map)
  then show ?thesis
    by (auto simp: contract_ok_def) (auto simp: c collect_map_lookup dest!: map_of_SomeD)
qed

lemma index_keys_lookup:
  "map_of (index_keys ks c m) t = Some cs \<Longrightarrow> x \<in> set cs \<Longrightarrow>
     (\<exists>old. map_of m t = Some old \<and> x \<in> set old) \<or> (x = c \<and> t \<in> set ks)"
proof (induction ks arbitrary: m)
  case (Cons k ks)
  from Cons.IH [of "entry_update k [] (\<lambda>cs. cs @ [c]) m"] Cons.prems show ?case
    by (cases "map_of m k") (auto simp: index_keys_def map_of_entry_update split: if_splits)
qed (simp add: index_keys_def)

lemma add_global_abi_ok:
  assumes "abi_service_ok lib sv" "add_global_abi lib name sv = Some (Inr sv')"
  shows "abi_service_ok lib sv'"
proof -
  obtain abi c where c: "cached_contract_from lib abi = Some c"
    and sv': "sv' = sv\<lparr>sv_global_contracts := AList.update name c (sv_global_contracts sv),
              sv_global_event_index := index_keys (map fst (cc_events c)) c (sv_global_event_index sv),
              sv_global_function_index := index_keys (map fst (cc_functions c)) c (sv_global_function_index sv)\<rparr>"
    using assms(2) by (auto simp: add_global_abi_def split: sum.splits)
  note ok = cached_contract_from_ok [OF c]
  have "contract_ok lib x \<and> map_of (cc_events x) t \<noteq> None"
    if "map_of (index_keys (map fst (cc_events c)) c (sv_global_event_index sv)) t = Some cs" "x \<in> set cs" for t cs x
    using index_keys_lookup [OF that] assms(1) ok by (auto simp: abi_service_ok_def map_of_eq_None_iff)
  moreover have "contract_ok lib x \<and> map_of (cc_functions x) t \<noteq> None"
    if "map_of (index_keys (map fst (cc_functions c)) c (sv_global_function_index sv)) t = Some cs" "x \<in> set cs" for t cs x
    using index_keys_lookup [OF that] assms(1) ok by (auto simp: abi_service_ok_def map_of_eq_None_iff)
  ultimately show ?thesis using assms(1) by (auto simp: abi_service_ok_def sv')
qed

lemma link_abi_ok:
  assumes "abi_service_ok lib sv" "link_abi lib addr name sv = Some (Inr sv')"
  shows "abi_service_ok lib sv'"
  using assms by (auto simp: link_abi_def abi_service_ok_def cached_contract_from_ok split: sum.splits if_splits)

lemma remove_abi_ok: "abi_service_ok lib sv \<Longrightarrow> abi_service_ok lib (fst (remove_abi addr sv))"
  by (auto simp: abi_service_ok_def remove_abi_def delete_conv')

lemma register_abi_ok: "abi_service_ok lib sv \<Longrightarrow> abi_service_ok lib (fst (register_abi name abi sv))"
  by (simp add: abi_service_ok_def register_abi_def)

lemma abi_service_new_ok: "abi_service_ok lib abi_service_new"
  by (simp add: abi_service_ok_def abi_service_new_def)

section \<open>Peeking and decoding\<close>

lemma find_event_some: "find_event t cs = Some e \<Longrightarrow> \<exists>c \<in> set cs. map_of (cc_events c) t = Some e"
  by (induction cs) (auto split: option.splits)

lemma find_event_none: "find_event t cs = None \<longleftrightarrow> (\<forall>c \<in> set cs. map_of (cc_events c) t = None)"
  by (induction cs) (auto split: option.splits)

lemma decode_log_from_ok:
  "decode_log_from lib log sig err cs = Some (Inr d) \<Longrightarrow>
     \<exists>c \<in> set cs. \<exists>e. map_of (cc_events c) sig = Some e \<and> decode_log_direct lib log e = Inr d"
  by (induction cs arbitrary: err) (auto split: option.splits sum.splits)

lemma decode_log_direct_name: "decode_log_direct lib log e = Inr d \<Longrightarrow> dl_name d = ev_name e \<and> dl_log d = log"
  by (auto simp: decode_log_direct_def bindR_eq_Inr_iff)

text \<open>Event signatures hash the name, so that known events with the same selector carry the same name.\<close>

definition known_events :: "abi_service \<Rightarrow> abi_event set" where
  "known_events sv =
     {e. \<exists>(t, cs) \<in> set (sv_global_event_index sv). \<exists>c \<in> set cs. e \<in> snd ` set (cc_events c)}"

definition selectors_name_events :: "abi_lib \<Rightarrow> abi_service \<Rightarrow> bool" where
  "selectors_name_events lib sv \<longleftrightarrow>
     (\<forall>e \<in> known_events sv. \<forall>f \<in> known_events sv. al_event_selector lib e = al_event_selector lib f \<longrightarrow> ev_name e = ev_name f)"

lemma known_eventsI:
  "map_of (sv_global_event_index sv) t = Some cs \<Longrightarrow> c \<in> set cs \<Longrightarrow> map_of (cc_events c) u = Some e \<Longrightarrow> e \<in> known_events sv"
  unfolding known_events_def by (force dest!: map_of_SomeD)

lemma decoded_name_peeked:
  assumes ok: "abi_service_ok lib sv" and sel: "selectors_name_events lib sv" and dec: "decode_log lib sv log = Inr d"
  shows "\<exists>e. peek_event_name sv log = Some e \<and> ev_name e = dl_name d \<and> dl_log d = log"
proof -
  obtain sig ts where tp: "log_topics log = sig # ts" using dec by (cases "log_topics log") (auto simp: decode_log_def)
  show ?thesis
  proof (cases "Option.bind (map_of (sv_address_specific_cache sv) (log_address log)) (\<lambda>c. map_of (cc_events c) sig)")
    case (Some e)
    then have "decode_log_direct lib log e = Inr d"
      using dec tp by (auto simp: decode_log_def try_decode_log_from_address_def split: bind_splits)
    then show ?thesis using Some tp decode_log_direct_name by (fastforce simp: peek_event_name_def)
  next
    case None
    then have "try_decode_log_from_global lib sv log sig = Some (Inr d)"
      using dec tp by (auto simp: decode_log_def try_decode_log_from_address_def split: option.splits bind_splits)
    then obtain cs where cs: "map_of (sv_global_event_index sv) sig = Some cs" "decode_log_from lib log sig None cs = Some (Inr d)"
      by (auto simp: try_decode_log_from_global_def split: bind_splits)
    obtain c e where e: "c \<in> set cs" "map_of (cc_events c) sig = Some e" "decode_log_direct lib log e = Inr d"
      using decode_log_from_ok [OF cs(2)] by blast
    then obtain f where f: "find_event sig cs = Some f" by (cases "find_event sig cs") (auto simp: find_event_none)
    then obtain c' where c': "c' \<in> set cs" "map_of (cc_events c') sig = Some f" using find_event_some by blast
    then have "al_event_selector lib f = al_event_selector lib e"
      using e cs(1) ok by (fastforce simp: abi_service_ok_def contract_ok_def)
    then have "ev_name f = ev_name e"
      using sel [unfolded selectors_name_events_def] known_eventsI [OF cs(1) c'] known_eventsI [OF cs(1) e(1,2)] by blast
    then have "ev_name f = dl_name d" using decode_log_direct_name [OF e(3)] by simp
    moreover have "peek_event_name sv log = Some f" using None tp cs(1) f by (simp add: peek_event_name_def)
    ultimately show ?thesis using decode_log_direct_name [OF e(3)] by auto
  qed
qed

text \<open>Peeking agrees with decoding: on a service built by registering, linking and adding global ABIs, a log
  that decodes to an event is recognised by its first topic alone, under the name it decodes to; so
  skipping a log because of its peeked name never skips a log that would decode to a wanted event.\<close>

lemma peek_agrees_with_decode:
  assumes "abi_service_ok lib sv" "selectors_name_events lib sv" "decode_log lib sv log = Inr d"
  shows "map_option ev_name (peek_event_name sv log) = Some (dl_name d)"
  using decoded_name_peeked [OF assms] by auto

text \<open>The operations that change the service.\<close>

inductive abi_step :: "abi_lib \<Rightarrow> abi_service \<Rightarrow> abi_service \<Rightarrow> bool" for lib where
  register: "abi_step lib sv (fst (register_abi name abi sv))"
| link: "link_abi lib addr name sv = Some (Inr sv') \<Longrightarrow> abi_step lib sv sv'"
| globally: "add_global_abi lib name sv = Some (Inr sv') \<Longrightarrow> abi_step lib sv sv'"
| remove: "abi_step lib sv (fst (remove_abi addr sv))"

inductive_cases abi_step_elim: "abi_step lib sv sv'"

lemma register_abis_ok: "abi_service_ok lib sv \<Longrightarrow> abi_service_ok lib (register_abis abis sv)"
  by (induction abis sv rule: register_abis.induct) (auto intro: register_abi_ok)

lemma abi_steps_ok: "(abi_step lib)\<^sup>*\<^sup>* (from_named_abis named) sv \<Longrightarrow> abi_service_ok lib sv"
proof (induction rule: rtranclp_induct)
  case base
  show ?case by (simp add: from_named_abis_def register_abis_ok abi_service_new_ok)
next
  case (step sv sv')
  then show ?case by (elim abi_step_elim) (auto intro: register_abi_ok link_abi_ok add_global_abi_ok remove_abi_ok)
qed

text \<open>C32. Every event and function sits under its own selector: however the service was built, with ABIs replaced, linked and removed,
  what its address cache or its global index finds for the first topic of a log is an event with exactly that selector.\<close>

theorem peeked_event_has_selector:
  assumes "(abi_step lib)\<^sup>*\<^sup>* (from_named_abis named) sv" "peek_event_name sv log = Some e"
  shows "abi_service_ok lib sv \<and> (\<exists>ts. log_topics log = al_event_selector lib e # ts)"
proof -
  note ok = abi_steps_ok [OF assms(1)]
  obtain t ts where tp: "log_topics log = t # ts" using assms(2) by (cases "log_topics log") (auto simp: peek_event_name_def)
  have "al_event_selector lib e = t"
  proof (cases "Option.bind (map_of (sv_address_specific_cache sv) (log_address log)) (\<lambda>c. map_of (cc_events c) t)")
    case (Some f)
    then show ?thesis using assms(2) tp ok by (auto simp: peek_event_name_def abi_service_ok_def contract_ok_def split: bind_splits)
  next
    case None
    then obtain cs where "map_of (sv_global_event_index sv) t = Some cs" "find_event t cs = Some e"
      using assms(2) tp by (auto simp: peek_event_name_def split: bind_splits)
    then show ?thesis using find_event_some [of t cs e] ok by (fastforce simp: abi_service_ok_def contract_ok_def)
  qed
  then show ?thesis using ok tp by simp
qed

text \<open>The parameters as the ABI declares them: indexed inputs take the next topic value, the others the next
  body value.\<close>

fun declared_params :: "abi_param list \<Rightarrow> sol_value list \<Rightarrow> sol_value list \<Rightarrow> (string \<times> sol_value) list" where
  "declared_params (p # ps) idx body =
     (if ap_indexed p then
        (case idx of [] \<Rightarrow> [] | v # vs \<Rightarrow> (ap_name p, v) # declared_params ps vs body)
      else
        (case body of [] \<Rightarrow> [] | v # vs \<Rightarrow> (ap_name p, v) # declared_params ps idx vs))"
| "declared_params [] idx body = []"

definition indexed_first :: "abi_param list \<Rightarrow> bool" where
  "indexed_first ps \<longleftrightarrow> ps = filter ap_indexed ps @ filter (\<lambda>p. \<not> ap_indexed p) ps"

lemma declared_body: "\<forall>p \<in> set ps. \<not> ap_indexed p \<Longrightarrow> declared_params ps idx body = zip (map ap_name ps) body"
  by (induction ps arbitrary: body) (auto split: list.splits)

lemma declared_indexed_first:
  assumes "\<forall>p \<in> set is. ap_indexed p" "\<forall>p \<in> set bs. \<not> ap_indexed p" "length idx = length is"
  shows "declared_params (is @ bs) idx body = zip (map ap_name (is @ bs)) (idx @ body)"
  using assms
proof (induction "is" arbitrary: idx)
  case (Cons p ps)
  then show ?case by (cases idx) auto
qed (simp add: declared_body)

text \<open>Names of log parameters: decoding pairs every value with the name the ABI declares for it, provided the
  event declares its indexed inputs first and the codec returns one value per indexed input.\<close>

lemma decoded_params_named:
  assumes parts: "al_decode_log_parts lib e (log_topics log) (log_data log) = Inr (idx, body)"
    and arity: "length idx = length (filter ap_indexed (ev_inputs e))" and first: "indexed_first (ev_inputs e)"
  shows "decode_log_direct lib log e =
    Inr \<lparr>dl_name = ev_name e, dl_params = declared_params (ev_inputs e) idx body, dl_log = log\<rparr>"
proof -
  define ixs where "ixs = filter ap_indexed (ev_inputs e)"
  define bs where "bs = filter (\<lambda>p. \<not> ap_indexed p) (ev_inputs e)"
  have eq: "ev_inputs e = ixs @ bs" unfolding ixs_def bs_def by (rule first [unfolded indexed_first_def])
  have "declared_params (ixs @ bs) idx body = zip (map ap_name (ixs @ bs)) (idx @ body)"
    by (rule declared_indexed_first) (use arity in \<open>simp_all add: ixs_def bs_def\<close>)
  then have "declared_params (ev_inputs e) idx body = zip (map ap_name (ev_inputs e)) (idx @ body)"
    by (simp only: eq)
  then show ?thesis using parts by (simp add: decode_log_direct_def)
qed

section \<open>Witnesses\<close>

definition transfer_event :: abi_event where
  "transfer_event = \<lparr>ev_name = ''Transfer'', ev_inputs =
     [\<lparr>ap_name = ''from'', ap_ty = ''address'', ap_indexed = True\<rparr>, \<lparr>ap_name = ''value'', ap_ty = ''uint256'', ap_indexed = False\<rparr>]\<rparr>"

text \<open>An event that declares a body input before an indexed one.\<close>

definition swapped_event :: abi_event where
  "swapped_event = \<lparr>ev_name = ''Paid'', ev_inputs =
     [\<lparr>ap_name = ''value'', ap_ty = ''uint256'', ap_indexed = False\<rparr>, \<lparr>ap_name = ''to'', ap_ty = ''address'', ap_indexed = True\<rparr>]\<rparr>"

definition sample_lib :: abi_lib where
  "sample_lib = \<lparr>al_event_selector = (\<lambda>e. if ev_name e = ''Transfer'' then 1 else if ev_name e = ''Paid'' then 2 else 3),
     al_function_selector = (\<lambda>_. 7), al_parse_type = (\<lambda>_. Some TAddress),
     al_decode_log_parts = (\<lambda>e ts d. Inr ([VAddress 5], [VUint 100 256])), al_abi_decode = (\<lambda>_ _. Inr (VTuple []))\<rparr>"

definition sample_log :: evm_log where
  "sample_log = \<lparr>log_address = 9, log_topics = [1, 5], log_data = [], log_block_hash = None, log_block_number = Some 4,
     log_transaction_hash = Some 6, log_transaction_index = Some 0, log_log_index = Some 2, log_removed = False\<rparr>"

lemma decoded_params_named_example:
  "decode_log_direct sample_lib sample_log transfer_event =
     Inr \<lparr>dl_name = ''Transfer'', dl_params = [(''from'', VAddress 5), (''value'', VUint 100 256)], dl_log = sample_log\<rparr>"
proof -
  have "indexed_first (ev_inputs transfer_event)" by (simp add: transfer_event_def indexed_first_def)
  then have "decode_log_direct sample_lib sample_log transfer_event =
      Inr \<lparr>dl_name = ev_name transfer_event,
           dl_params = declared_params (ev_inputs transfer_event) [VAddress 5] [VUint 100 256], dl_log = sample_log\<rparr>"
    by (intro decoded_params_named) (simp_all add: sample_lib_def transfer_event_def)
  then show ?thesis by (simp add: transfer_event_def)
qed

text \<open>Without that order the names are swapped: the declared \<open>value\<close> is reported as \<open>to\<close>.\<close>

lemma swapped_event_misnamed:
  "decode_log_direct sample_lib sample_log swapped_event =
     Inr \<lparr>dl_name = ''Paid'', dl_params = [(''value'', VAddress 5), (''to'', VUint 100 256)], dl_log = sample_log\<rparr>"
  "declared_params (ev_inputs swapped_event) [VAddress 5] [VUint 100 256] = [(''value'', VUint 100 256), (''to'', VAddress 5)]"
  by (simp_all add: decode_log_direct_def sample_lib_def swapped_event_def)

definition transfer_abi :: json_abi where
  "transfer_abi = \<lparr>ja_arc = 0, ja_functions = [], ja_events = [transfer_event]\<rparr>"

definition sample_service :: abi_service where
  "sample_service = projr (the (add_global_abi sample_lib ''erc20'' (from_named_abis [(''erc20'', transfer_abi)])))"

lemma sample_service_value:
  "add_global_abi sample_lib ''erc20'' (from_named_abis [(''erc20'', transfer_abi)]) = Some (Inr sample_service)"
  by (simp add: sample_service_def add_global_abi_def lookup_named_abi_def get_abi_by_name_def from_named_abis_def
      abi_service_new_def register_abi_def cached_contract_from_def transfer_abi_def)

lemma sample_service_ok: "abi_service_ok sample_lib sample_service"
  by (rule add_global_abi_ok [OF _ sample_service_value])
     (simp add: from_named_abis_def register_abi_ok abi_service_new_ok)

lemmas sample_service_eval = sample_service_def add_global_abi_def lookup_named_abi_def get_abi_by_name_def
  from_named_abis_def abi_service_new_def register_abi_def cached_contract_from_def transfer_abi_def collect_map_def
  index_keys_def entry_update_def sample_lib_def

lemma sample_service_index:
  "sv_global_event_index sample_service =
      [(1, [\<lparr>cc_functions = [], cc_events = [(1, transfer_event)], cc_abi = transfer_abi, cc_function_input_types = []\<rparr>])]"
  "sv_address_specific_cache sample_service = []"
  by (simp_all add: sample_service_eval transfer_event_def)

lemma sample_selectors: "selectors_name_events sample_lib sample_service"
  by (simp add: selectors_name_events_def known_events_def sample_service_index)

definition sample_decoded :: decoded_log where
  "sample_decoded = \<lparr>dl_name = ''Transfer'', dl_params = [(''from'', VAddress 5), (''value'', VUint 100 256)], dl_log = sample_log\<rparr>"

lemma sample_decodes: "decode_log sample_lib sample_service sample_log = Inr sample_decoded"
  by (simp add: decode_log_def try_decode_log_from_address_def try_decode_log_from_global_def sample_service_index
      sample_log_def sample_decoded_def decode_log_direct_def sample_lib_def transfer_event_def)

lemma peek_agrees_with_decode_example:
  "map_option ev_name (peek_event_name sample_service sample_log) = Some ''Transfer''"
  using peek_agrees_with_decode [OF sample_service_ok sample_selectors sample_decodes] by (simp add: sample_decoded_def)

theorem peeked_event_has_selector_witness:
  "\<exists>ts. log_topics sample_log = al_event_selector sample_lib transfer_event # ts"
proof -
  have "(abi_step sample_lib)\<^sup>*\<^sup>* (from_named_abis [(''erc20'', transfer_abi)]) sample_service"
    using sample_service_value by (auto intro: globally)
  moreover have "peek_event_name sample_service sample_log = Some transfer_event"
    by (simp add: peek_event_name_def sample_service_index sample_log_def)
  ultimately show ?thesis using peeked_event_has_selector by blast
qed

end
