(* ===== verification/Argus_Rhai.thy ===== *)
theory Argus_Rhai
  imports Argus_Abi
begin

text \<open>
  The scripting layer, \<open>crates/argus-rhai/src\<close>, and the JSON form of decoded calls in
  \<open>crates/argus-abi/src/models.rs\<close>: the conversion of ABI values, transactions, receipts and
  logs to script values and to JSON, the proxies scripts read logs and calls through, the
  compiler with its cache of analyses, and the script validator.

  The script engine, its parser, its analyser and its value packages are third-party code: they are the
  fields of \<open>script_engine\<close> and \<open>rhai_lib\<close>, and the type of syntax trees is a type variable.
\<close>

section \<open>Script values\<close>

datatype dynamic =
    DUnit | DBool bool | DInt int | DBigInt int | DStr string | DArr "dynamic list" | DMap "(string \<times> dynamic) list"

type_synonym rhai_map = "(string \<times> dynamic) list"

record rhai_lib =
  rl_checksum :: "address \<Rightarrow> string"
  rl_show_address :: "address \<Rightarrow> string"
  rl_show_hash :: "b256 \<Rightarrow> string"
  rl_hex_encode :: "u8 list \<Rightarrow> string"
  rl_u256_to_bigint :: "nat \<Rightarrow> dynamic"
  rl_i256_to_bigint :: "int \<Rightarrow> dynamic"

fun dyn_sol_value_to_rhai :: "rhai_lib \<Rightarrow> sol_value \<Rightarrow> dynamic" where
  "dyn_sol_value_to_rhai lib (VAddress a) = DStr (rl_checksum lib a)"
| "dyn_sol_value_to_rhai lib (VBool b) = DBool b"
| "dyn_sol_value_to_rhai lib (VBytes b) = DStr (''0x'' @ rl_hex_encode lib b)"
| "dyn_sol_value_to_rhai lib (VFixedBytes b n) = DStr (''0x'' @ rl_hex_encode lib b)"
| "dyn_sol_value_to_rhai lib (VInt i n) = rl_i256_to_bigint lib i"
| "dyn_sol_value_to_rhai lib (VUint u n) = rl_u256_to_bigint lib u"
| "dyn_sol_value_to_rhai lib (VString s) = DStr s"
| "dyn_sol_value_to_rhai lib (VArray xs) = DArr (map (dyn_sol_value_to_rhai lib) xs)"
| "dyn_sol_value_to_rhai lib (VFixedArray xs) = DArr (map (dyn_sol_value_to_rhai lib) xs)"
| "dyn_sol_value_to_rhai lib (VTuple xs) = DArr (map (dyn_sol_value_to_rhai lib) xs)"
| "dyn_sol_value_to_rhai lib (VFunction f) = DUnit"

fun dyn_sol_value_to_json :: "rhai_lib \<Rightarrow> sol_value \<Rightarrow> json" where
  "dyn_sol_value_to_json lib (VAddress a) = JString (rl_checksum lib a)"
| "dyn_sol_value_to_json lib (VBool b) = JBool b"
| "dyn_sol_value_to_json lib (VBytes b) = JString (''0x'' @ rl_hex_encode lib b)"
| "dyn_sol_value_to_json lib (VFixedBytes b n) = JString (''0x'' @ rl_hex_encode lib b)"
| "dyn_sol_value_to_json lib (VInt i n) =
     (if - (2 ^ 63) \<le> i \<and> i \<le> i64_max then JNumber i else JString (show_int i))"
| "dyn_sol_value_to_json lib (VUint u n) =
     (if int u \<le> i64_max then JNumber (int u) else JString (show_nat u))"
| "dyn_sol_value_to_json lib (VString s) = JString s"
| "dyn_sol_value_to_json lib (VArray xs) = JArray (map (dyn_sol_value_to_json lib) xs)"
| "dyn_sol_value_to_json lib (VFixedArray xs) = JArray (map (dyn_sol_value_to_json lib) xs)"
| "dyn_sol_value_to_json lib (VTuple xs) = JArray (map (dyn_sol_value_to_json lib) xs)"
| "dyn_sol_value_to_json lib (VFunction f) = JNull"

text \<open>The conversion of \<open>argus-abi/src/models.rs\<close>, which writes every integer as a string.\<close>

fun abi_value_to_json :: "rhai_lib \<Rightarrow> sol_value \<Rightarrow> json" where
  "abi_value_to_json lib (VAddress a) = JString (rl_checksum lib a)"
| "abi_value_to_json lib (VBool b) = JBool b"
| "abi_value_to_json lib (VBytes b) = JString (''0x'' @ rl_hex_encode lib b)"
| "abi_value_to_json lib (VFixedBytes b n) = JString (''0x'' @ rl_hex_encode lib b)"
| "abi_value_to_json lib (VInt i n) = JString (show_int i)"
| "abi_value_to_json lib (VUint u n) = JString (show_nat u)"
| "abi_value_to_json lib (VString s) = JString s"
| "abi_value_to_json lib (VArray xs) = JArray (map (abi_value_to_json lib) xs)"
| "abi_value_to_json lib (VFixedArray xs) = JArray (map (abi_value_to_json lib) xs)"
| "abi_value_to_json lib (VTuple xs) = JArray (map (abi_value_to_json lib) xs)"
| "abi_value_to_json lib (VFunction f) = JNull"

definition decoded_call_to_json :: "rhai_lib \<Rightarrow> decoded_call \<Rightarrow> json" where
  "decoded_call_to_json lib c =
     JObject [(''name'', JString (dc_name c)),
              (''params'', JObject (fold (\<lambda>(n, v). AList.update n (abi_value_to_json lib v)) (dc_params c) []))]"

section \<open>Maps and payloads\<close>

definition build_params_map :: "rhai_lib \<Rightarrow> (string \<times> sol_value) list \<Rightarrow> rhai_map" where
  "build_params_map lib ps = fold (\<lambda>(n, v). AList.update n (dyn_sol_value_to_rhai lib v)) ps []"

definition get_valid_tx_rhai_paths :: "string list" where
  "get_valid_tx_rhai_paths = map (\<lambda>s. ''tx.'' @ s)
     [''from'', ''to'', ''hash'', ''value'', ''gas_limit'', ''nonce'', ''input'', ''block_number'', ''transaction_index'',
      ''gas_price'', ''max_fee_per_gas'', ''max_priority_fee_per_gas'']"

definition get_valid_receipt_rhai_paths :: "string list" where
  "get_valid_receipt_rhai_paths = map (\<lambda>s. ''tx.'' @ s) [''gas_used'', ''status'', ''effective_gas_price'']"

definition get_valid_log_rhai_paths :: "string list" where
  "get_valid_log_rhai_paths = map (\<lambda>s. ''log.'' @ s)
     [''name'', ''address'', ''log_index'', ''block_number'', ''transaction_hash'', ''transaction_index'']"

definition get_valid_decoded_call_rhai_paths :: "string list" where
  "get_valid_decoded_call_rhai_paths = map (\<lambda>s. ''decoded_call.'' @ s) [''name'', ''params''] @ [''decoded_call'']"

text \<open>A \<open>u64 as i64\<close> cast reads the bits as a signed number.\<close>

definition dyn_i64 :: "u64 \<Rightarrow> dynamic" where
  "dyn_i64 n = DInt (sint n)"

definition dyn_opt_i64 :: "u64 option \<Rightarrow> dynamic" where
  "dyn_opt_i64 n = (case n of Some n \<Rightarrow> dyn_i64 n | None \<Rightarrow> DUnit)"

definition tx_fee_fields :: "rhai_lib \<Rightarrow> evm_tx \<Rightarrow> rhai_map" where
  "tx_fee_fields lib tx =
     (case tx_transaction_type tx of
        Legacy \<Rightarrow>
          [(''gas_price'', case tx_gas_price tx of Some p \<Rightarrow> rl_u256_to_bigint lib (unat p) | None \<Rightarrow> DUnit)]
      | Eip1559 \<Rightarrow>
          [(''max_fee_per_gas'', rl_u256_to_bigint lib (unat (tx_max_fee_per_gas tx))),
           (''max_priority_fee_per_gas'',
              case tx_max_priority_fee_per_gas tx of Some p \<Rightarrow> rl_u256_to_bigint lib (unat p) | None \<Rightarrow> DUnit)]
      | _ \<Rightarrow> [])"

definition receipt_fields :: "rhai_lib \<Rightarrow> receipt option \<Rightarrow> rhai_map" where
  "receipt_fields lib r =
     (case r of
        Some rc \<Rightarrow>
          [(''gas_used'', dyn_i64 (rc_gas_used rc)), (''status'', DInt (if rc_status rc then 1 else 0)),
           (''effective_gas_price'', rl_u256_to_bigint lib (unat (rc_effective_gas_price rc)))]
      | None \<Rightarrow> [(''gas_used'', DUnit), (''status'', DUnit), (''effective_gas_price'', DUnit)])"

definition build_transaction_map :: "rhai_lib \<Rightarrow> evm_tx \<Rightarrow> receipt option \<Rightarrow> rhai_map" where
  "build_transaction_map lib tx r =
     (case tx_to tx of Some a \<Rightarrow> [(''to'', DStr (rl_checksum lib a))] | None \<Rightarrow> []) @
     [(''from'', DStr (rl_checksum lib (tx_from tx))), (''hash'', DStr (rl_show_hash lib (tx_hash tx))),
      (''value'', rl_u256_to_bigint lib (unat (tx_value tx))), (''gas_limit'', dyn_i64 (tx_gas tx)),
      (''nonce'', dyn_i64 (tx_nonce tx)), (''input'', DStr (''0x'' @ rl_hex_encode lib (tx_input tx))),
      (''block_number'', dyn_opt_i64 (tx_block_number tx)),
      (''transaction_index'', dyn_opt_i64 (tx_transaction_index tx))] @
     tx_fee_fields lib tx @ receipt_fields lib r"

definition build_log_map :: "rhai_lib \<Rightarrow> decoded_log \<Rightarrow> rhai_map \<Rightarrow> rhai_map" where
  "build_log_map lib l params =
     [(''name'', DStr (dl_name l)), (''params'', DMap params), (''address'', DStr (rl_checksum lib (log_address (dl_log l)))),
      (''block_number'', dyn_opt_i64 (log_block_number (dl_log l))),
      (''transaction_hash'',
         DStr (rl_show_hash lib (case log_transaction_hash (dl_log l) of Some h \<Rightarrow> h | None \<Rightarrow> 0))),
      (''log_index'', dyn_opt_i64 (log_log_index (dl_log l))),
      (''transaction_index'', dyn_opt_i64 (log_transaction_index (dl_log l)))]"

definition build_decoded_call_map :: "rhai_lib \<Rightarrow> decoded_call \<Rightarrow> rhai_map" where
  "build_decoded_call_map lib c = [(''name'', DStr (dc_name c)), (''params'', DMap (build_params_map lib (dc_params c)))]"

definition build_log_params_payload :: "rhai_lib \<Rightarrow> (string \<times> sol_value) list \<Rightarrow> json" where
  "build_log_params_payload lib ps = JObject (fold (\<lambda>(n, v). AList.update n (dyn_sol_value_to_json lib v)) ps [])"

definition tx_fee_payload :: "evm_tx \<Rightarrow> (string \<times> json) list" where
  "tx_fee_payload tx =
     (case tx_transaction_type tx of
        Legacy \<Rightarrow> (case tx_gas_price tx of Some p \<Rightarrow> [(''gas_price'', JString (show_nat (unat p)))] | None \<Rightarrow> [])
      | Eip1559 \<Rightarrow>
          [(''max_fee_per_gas'', JString (show_nat (unat (tx_max_fee_per_gas tx))))] @
          (case tx_max_priority_fee_per_gas tx of
             Some p \<Rightarrow> [(''max_priority_fee_per_gas'', JString (show_nat (unat p)))] | None \<Rightarrow> [])
      | _ \<Rightarrow> [])"

definition build_transaction_details_payload :: "rhai_lib \<Rightarrow> evm_tx \<Rightarrow> receipt option \<Rightarrow> json" where
  "build_transaction_details_payload lib tx r =
     JObject (
       (case tx_to tx of Some a \<Rightarrow> [(''to'', JString (rl_checksum lib a))] | None \<Rightarrow> []) @
       [(''from'', JString (rl_checksum lib (tx_from tx))), (''hash'', JString (rl_show_hash lib (tx_hash tx))),
        (''value'', JString (show_nat (unat (tx_value tx)))), (''gas_limit'', JNumber (uint (tx_gas tx))),
        (''nonce'', JNumber (uint (tx_nonce tx))), (''input'', JString (''0x'' @ rl_hex_encode lib (tx_input tx)))] @
       (case tx_transaction_index tx of Some i \<Rightarrow> [(''transaction_index'', JNumber (uint i))] | None \<Rightarrow> []) @
       tx_fee_payload tx @
       (case r of
          Some rc \<Rightarrow>
            [(''gas_used'', JString (show_nat (unat (rc_gas_used rc)))),
             (''status'', JNumber (if rc_status rc then 1 else 0)),
             (''effective_gas_price'', JString (show_nat (unat (rc_effective_gas_price rc))))]
        | None \<Rightarrow> []))"

section \<open>Proxies\<close>

type_synonym params_proxy = "rhai_map option"
type_synonym log_proxy = "decoded_log option"
type_synonym call_proxy = "decoded_call option"

definition params_index_get :: "params_proxy \<Rightarrow> string \<Rightarrow> dynamic" where
  "params_index_get p index =
     (case p of Some m \<Rightarrow> (case map_of m index of Some v \<Rightarrow> v | None \<Rightarrow> DUnit) | None \<Rightarrow> DUnit)"

definition log_get_name :: "log_proxy \<Rightarrow> string" where
  "log_get_name p = (case p of Some l \<Rightarrow> dl_name l | None \<Rightarrow> '''')"

definition log_get_address :: "rhai_lib \<Rightarrow> log_proxy \<Rightarrow> string" where
  "log_get_address lib p = (case p of Some l \<Rightarrow> rl_checksum lib (log_address (dl_log l)) | None \<Rightarrow> rl_show_address lib 0)"

definition log_get_log_index :: "log_proxy \<Rightarrow> u64" where
  "log_get_log_index p =
     (case p of Some l \<Rightarrow> (case log_log_index (dl_log l) of Some i \<Rightarrow> i | None \<Rightarrow> 0) | None \<Rightarrow> 0)"

definition log_get_params :: "rhai_lib \<Rightarrow> log_proxy \<Rightarrow> params_proxy" where
  "log_get_params lib p = map_option (\<lambda>l. build_params_map lib (dl_params l)) p"

definition call_get_name :: "call_proxy \<Rightarrow> string" where
  "call_get_name p = (case p of Some c \<Rightarrow> dc_name c | None \<Rightarrow> '''')"

definition call_get_params :: "rhai_lib \<Rightarrow> call_proxy \<Rightarrow> params_proxy" where
  "call_get_params lib p = map_option (\<lambda>c. build_params_map lib (dc_params c)) p"

text \<open>\<open>register_proxies\<close>: the getters an engine knows for each proxy type. Other properties are errors.\<close>

datatype proxy_value = PStr string | PU64 u64 | PParams params_proxy

definition log_getters :: "rhai_lib \<Rightarrow> (string \<times> (log_proxy \<Rightarrow> proxy_value)) list" where
  "log_getters lib =
     [(''name'', \<lambda>p. PStr (log_get_name p)), (''address'', \<lambda>p. PStr (log_get_address lib p)),
      (''log_index'', \<lambda>p. PU64 (log_get_log_index p)), (''params'', \<lambda>p. PParams (log_get_params lib p))]"

definition call_getters :: "rhai_lib \<Rightarrow> (string \<times> (call_proxy \<Rightarrow> proxy_value)) list" where
  "call_getters lib =
     [(''name'', \<lambda>p. PStr (call_get_name p)), (''params'', \<lambda>p. PParams (call_get_params lib p))]"

section \<open>The script engine\<close>

text \<open>A scope is a stack of named values, the latest push last; \<open>push_constant\<close> makes an entry read-only and
  \<open>rewind\<close> pops back to a given length.\<close>

datatype scope_value = ScMap rhai_map | ScLog log_proxy | ScCall call_proxy | ScDyn dynamic

record scope_entry =
  sc_name :: string
  sc_constant :: bool
  sc_value :: scope_value

type_synonym scope = "scope_entry list"

definition scope_push :: "string \<Rightarrow> scope_value \<Rightarrow> scope \<Rightarrow> scope" where
  "scope_push n v sc = sc @ [\<lparr>sc_name = n, sc_constant = False, sc_value = v\<rparr>]"

definition scope_push_constant :: "string \<Rightarrow> scope_value \<Rightarrow> scope \<Rightarrow> scope" where
  "scope_push_constant n v sc = sc @ [\<lparr>sc_name = n, sc_constant = True, sc_value = v\<rparr>]"

definition scope_rewind :: "nat \<Rightarrow> scope \<Rightarrow> scope" where
  "scope_rewind n sc = take n sc"

text \<open>The result of the third-party analyser: variable paths read, names bound in the script, and for every
  path the string literals it is compared with.\<close>

record analysis_result =
  ar_accessed_variables :: "string list"
  ar_local_variables :: "string list"
  ar_string_comparisons :: "(string \<times> string list) list"

record 'ast script_engine =
  eng_compile :: "string \<Rightarrow> string + 'ast"
  eng_analyze :: "'ast \<Rightarrow> analysis_result"
  eng_eval :: "'ast \<Rightarrow> scope \<Rightarrow> scope \<times> (string + dynamic)"
  eng_type_name :: "dynamic \<Rightarrow> string"
  eng_sha256 :: "string \<Rightarrow> b256"

text \<open>Documented behaviour of evaluation: a script may push variables and change the values of variables, but
  neither constants nor what lies below the last constant is popped or replaced.\<close>

definition keeps_constants :: "'ast script_engine \<Rightarrow> bool" where
  "keeps_constants eng \<longleftrightarrow>
     (\<forall>ast cs rest. (\<forall>e \<in> set cs. sc_constant e) \<longrightarrow>
        take (length cs) (fst (eng_eval eng ast (cs @ rest))) = cs)"

section \<open>Compiler\<close>

record 'ast script_analysis =
  sa_ast :: 'ast
  sa_accessed_variables :: "string list"
  sa_accesses_log_variable :: bool
  sa_local_variables :: "string list"
  sa_accesses_call_variable :: bool
  sa_accessed_log_event_names :: "string list"

type_synonym 'ast script_cache = "(b256 \<times> 'ast script_analysis) list"

datatype compiler_error = CompilationError string

definition accesses_root :: "string list \<Rightarrow> string \<Rightarrow> bool" where
  "accesses_root vars root = list_ex (\<lambda>p. p = root \<or> starts_with p (root @ ''.'')) vars"

text \<open>The analysis of a script that is not in the cache.\<close>

definition analyze_fresh :: "'ast script_engine \<Rightarrow> string \<Rightarrow> compiler_error + 'ast script_analysis" where
  "analyze_fresh eng script =
     bindR (map_err CompilationError (eng_compile eng script)) (\<lambda>ast.
       let r = eng_analyze eng ast
       in Inr \<lparr>sa_ast = ast, sa_accessed_variables = ar_accessed_variables r,
               sa_accesses_log_variable = accesses_root (ar_accessed_variables r) ''log'',
               sa_local_variables = ar_local_variables r,
               sa_accesses_call_variable = accesses_root (ar_accessed_variables r) ''decoded_call'',
               sa_accessed_log_event_names =
                 (case map_of (ar_string_comparisons r) ''log.name'' of Some ns \<Rightarrow> ns | None \<Rightarrow> [])\<rparr>)"

definition analyze_script ::
  "'ast script_engine \<Rightarrow> string \<Rightarrow> ('ast script_cache, compiler_error, 'ast script_analysis) op" where
  "analyze_script eng script cache =
     (case map_of cache (eng_sha256 eng script) of
        Some cached \<Rightarrow> (cache, Inr cached)
      | None \<Rightarrow>
          (case analyze_fresh eng script of
             Inl e \<Rightarrow> (cache, Inl e)
           | Inr a \<Rightarrow> (AList.update (eng_sha256 eng script) a cache, Inr a)))"

definition get_ast :: "'ast script_engine \<Rightarrow> string \<Rightarrow> ('ast script_cache, compiler_error, 'ast) op" where
  "get_ast eng script cache = (case analyze_script eng script cache of (c, r) \<Rightarrow> (c, mapR sa_ast r))"

section \<open>Script validator\<close>

datatype script_validation_error =
    InvalidField string
  | InvalidAbiField string
  | RhaiSyntaxError compiler_error
  | InvalidReturnType string
  | MissingAbi
  | RhaiEvaluationError string

record 'ast script_validation_result =
  sr_ast_analysis :: "'ast script_analysis"
  sr_requires_receipt :: bool

definition valid_static_fields :: "string list" where
  "valid_static_fields = get_valid_tx_rhai_paths @ get_valid_receipt_rhai_paths @ get_valid_log_rhai_paths
     @ get_valid_decoded_call_rhai_paths"

definition valid_dynamic_fields :: "json_abi option \<Rightarrow> string list" where
  "valid_dynamic_fields abi =
     (case abi of
        Some abi \<Rightarrow>
          map (\<lambda>p. ''log.params.'' @ ap_name p) (concat (map ev_inputs (ja_events abi))) @
          map (\<lambda>p. ''decoded_call.params.'' @ ap_name p) (concat (map fn_inputs (ja_functions abi)))
      | None \<Rightarrow> [])"

definition validate_field :: "string list \<Rightarrow> json_abi option \<Rightarrow> string \<Rightarrow> script_validation_error + unit" where
  "validate_field locals abi field =
     (if field \<in> set locals then Inr ()
      else if field \<in> set valid_static_fields then Inr ()
      else if starts_with field ''log.params.'' \<or> starts_with field ''decoded_call.params.'' then
        (if field \<in> set (valid_dynamic_fields abi) then Inr () else Inl (InvalidAbiField field))
      else Inl (InvalidField field))"

definition dummy_scope :: "string list \<Rightarrow> scope" where
  "dummy_scope vars =
     (let uses = (\<lambda>p. list_ex (\<lambda>v. starts_with v p) vars);
          params = (\<lambda>b. if b then [(''params'', DMap [])] else []);
          sc1 = (if uses ''tx.'' then scope_push ''tx'' (ScMap []) [] else []);
          sc2 = (if uses ''log.'' then scope_push ''log'' (ScMap (params (uses ''log.params.''))) sc1 else sc1)
      in if uses ''decoded_call.''
         then scope_push ''decoded_call'' (ScMap (params (uses ''decoded_call.params.''))) sc2 else sc2)"

definition validate_return_type :: "'ast script_engine \<Rightarrow> 'ast script_analysis \<Rightarrow> script_validation_error + unit" where
  "validate_return_type eng a =
     bindR (map_err RhaiEvaluationError (snd (eng_eval eng (sa_ast a) (dummy_scope (sa_accessed_variables a))))) (\<lambda>v.
       case v of
         DBool _ \<Rightarrow> Inr ()
       | _ \<Rightarrow> Inl (InvalidReturnType (''Expected boolean return type, got '' @ eng_type_name eng v)))"

definition validate_analysis ::
  "'ast script_engine \<Rightarrow> 'ast script_analysis \<Rightarrow> json_abi option \<Rightarrow> script_validation_error + 'ast script_validation_result" where
  "validate_analysis eng a abi =
     bindR (traverse (validate_field (sa_local_variables a) abi) (sa_accessed_variables a)) (\<lambda>_.
     bindR (validate_return_type eng a) (\<lambda>_.
       Inr \<lparr>sr_ast_analysis = a,
            sr_requires_receipt = list_ex (\<lambda>f. f \<in> set get_valid_receipt_rhai_paths) (sa_accessed_variables a)\<rparr>))"

definition validate_script ::
  "'ast script_engine \<Rightarrow> string \<Rightarrow> json_abi option \<Rightarrow>
     ('ast script_cache, script_validation_error, 'ast script_validation_result) op" where
  "validate_script eng script abi cache =
     (case analyze_script eng script cache of
        (c, Inl e) \<Rightarrow> (c, Inl (RhaiSyntaxError e))
      | (c, Inr a) \<Rightarrow> (c, validate_analysis eng a abi))"

section \<open>The compiler cache\<close>

text \<open>Every cached analysis is that of each script with its hash, over the scripts \<open>S\<close> that are ever compiled.\<close>

definition cache_sound :: "'ast script_engine \<Rightarrow> string set \<Rightarrow> 'ast script_cache \<Rightarrow> bool" where
  "cache_sound eng S cache \<longleftrightarrow>
     (\<forall>s \<in> S. \<forall>a. map_of cache (eng_sha256 eng s) = Some a \<longrightarrow> analyze_fresh eng s = Inr a)"

definition collision_free :: "'ast script_engine \<Rightarrow> string set \<Rightarrow> bool" where
  "collision_free eng S \<longleftrightarrow> inj_on (eng_sha256 eng) S"

lemma cache_sound_empty: "cache_sound eng S []"
  by (simp add: cache_sound_def)

lemma analyze_script_sound:
  assumes "collision_free eng S" "cache_sound eng S cache" "script \<in> S"
  shows "snd (analyze_script eng script cache) = analyze_fresh eng script"
    and "cache_sound eng S (fst (analyze_script eng script cache))"
  using assms
  by (auto simp: analyze_script_def cache_sound_def collision_free_def inj_on_def split: option.splits sum.splits)

fun analyze_all :: "'ast script_engine \<Rightarrow> string list \<Rightarrow> 'ast script_cache \<Rightarrow> (compiler_error + 'ast script_analysis) list" where
  "analyze_all eng [] cache = []"
| "analyze_all eng (s # ss) cache =
     snd (analyze_script eng s cache) # analyze_all eng ss (fst (analyze_script eng s cache))"

lemma analyze_all_fresh:
  "collision_free eng S \<Longrightarrow> cache_sound eng S cache \<Longrightarrow> set ss \<subseteq> S \<Longrightarrow> analyze_all eng ss cache = map (analyze_fresh eng) ss"
  by (induction ss arbitrary: cache) (simp_all add: analyze_script_sound)

text \<open>The compiler cache is transparent: whatever scripts are analysed in whatever order, each analysis is the
  one a fresh compilation of that script gives, as long as the hash does not collide on these scripts.\<close>

lemma compiler_cache_transparent:
  assumes "collision_free eng (set ss)"
  shows "analyze_all eng ss [] = map (analyze_fresh eng) ss"
  using analyze_all_fresh [OF assms cache_sound_empty] by simp

section \<open>What validation guarantees\<close>

lemma validate_field_ok:
  "validate_field locals abi f = Inr () \<longleftrightarrow>
     f \<in> set locals \<or> f \<in> set valid_static_fields \<or>
     ((starts_with f ''log.params.'' \<or> starts_with f ''decoded_call.params.'') \<and> f \<in> set (valid_dynamic_fields abi))"
  by (simp add: validate_field_def)

text \<open>C33. Validation accepts a script exactly when it compiles, every path it reads is a local variable, a field of the
  data model or a parameter the ABI declares, and evaluating it on the dummy scope yields a boolean; the result
  says whether it reads a receipt field.\<close>

theorem validate_script_accepts:
  "snd (validate_script eng script abi []) = Inr res \<longleftrightarrow>
     (\<exists>a b. analyze_fresh eng script = Inr a \<and>
        list_all (\<lambda>f. f \<in> set (sa_local_variables a) \<or> f \<in> set valid_static_fields \<or> f \<in> set (valid_dynamic_fields abi))
          (sa_accessed_variables a) \<and>
        snd (eng_eval eng (sa_ast a) (dummy_scope (sa_accessed_variables a))) = Inr (DBool b) \<and>
        res = \<lparr>sr_ast_analysis = a,
               sr_requires_receipt = list_ex (\<lambda>f. f \<in> set get_valid_receipt_rhai_paths) (sa_accessed_variables a)\<rparr>)"
proof -
  have dyn: "f \<in> set (valid_dynamic_fields abi) \<Longrightarrow> starts_with f ''log.params.'' \<or> starts_with f ''decoded_call.params.''" for f
    by (auto simp: valid_dynamic_fields_def split: option.splits)
  have fields: "(\<exists>us. traverse (validate_field l abi) vs = Inr us) \<longleftrightarrow>
      list_all (\<lambda>f. f \<in> set l \<or> f \<in> set valid_static_fields \<or> f \<in> set (valid_dynamic_fields abi)) vs" for l vs
  proof (induction vs)
    case (Cons v vs)
    then show ?case
      using validate_field_ok [of l abi v] dyn [of v]
      by (cases "validate_field l abi v"; cases "traverse (validate_field l abi) vs") auto
  qed simp
  have ret: "validate_return_type eng a = Inr () \<longleftrightarrow>
      (\<exists>b. snd (eng_eval eng (sa_ast a) (dummy_scope (sa_accessed_variables a))) = Inr (DBool b))" for a
  proof (cases "snd (eng_eval eng (sa_ast a) (dummy_scope (sa_accessed_variables a)))")
    case (Inr v)
    then show ?thesis by (cases v) (simp_all add: validate_return_type_def)
  qed (simp add: validate_return_type_def)
  show ?thesis
    by (cases "analyze_fresh eng script")
       (auto simp: validate_script_def analyze_script_def validate_analysis_def result_simps ret fields [symmetric])
qed

text \<open>A path the validator accepts for logs that no getter of the log proxy serves.\<close>

lemma accepted_log_path_without_getter:
  "''log.block_number'' \<in> set valid_static_fields" "map_of (log_getters lib) ''block_number'' = None"
  by (simp_all add: valid_static_fields_def get_valid_log_rhai_paths_def log_getters_def)

section \<open>Integers in payloads\<close>

text \<open>Reading back a payload integer: a number of the \<open>i64\<close> range, or a decimal text outside it.\<close>

fun json_is_int :: "json \<Rightarrow> int \<Rightarrow> bool" where
  "json_is_int (JNumber n) i = (n = i \<and> - (2 ^ 63) \<le> i \<and> i \<le> i64_max)"
| "json_is_int (JString s) i = (s = show_int i \<and> (i < - (2 ^ 63) \<or> i64_max < i))"
| "json_is_int _ i = False"

lemma show_int_inj: "show_int a = show_int b \<Longrightarrow> a = b"
proof -
  assume "show_int a = show_int b"
  moreover have "CHR ''-'' \<notin> set (show_nat k)" for k using show_nat_digits not_digit_minus by blast
  then have "show_nat k \<noteq> CHR ''-'' # xs" "CHR ''-'' # xs \<noteq> show_nat k" for k xs by (metis list.set_intros(1))+
  ultimately show "a = b" by (auto simp: show_int_def split: if_splits dest!: show_nat_inj)
qed

lemma show_int_nat: "show_int (int u) = show_nat u"
  by (simp add: show_int_def)

text \<open>Integers in match payloads lose nothing: a signed or unsigned ABI integer is written as a JSON number when it
  fits a signed 64-bit integer and as its decimal text otherwise, and the JSON value determines the integer.\<close>

lemma payload_integers_exact:
  "(json_is_int (dyn_sol_value_to_json lib (VInt i n)) j \<longleftrightarrow> j = i) \<and>
   (json_is_int (dyn_sol_value_to_json lib (VUint u n)) k \<longleftrightarrow> k = int u)"
proof -
  have inj: "show_int a = show_int b \<longleftrightarrow> a = b" for a b by (auto dest: show_int_inj)
  have "0 \<le> int u" by simp
  then have "json_is_int (dyn_sol_value_to_json lib (VUint u n)) k \<longleftrightarrow> k = int u"
    by (auto simp: inj i64_max_def simp flip: show_int_nat)
  moreover have "json_is_int (dyn_sol_value_to_json lib (VInt i n)) j \<longleftrightarrow> j = i" by (auto simp: inj)
  ultimately show ?thesis by blast
qed

section \<open>Witnesses\<close>

text \<open>An engine whose syntax trees are the scripts: \<open>tx\<close> and \<open>log\<close> are true, everything else false.\<close>

definition sample_engine :: "string script_engine" where
  "sample_engine = \<lparr>eng_compile = (\<lambda>s. if s = [] then Inl ''empty'' else Inr s),
     eng_analyze = (\<lambda>a. \<lparr>ar_accessed_variables = [a @ ''.name''], ar_local_variables = [], ar_string_comparisons = []\<rparr>),
     eng_eval = (\<lambda>a sc. (sc, Inr (DBool (a = ''tx'' \<or> a = ''log'')))), eng_type_name = (\<lambda>_. ''bool''),
     eng_sha256 = (\<lambda>s. word_of_nat (length s))\<rparr>"

lemma compiler_cache_transparent_example:
  "collision_free sample_engine (set [''tx'', ''log'', ''tx'']) \<and>
   analyze_all sample_engine [''tx'', ''log'', ''tx''] [] = map (analyze_fresh sample_engine) [''tx'', ''log'', ''tx'']"
proof -
  have "collision_free sample_engine (set [''tx'', ''log'', ''tx''])"
    by (auto simp: collision_free_def sample_engine_def inj_on_def)
  then show ?thesis using compiler_cache_transparent by blast
qed

end
