(* ===== verification/Argus_Monitor.thy ===== *)
theory Argus_Monitor
  imports Argus_Rhai
begin

text \<open>
  Monitor management, \<open>crates/argus-monitor/src/manager.rs\<close> and
  \<open>interest_registry.rs\<close>, and the registry itself, \<open>crates/argus-core/src/monitor.rs\<close>:
  classification of monitors by what their scripts read, the organised snapshot the engine works
  from, and the interest registry that decides which logs and calls are worth fetching and decoding.

  The compiler's cache is threaded through classification as its state; address parsing is a parameter.
\<close>

section \<open>Interest registry\<close>

record interest_registry =
  ir_log_interests :: "(address \<times> b256 list option) list"
  ir_calldata_addresses :: "address list"
  ir_global_event_signatures :: "b256 list"

definition topic0 :: "evm_log \<Rightarrow> b256 option" where
  "topic0 l = (case log_topics l of [] \<Rightarrow> None | t # _ \<Rightarrow> Some t)"

definition is_globally_monitored :: "interest_registry \<Rightarrow> evm_log \<Rightarrow> bool" where
  "is_globally_monitored r l \<longleftrightarrow>
     ir_global_event_signatures r \<noteq> [] \<and>
     (case topic0 l of Some t \<Rightarrow> t \<in> set (ir_global_event_signatures r) | None \<Rightarrow> False)"

definition is_log_interesting :: "interest_registry \<Rightarrow> evm_log \<Rightarrow> bool" where
  "is_log_interesting r l \<longleftrightarrow>
     (case map_of (ir_log_interests r) (log_address l) of
        Some (Some sigs) \<Rightarrow> (case topic0 l of Some t \<Rightarrow> t \<in> set sigs | None \<Rightarrow> False)
      | Some None \<Rightarrow> True
      | None \<Rightarrow> is_globally_monitored r l)"

definition is_calldata_interesting :: "interest_registry \<Rightarrow> address option \<Rightarrow> bool" where
  "is_calldata_interesting r to \<longleftrightarrow> (case to of Some a \<Rightarrow> a \<in> set (ir_calldata_addresses r) | None \<Rightarrow> False)"

section \<open>Classification\<close>

text \<open>The capability flags, a set of three bits.\<close>

record caps =
  cap_tx :: bool
  cap_log :: bool
  cap_call :: bool

record 'ast classified_monitor =
  cm_monitor :: monitor
  cm_caps :: caps
  cm_analysis :: "'ast script_analysis"

definition needs_receipt :: "'ast script_analysis \<Rightarrow> bool" where
  "needs_receipt a =
     list_ex (\<lambda>v. v \<in> set [''tx.gas_used'', ''tx.status'', ''tx.effective_gas_price'']) (sa_accessed_variables a)"

definition script_caps :: "'ast script_analysis \<Rightarrow> caps" where
  "script_caps a =
     (let t = list_ex (\<lambda>v. starts_with v ''tx.'') (sa_accessed_variables a);
          l = sa_accesses_log_variable a;
          c = list_ex (\<lambda>v. starts_with v ''decoded_call.'' \<or> v = ''decoded_call'') (sa_accessed_variables a)
      in if \<not> t \<and> \<not> l \<and> \<not> c then \<lparr>cap_tx = True, cap_log = False, cap_call = False\<rparr>
         else \<lparr>cap_tx = t, cap_log = l, cap_call = c\<rparr>)"

definition classify_monitor ::
  "'ast script_engine \<Rightarrow> monitor \<Rightarrow> ('ast script_cache, compiler_error, 'ast classified_monitor \<times> bool) op" where
  "classify_monitor eng m =
     bindS (analyze_script eng (mon_filter_script m)) (\<lambda>a.
       retS (\<lparr>cm_monitor = m, cm_caps = script_caps a, cm_analysis = a\<rparr>, needs_receipt a))"

section \<open>Building the registry\<close>

text \<open>The environment of the builder: the ABI library, the ABI service, and \<open>str::parse::<Address>\<close>.\<close>

record registry_env =
  re_lib :: abi_lib
  re_abi_service :: abi_service
  re_parse_address :: "string \<Rightarrow> address option"

definition monitor_address :: "registry_env \<Rightarrow> monitor \<Rightarrow> address option" where
  "monitor_address env m = Option.bind (mon_address m) (re_parse_address env)"

definition is_global_monitor :: "monitor \<Rightarrow> bool" where
  "is_global_monitor m = (case mon_address m of Some a \<Rightarrow> eq_ignore_ascii_case a ''all'' | None \<Rightarrow> False)"

definition add_calldata_interest ::
  "registry_env \<Rightarrow> 'ast classified_monitor \<Rightarrow> interest_registry \<Rightarrow> interest_registry" where
  "add_calldata_interest env cm b =
     (if cap_call (cm_caps cm) then
        (case monitor_address env (cm_monitor cm) of
           Some a \<Rightarrow> b\<lparr>ir_calldata_addresses := List.insert a (ir_calldata_addresses b)\<rparr>
         | None \<Rightarrow> b)
      else b)"

definition get_signatures_for_monitor :: "abi_lib \<Rightarrow> 'ast classified_monitor \<Rightarrow> json_abi \<Rightarrow> b256 list" where
  "get_signatures_for_monitor lib cm abi =
     (let names = sa_accessed_log_event_names (cm_analysis cm)
      in if names \<noteq> [] then
           map (al_event_selector lib) (concat (map (\<lambda>n. filter (\<lambda>e. ev_name e = n) (ja_events abi)) names))
         else map (al_event_selector lib) (ja_events abi))"

definition add_global_event_signature ::
  "registry_env \<Rightarrow> 'ast classified_monitor \<Rightarrow> interest_registry \<Rightarrow> interest_registry" where
  "add_global_event_signature env cm b =
     (case Option.bind (mon_abi_name (cm_monitor cm)) (get_abi_by_name (re_abi_service env)) of
        Some abi \<Rightarrow>
          b\<lparr>ir_global_event_signatures := ir_global_event_signatures b @ get_signatures_for_monitor (re_lib env) cm abi\<rparr>
      | None \<Rightarrow> b)"

definition set_log_interest :: "address \<Rightarrow> b256 list option \<Rightarrow> interest_registry \<Rightarrow> interest_registry" where
  "set_log_interest a i b = b\<lparr>ir_log_interests := AList.update a i (ir_log_interests b)\<rparr>"

definition add_address_interest ::
  "registry_env \<Rightarrow> 'ast classified_monitor \<Rightarrow> address \<Rightarrow> interest_registry \<Rightarrow> interest_registry" where
  "add_address_interest env cm a b =
     (if map_of (ir_log_interests b) a = Some None then b
      else
        (case mon_abi_name (cm_monitor cm) of
           None \<Rightarrow> set_log_interest a None b
         | Some abi_name \<Rightarrow>
             (case get_cached_abi (re_abi_service env) a of
                None \<Rightarrow> set_log_interest a None b
              | Some contract \<Rightarrow>
                  (if (case get_abi_by_name (re_abi_service env) abi_name of
                         Some repo_abi \<Rightarrow> ja_arc (cc_abi contract) \<noteq> ja_arc repo_abi
                       | None \<Rightarrow> False)
                   then set_log_interest a None b
                   else
                     (let sigs = get_signatures_for_monitor (re_lib env) cm (cc_abi contract)
                      in case map_of (ir_log_interests b) a of
                           Some (Some old) \<Rightarrow> set_log_interest a (Some (old @ sigs)) b
                         | Some None \<Rightarrow> b
                         | None \<Rightarrow> set_log_interest a (Some sigs) b)))))"

definition add_log_interest ::
  "registry_env \<Rightarrow> 'ast classified_monitor \<Rightarrow> interest_registry \<Rightarrow> interest_registry" where
  "add_log_interest env cm b =
     (if \<not> cap_log (cm_caps cm) then b
      else if is_global_monitor (cm_monitor cm) then add_global_event_signature env cm b
      else
        (case monitor_address env (cm_monitor cm) of
           Some a \<Rightarrow> add_address_interest env cm a b
         | None \<Rightarrow> b))"

definition registry_add :: "registry_env \<Rightarrow> 'ast classified_monitor \<Rightarrow> interest_registry \<Rightarrow> interest_registry" where
  "registry_add env cm b = add_log_interest env cm (add_calldata_interest env cm b)"

definition empty_registry :: interest_registry where
  "empty_registry = \<lparr>ir_log_interests = [], ir_calldata_addresses = [], ir_global_event_signatures = []\<rparr>"

definition build_interest_registry :: "registry_env \<Rightarrow> 'ast classified_monitor list \<Rightarrow> interest_registry" where
  "build_interest_registry env cms = fold (registry_add env) cms empty_registry"

section \<open>The organised snapshot\<close>

record 'ast monitor_asset_state =
  as_monitors_by_id :: "(i64 \<times> 'ast classified_monitor) list"
  as_tx_aware_monitors :: "i64 list"
  as_log_aware_monitors :: "i64 list"
  as_interest_registry :: interest_registry
  as_requires_receipts :: bool
  as_has_transaction_only_monitors :: bool

definition is_tx_aware :: "caps \<Rightarrow> bool" where
  "is_tx_aware c \<longleftrightarrow> cap_tx c \<or> cap_call c"

fun classify_all ::
  "'ast script_engine \<Rightarrow> monitor list \<Rightarrow> 'ast script_cache \<Rightarrow> 'ast script_cache \<times> ('ast classified_monitor \<times> bool) list" where
  "classify_all eng [] cache = (cache, [])"
| "classify_all eng (m # ms) cache =
     (case classify_monitor eng m cache of
        (c, Inl _) \<Rightarrow> classify_all eng ms c
      | (c, Inr cm) \<Rightarrow> (case classify_all eng ms c of (c', cms) \<Rightarrow> (c', cm # cms)))"

text \<open>The loop that fills the three collections.\<close>

fun organize_loop ::
  "'ast classified_monitor list \<Rightarrow> (i64 \<times> 'ast classified_monitor) list \<times> i64 list \<times> i64 list \<Rightarrow>
     (i64 \<times> 'ast classified_monitor) list \<times> i64 list \<times> i64 list" where
  "organize_loop [] acc = acc"
| "organize_loop (cm # cms) (byid, txs, logs) =
     (let i = mon_id (cm_monitor cm);
          t = is_tx_aware (cm_caps cm);
          l = cap_log (cm_caps cm);
          txs1 = (if t then txs @ [i] else txs);
          logs1 = (if l then logs @ [i] else logs);
          txs2 = (if \<not> t \<and> \<not> l then txs1 @ [i] else txs1)
      in organize_loop cms (AList.update i cm byid, txs2, logs1))"

definition organize_assets ::
  "'ast script_engine \<Rightarrow> registry_env \<Rightarrow> monitor list \<Rightarrow> 'ast script_cache \<Rightarrow> 'ast script_cache \<times> 'ast monitor_asset_state" where
  "organize_assets eng env monitors cache =
     (case classify_all eng (filter (\<lambda>m. mon_status m = Active) monitors) cache of
        (c, classified) \<Rightarrow>
          (let cms = map fst classified
           in case organize_loop cms ([], [], []) of
                (byid, txs, logs) \<Rightarrow>
                  (c, \<lparr>as_monitors_by_id = byid, as_tx_aware_monitors = txs, as_log_aware_monitors = logs,
                       as_interest_registry = build_interest_registry env cms,
                       as_requires_receipts = list_ex snd classified,
                       as_has_transaction_only_monitors =
                         list_ex (\<lambda>cm. cm_caps cm = \<lparr>cap_tx = True, cap_log = False, cap_call = False\<rparr>) cms\<rparr>)))"

section \<open>The manager\<close>

record 'ast monitor_manager =
  mg_cache :: "'ast script_cache"
  mg_state :: "'ast monitor_asset_state"

definition monitor_manager_new ::
  "'ast script_engine \<Rightarrow> registry_env \<Rightarrow> monitor list \<Rightarrow> 'ast script_cache \<Rightarrow> 'ast monitor_manager" where
  "monitor_manager_new eng env ms cache =
     (case organize_assets eng env ms cache of (c, st) \<Rightarrow> \<lparr>mg_cache = c, mg_state = st\<rparr>)"

definition monitor_manager_update ::
  "'ast script_engine \<Rightarrow> registry_env \<Rightarrow> monitor list \<Rightarrow> 'ast monitor_manager \<Rightarrow> 'ast monitor_manager" where
  "monitor_manager_update eng env ms mg =
     (case organize_assets eng env ms (mg_cache mg) of (c, st) \<Rightarrow> \<lparr>mg_cache = c, mg_state = st\<rparr>)"

definition manager_load :: "'ast monitor_manager \<Rightarrow> 'ast monitor_asset_state" where
  "manager_load mg = mg_state mg"

definition manager_registry :: "'ast monitor_manager \<Rightarrow> interest_registry" where
  "manager_registry mg = as_interest_registry (mg_state mg)"

section \<open>What the snapshot contains\<close>

text \<open>The specification of the snapshot: the active monitors whose scripts compile, each with the analysis a fresh
  compilation gives.\<close>

definition classified_of :: "'ast script_engine \<Rightarrow> monitor \<Rightarrow> 'ast classified_monitor option" where
  "classified_of eng m =
     map_option (\<lambda>a. \<lparr>cm_monitor = m, cm_caps = script_caps a, cm_analysis = a\<rparr>)
       (okR (analyze_fresh eng (mon_filter_script m)))"

definition active_classified :: "'ast script_engine \<Rightarrow> monitor list \<Rightarrow> 'ast classified_monitor list" where
  "active_classified eng ms = List.map_filter (classified_of eng) (filter (\<lambda>m. mon_status m = Active) ms)"

lemma classify_monitor_sound:
  assumes "collision_free eng S" "cache_sound eng S cache" "mon_filter_script m \<in> S"
  shows "snd (classify_monitor eng m cache) =
      mapR (\<lambda>a. (\<lparr>cm_monitor = m, cm_caps = script_caps a, cm_analysis = a\<rparr>, needs_receipt a)) (analyze_fresh eng (mon_filter_script m))"
    and "cache_sound eng S (fst (classify_monitor eng m cache))"
proof -
  obtain c r where r: "analyze_script eng (mon_filter_script m) cache = (c, r)" by fastforce
  then have eq: "analyze_fresh eng (mon_filter_script m) = r" "cache_sound eng S c"
    using analyze_script_sound [OF assms] by simp_all
  show "snd (classify_monitor eng m cache) =
      mapR (\<lambda>a. (\<lparr>cm_monitor = m, cm_caps = script_caps a, cm_analysis = a\<rparr>, needs_receipt a)) (analyze_fresh eng (mon_filter_script m))"
    by (cases r) (simp_all add: classify_monitor_def bindS_def r eq)
  show "cache_sound eng S (fst (classify_monitor eng m cache))"
    by (cases r) (simp_all add: classify_monitor_def bindS_def r eq)
qed

lemma classify_all_sound:
  assumes "collision_free eng S" "cache_sound eng S cache" "mon_filter_script ` set ms \<subseteq> S"
  shows "snd (classify_all eng ms cache) =
      map (\<lambda>cm. (cm, needs_receipt (cm_analysis cm))) (List.map_filter (classified_of eng) ms)
    \<and> cache_sound eng S (fst (classify_all eng ms cache))"
  using assms(2,3)
proof (induction ms arbitrary: cache)
  case (Cons m ms)
  have m: "mon_filter_script m \<in> S" using Cons.prems by simp
  note s = classify_monitor_sound [OF assms(1) Cons.prems(1) m]
  obtain c r where r: "classify_monitor eng m cache = (c, r)" by fastforce
  have "cache_sound eng S c" using s(2) r by simp
  with Cons have IH: "snd (classify_all eng ms c) =
      map (\<lambda>cm. (cm, needs_receipt (cm_analysis cm))) (List.map_filter (classified_of eng) ms)"
    "cache_sound eng S (fst (classify_all eng ms c))" by auto
  obtain d cms where d: "classify_all eng ms c = (d, cms)" by fastforce
  show ?case using IH s(1) r
    by (cases "analyze_fresh eng (mon_filter_script m)")
       (simp_all add: map_filter_simps classified_of_def [of eng m] d)
qed (simp add: map_filter_simps)

lemma script_caps_some: "is_tx_aware (script_caps a) \<or> cap_log (script_caps a)"
  by (auto simp: script_caps_def is_tx_aware_def Let_def)

lemma organize_loop_lists:
  "\<forall>cm \<in> set cms. is_tx_aware (cm_caps cm) \<or> cap_log (cm_caps cm) \<Longrightarrow>
   snd (organize_loop cms (byid, txs, logs)) =
     (txs @ map (mon_id \<circ> cm_monitor) (filter (is_tx_aware \<circ> cm_caps) cms),
      logs @ map (mon_id \<circ> cm_monitor) (filter (cap_log \<circ> cm_caps) cms))"
  by (induction cms arbitrary: byid txs logs) (auto simp: Let_def)

lemma organize_loop_byid:
  "distinct (map (mon_id \<circ> cm_monitor) cms) \<Longrightarrow>
   map_of (fst (organize_loop cms (byid, txs, logs))) =
     map_of byid ++ map_of (map (\<lambda>cm. (mon_id (cm_monitor cm), cm)) cms)"
proof (induction cms arbitrary: byid txs logs)
  case (Cons cm cms)
  then have "mon_id (cm_monitor cm) \<notin> dom (map_of (map (\<lambda>cm. (mon_id (cm_monitor cm), cm)) cms))"
    by (auto simp: dom_map_of_conv_image_fst)
  then show ?case using Cons by (auto simp: Let_def map_add_def fun_eq_iff split: option.splits)
qed simp

lemma map_filter_distinct_ids:
  "distinct (map mon_id ms) \<Longrightarrow> distinct (map (mon_id \<circ> cm_monitor) (List.map_filter (classified_of eng) ms)) \<and>
     (mon_id \<circ> cm_monitor) ` set (List.map_filter (classified_of eng) ms) \<subseteq> mon_id ` set ms"
  by (induction ms) (auto simp: map_filter_simps classified_of_def split: option.splits)

lemma active_classified_ids: "distinct (map mon_id ms) \<Longrightarrow> distinct (map (mon_id \<circ> cm_monitor) (active_classified eng ms))"
  unfolding active_classified_def by (rule conjunct1 [OF map_filter_distinct_ids]) (simp add: distinct_map_filter)

lemma active_classified_caps: "cm \<in> set (active_classified eng ms) \<Longrightarrow> cm_caps cm = script_caps (cm_analysis cm)"
  by (auto simp: active_classified_def map_filter_def classified_of_def)

lemma update_snapshot:
  fixes env :: registry_env and eng :: "'ast script_engine" and mg :: "'ast monitor_manager" and ms :: "monitor list"
  assumes "collision_free eng S" "cache_sound eng S (mg_cache mg)" "mon_filter_script ` set ms \<subseteq> S"
    and "distinct (map mon_id ms)"
  defines "st \<equiv> manager_load (monitor_manager_update eng env ms mg)"
    and "cms \<equiv> active_classified eng ms"
  shows "map_of (as_monitors_by_id st) = map_of (map (\<lambda>cm. (mon_id (cm_monitor cm), cm)) cms)"
    and "as_tx_aware_monitors st = map (mon_id \<circ> cm_monitor) (filter (is_tx_aware \<circ> cm_caps) cms)"
    and "as_log_aware_monitors st = map (mon_id \<circ> cm_monitor) (filter (cap_log \<circ> cm_caps) cms)"
    and "as_requires_receipts st \<longleftrightarrow> list_ex (needs_receipt \<circ> cm_analysis) cms"
    and "manager_registry (monitor_manager_update eng env ms mg) = build_interest_registry env cms"
proof -
  let ?act = "filter (\<lambda>m. mon_status m = Active) ms"
  obtain c cl where cl: "classify_all eng ?act (mg_cache mg) = (c, cl)" by fastforce
  have "mon_filter_script ` set ?act \<subseteq> S" using assms(3) by auto
  from classify_all_sound [OF assms(1,2) this] cl
  have eq: "cl = map (\<lambda>cm. (cm, needs_receipt (cm_analysis cm))) cms" by (simp add: cms_def active_classified_def)
  have fsts: "map fst cl = cms" by (simp add: eq comp_def)
  have caps: "\<forall>cm \<in> set cms. is_tx_aware (cm_caps cm) \<or> cap_log (cm_caps cm)"
    using active_classified_caps script_caps_some unfolding cms_def by metis
  obtain byid txs logs where loop: "organize_loop cms ([], [], []) = (byid, txs, logs)" using prod_cases3 by blast
  note facts = st_def manager_load_def manager_registry_def monitor_manager_update_def organize_assets_def cl fsts loop
  show "map_of (as_monitors_by_id st) = map_of (map (\<lambda>cm. (mon_id (cm_monitor cm), cm)) cms)"
    using organize_loop_byid [of cms "[]" "[]" "[]", unfolded loop] active_classified_ids [OF assms(4), of eng, folded cms_def]
    by (simp add: facts)
  show "as_tx_aware_monitors st = map (mon_id \<circ> cm_monitor) (filter (is_tx_aware \<circ> cm_caps) cms)"
    and "as_log_aware_monitors st = map (mon_id \<circ> cm_monitor) (filter (cap_log \<circ> cm_caps) cms)"
    using organize_loop_lists [OF caps, of "[]" "[]" "[]"] loop by (simp_all add: facts)
  show "as_requires_receipts st \<longleftrightarrow> list_ex (needs_receipt \<circ> cm_analysis) cms"
    by (simp add: facts) (simp add: eq list_ex_iff)
  show "manager_registry (monitor_manager_update eng env ms mg) = build_interest_registry env cms"
    by (simp add: facts)
qed

text \<open>C20. The snapshot of the monitor manager, after any earlier updates: it holds exactly the active monitors whose
  scripts compile, each under its id with its own analysis; the log pass sees those that read the log, the
  transaction pass those that read the transaction, the call or nothing; receipts are required exactly when one of them
  reads a receipt field; and the interest registry is built from the very same monitors.\<close>

theorem snapshot_contents:
  fixes env :: registry_env and eng :: "'ast script_engine" and mg :: "'ast monitor_manager" and ms :: "monitor list"
  assumes "collision_free eng S" "cache_sound eng S (mg_cache mg)" "mon_filter_script ` set ms \<subseteq> S"
    and "distinct (map mon_id ms)"
  defines "st \<equiv> manager_load (monitor_manager_update eng env ms mg)"
    and "cms \<equiv> active_classified eng ms"
  shows "map_of (as_monitors_by_id st) = map_of (map (\<lambda>cm. (mon_id (cm_monitor cm), cm)) cms) \<and>
    as_tx_aware_monitors st = map (mon_id \<circ> cm_monitor) (filter (is_tx_aware \<circ> cm_caps) cms) \<and>
    as_log_aware_monitors st = map (mon_id \<circ> cm_monitor) (filter (cap_log \<circ> cm_caps) cms) \<and>
    (as_requires_receipts st \<longleftrightarrow> list_ex (needs_receipt \<circ> cm_analysis) cms) \<and>
    manager_registry (monitor_manager_update eng env ms mg) = build_interest_registry env cms"
  unfolding st_def cms_def using update_snapshot [OF assms(1-4), of env] by blast

section \<open>What the registry lets through\<close>

definition address_monitor :: "registry_env \<Rightarrow> address \<Rightarrow> 'ast classified_monitor \<Rightarrow> bool" where
  "address_monitor env a cm \<longleftrightarrow>
     cap_log (cm_caps cm) \<and> \<not> is_global_monitor (cm_monitor cm) \<and> monitor_address env (cm_monitor cm) = Some a"

definition global_signatures :: "registry_env \<Rightarrow> 'ast classified_monitor \<Rightarrow> b256 list" where
  "global_signatures env cm =
     (if cap_log (cm_caps cm) \<and> is_global_monitor (cm_monitor cm) then
        (case Option.bind (mon_abi_name (cm_monitor cm)) (get_abi_by_name (re_abi_service env)) of
           Some abi \<Rightarrow> get_signatures_for_monitor (re_lib env) cm abi
         | None \<Rightarrow> [])
      else [])"

text \<open>What one address monitor asks for: the signatures of its ABI when the ABI linked to the address is the one it
  names, otherwise everything.\<close>

definition monitor_interest :: "registry_env \<Rightarrow> address \<Rightarrow> 'ast classified_monitor \<Rightarrow> b256 list option" where
  "monitor_interest env a cm =
     Option.bind (mon_abi_name (cm_monitor cm)) (\<lambda>name.
     Option.bind (get_cached_abi (re_abi_service env) a) (\<lambda>contract.
       if (case get_abi_by_name (re_abi_service env) name of
             Some repo \<Rightarrow> ja_arc (cc_abi contract) \<noteq> ja_arc repo | None \<Rightarrow> False)
       then None else Some (get_signatures_for_monitor (re_lib env) cm (cc_abi contract))))"

definition wants_topic :: "registry_env \<Rightarrow> address \<Rightarrow> b256 option \<Rightarrow> 'ast classified_monitor \<Rightarrow> bool" where
  "wants_topic env a t cm = (case monitor_interest env a cm of None \<Rightarrow> True | Some sigs \<Rightarrow> t \<in> Some ` set sigs)"

text \<open>The interest recorded for an address, as a set: absent, a set of signatures, or everything.\<close>

definition merge_interest :: "b256 list option option \<Rightarrow> b256 list option \<Rightarrow> b256 list option" where
  "merge_interest old new =
     (case (old, new) of
        (Some None, _) \<Rightarrow> None
      | (_, None) \<Rightarrow> None
      | (None, Some s) \<Rightarrow> Some s
      | (Some (Some o1), Some s) \<Rightarrow> Some (o1 @ s))"

lemma registry_add_simps:
  "map_of (ir_log_interests (registry_add env cm b)) a =
     (if address_monitor env a cm then Some (merge_interest (map_of (ir_log_interests b) a) (monitor_interest env a cm))
      else map_of (ir_log_interests b) a)"
  "ir_global_event_signatures (registry_add env cm b) = ir_global_event_signatures b @ global_signatures env cm"
proof -
  have call: "ir_log_interests (add_calldata_interest env cm b) = ir_log_interests b"
    "ir_global_event_signatures (add_calldata_interest env cm b) = ir_global_event_signatures b" for b
    by (simp_all add: add_calldata_interest_def split: option.splits)
  have addr: "map_of (ir_log_interests (add_address_interest env cm x b)) a =
      (if x = a then Some (merge_interest (map_of (ir_log_interests b) a) (monitor_interest env a cm))
       else map_of (ir_log_interests b) a)"
    "ir_global_event_signatures (add_address_interest env cm x b) = ir_global_event_signatures b" for x b
    by (simp_all add: add_address_interest_def merge_interest_def monitor_interest_def set_log_interest_def Let_def split: option.splits)
  have glob: "ir_log_interests (add_global_event_signature env cm b) = ir_log_interests b" for b
    by (simp add: add_global_event_signature_def split: option.splits)
  show "map_of (ir_log_interests (registry_add env cm b)) a =
     (if address_monitor env a cm then Some (merge_interest (map_of (ir_log_interests b) a) (monitor_interest env a cm))
      else map_of (ir_log_interests b) a)"
    by (simp add: registry_add_def add_log_interest_def address_monitor_def call addr glob split: option.splits)
  show "ir_global_event_signatures (registry_add env cm b) = ir_global_event_signatures b @ global_signatures env cm"
    by (simp add: registry_add_def add_log_interest_def global_signatures_def add_global_event_signature_def call addr
        split: option.splits)
qed

lemma fold_registry_globals:
  "ir_global_event_signatures (fold (registry_add env) cms b) =
     ir_global_event_signatures b @ concat (map (global_signatures env) cms)"
  by (induction cms arbitrary: b) (simp_all add: registry_add_simps)

definition interest_covers :: "b256 list option option \<Rightarrow> b256 option \<Rightarrow> bool" where
  "interest_covers i t = (case i of None \<Rightarrow> False | Some None \<Rightarrow> True | Some (Some s) \<Rightarrow> t \<in> Some ` set s)"

lemma covers_merge: "interest_covers (Some (merge_interest i j)) t \<longleftrightarrow>
    interest_covers i t \<or> (case j of None \<Rightarrow> True | Some s \<Rightarrow> t \<in> Some ` set s)"
  by (auto simp: interest_covers_def merge_interest_def split: option.splits)

lemma fold_registry_interests:
  "interest_covers (map_of (ir_log_interests (fold (registry_add env) cms b)) a) t \<longleftrightarrow>
     interest_covers (map_of (ir_log_interests b) a) t \<or>
     (\<exists>cm \<in> set cms. address_monitor env a cm \<and> wants_topic env a t cm)"
  by (induction cms arbitrary: b) (auto simp: registry_add_simps covers_merge wants_topic_def)

lemma fold_registry_dom:
  "map_of (ir_log_interests (fold (registry_add env) cms b)) a = None \<longleftrightarrow>
     map_of (ir_log_interests b) a = None \<and> \<not> list_ex (address_monitor env a) cms"
  by (induction cms arbitrary: b) (auto simp: registry_add_simps)

text \<open>A monitor asks for a log: an address monitor of the log's address for the events of its ABI that its script names, for all of them when
  the script names none, and for every log when that ABI is not the linked one; a global monitor for the events of its ABI that its script names, or
  for all of them, at any address.\<close>

definition log_wanted :: "registry_env \<Rightarrow> evm_log \<Rightarrow> 'ast classified_monitor \<Rightarrow> bool" where
  "log_wanted env l cm \<longleftrightarrow>
     address_monitor env (log_address l) cm \<and> wants_topic env (log_address l) (topic0 l) cm \<or> topic0 l \<in> Some ` set (global_signatures env cm)"

text \<open>The address of a log has log monitors of its own, and none of them asks for this log.\<close>

definition log_shadowed :: "registry_env \<Rightarrow> evm_log \<Rightarrow> 'ast classified_monitor list \<Rightarrow> bool" where
  "log_shadowed env l cms \<longleftrightarrow> list_ex (address_monitor env (log_address l)) cms \<and>
     \<not> list_ex (\<lambda>cm. address_monitor env (log_address l) cm \<and> wants_topic env (log_address l) (topic0 l) cm) cms"

lemma log_interest_cases:
  "is_log_interesting (build_interest_registry env cms) l \<longleftrightarrow>
     (let a = log_address l
      in if list_ex (address_monitor env a) cms
         then list_ex (\<lambda>cm. address_monitor env a cm \<and> wants_topic env a (topic0 l) cm) cms
         else list_ex (\<lambda>cm. topic0 l \<in> Some ` set (global_signatures env cm)) cms)"
proof -
  let ?r = "build_interest_registry env cms" and ?a = "log_address l"
  have glob: "is_globally_monitored ?r l \<longleftrightarrow> list_ex (\<lambda>cm. topic0 l \<in> Some ` set (global_signatures env cm)) cms"
  proof (cases "topic0 l")
    case (Some t)
    then have "is_globally_monitored ?r l \<longleftrightarrow> t \<in> set (concat (map (global_signatures env) cms))"
      by (cases "concat (map (global_signatures env) cms)")
         (simp_all add: is_globally_monitored_def build_interest_registry_def fold_registry_globals empty_registry_def)
    then show ?thesis using Some by (auto simp: list_ex_iff)
  qed (auto simp: is_globally_monitored_def list_ex_iff)
  have cov: "interest_covers (map_of (ir_log_interests ?r) ?a) (topic0 l) \<longleftrightarrow>
      list_ex (\<lambda>cm. address_monitor env ?a cm \<and> wants_topic env ?a (topic0 l) cm) cms"
    by (simp add: build_interest_registry_def fold_registry_interests list_ex_iff) (simp add: empty_registry_def interest_covers_def)
  have dom: "map_of (ir_log_interests ?r) ?a = None \<longleftrightarrow> \<not> list_ex (address_monitor env ?a) cms"
    by (simp add: build_interest_registry_def fold_registry_dom empty_registry_def)
  show ?thesis
  proof (cases "map_of (ir_log_interests ?r) ?a")
    case None
    then show ?thesis using dom glob by (simp add: is_log_interesting_def Let_def)
  next
    case (Some i)
    then have "is_log_interesting ?r l \<longleftrightarrow> interest_covers (Some i) (topic0 l)"
      by (auto simp: is_log_interesting_def interest_covers_def split: option.splits)
    then show ?thesis using cov dom Some by (simp add: Let_def)
  qed
qed

text \<open>C21. What the interest registry lets through: never a log that no monitor asks for, and every log that some monitor asks for except
  those of an address whose own log monitors do not ask for it. This exception hides from a global monitor the logs it asks for at such an address,
  against the comment of the registry (a log of interest to any monitor) and the user guide (a global monitor processes all logs on the
  network).\<close>

theorem log_interest_exact:
  "is_log_interesting (build_interest_registry env cms) l \<longleftrightarrow> list_ex (log_wanted env l) cms \<and> \<not> log_shadowed env l cms"
  unfolding log_interest_cases log_shadowed_def by (auto simp: Let_def list_ex_iff log_wanted_def)

text \<open>Calls: a transaction's call data is interesting exactly when its recipient is the address of a monitor that
  reads the decoded call.\<close>

lemma call_interest_exact:
  "is_calldata_interesting (build_interest_registry env cms) to \<longleftrightarrow>
     list_ex (\<lambda>cm. cap_call (cm_caps cm) \<and> to \<noteq> None \<and> monitor_address env (cm_monitor cm) = to) cms"
proof -
  have step: "ir_calldata_addresses (add_log_interest env cm b) = ir_calldata_addresses b" for cm and b :: interest_registry
    by (simp add: add_log_interest_def add_global_event_signature_def add_address_interest_def set_log_interest_def Let_def
        split: option.splits)
  have "set (ir_calldata_addresses (fold (registry_add env) cms b)) =
      set (ir_calldata_addresses b) \<union> {a. \<exists>cm \<in> set cms. cap_call (cm_caps cm) \<and> monitor_address env (cm_monitor cm) = Some a}" for b
    by (induction cms arbitrary: b)
       (auto simp: registry_add_def step add_calldata_interest_def split: option.splits if_splits)
  then show ?thesis
    by (auto simp: is_calldata_interesting_def build_interest_registry_def empty_registry_def list_ex_iff split: option.splits)
qed

section \<open>Witnesses\<close>

definition log_monitor :: monitor where
  "log_monitor = \<lparr>mon_id = 1, mon_name = ''watch'', mon_network = ''mainnet'', mon_address = Some ''all'',
     mon_abi_name = Some ''erc20'', mon_filter_script = ''log'', mon_actions = [''notify'', ''page''], mon_created_at = 0,
     mon_updated_at = 0, mon_status = Active\<rparr>"

definition tx_monitor :: monitor where
  "tx_monitor = log_monitor\<lparr>mon_id := 2, mon_address := None, mon_filter_script := ''tx'', mon_actions := [''notify'']\<rparr>"

definition paused_monitor :: monitor where
  "paused_monitor = log_monitor\<lparr>mon_id := 3, mon_status := Paused\<rparr>"

definition sample_registry_env :: registry_env where
  "sample_registry_env = \<lparr>re_lib = sample_lib, re_abi_service = sample_service,
     re_parse_address = (\<lambda>s. if s = ''0x9'' then Some 9 else None)\<rparr>"

definition sample_manager :: "string monitor_manager" where
  "sample_manager = monitor_manager_new sample_engine sample_registry_env [] []"

theorem snapshot_contents_witness:
  "as_log_aware_monitors (manager_load (monitor_manager_update sample_engine sample_registry_env
     [log_monitor, tx_monitor, paused_monitor] sample_manager)) = [1]"
proof -
  have "collision_free sample_engine {''log'', ''tx''}"
    by (auto simp: collision_free_def sample_engine_def inj_on_def)
  moreover have "cache_sound sample_engine {''log'', ''tx''} (mg_cache sample_manager)"
    by (simp add: sample_manager_def monitor_manager_new_def organize_assets_def cache_sound_empty)
  moreover have "mon_filter_script ` set [log_monitor, tx_monitor, paused_monitor] \<subseteq> {''log'', ''tx''}"
    by (simp add: log_monitor_def tx_monitor_def paused_monitor_def)
  moreover have "distinct (map mon_id [log_monitor, tx_monitor, paused_monitor])"
    by (simp add: log_monitor_def tx_monitor_def paused_monitor_def)
  ultimately have "as_log_aware_monitors (manager_load (monitor_manager_update sample_engine sample_registry_env
      [log_monitor, tx_monitor, paused_monitor] sample_manager)) =
      map (mon_id \<circ> cm_monitor) (filter (cap_log \<circ> cm_caps) (active_classified sample_engine [log_monitor, tx_monitor, paused_monitor]))"
    using snapshot_contents by blast
  also have "\<dots> = [1]"
    by (simp add: active_classified_def map_filter_simps classified_of_def log_monitor_def tx_monitor_def paused_monitor_def
        analyze_fresh_def sample_engine_def script_caps_def accesses_root_def Let_def)
  finally show ?thesis .
qed

text \<open>An address monitor in precise mode shadows the global monitors: a log of its address that only a global monitor
  names is not let through.\<close>

lemma precise_address_shadows_global:
  "map_of (ir_log_interests r) (log_address l) = Some (Some sigs) \<Longrightarrow> topic0 l = Some t \<Longrightarrow> t \<notin> set sigs \<Longrightarrow>
     t \<in> set (ir_global_event_signatures r) \<Longrightarrow> is_globally_monitored r l \<and> \<not> is_log_interesting r l"
  by (auto simp: is_globally_monitored_def is_log_interesting_def)

end
