(* ===== verification/Argus_Filtering.thy ===== *)
theory Argus_Filtering
  imports Argus_Monitor
begin

text \<open>
  The filtering engine, \<open>crates/argus-engine/src/filtering.rs\<close>: the per-item evaluation context
  with its caches, the log pass, the transaction pass, the construction of matches and the streaming loop.

  A script scope is a stack, pushed and rewound as in the code, and evaluation returns the scope it leaves
  behind. The specification at the end of the theory has neither caches nor scopes shared between evaluations.
\<close>

section \<open>Engine and context\<close>

datatype rhai_error = RhaiCompilation compiler_error | RuntimeError string | ExecutionTimeout duration

record 'ast filtering_engine =
  fe_abi_lib :: abi_lib
  fe_abi_service :: abi_service
  fe_rhai_lib :: rhai_lib
  fe_engine :: "'ast script_engine"
  fe_show_hash :: "b256 \<Rightarrow> string"

type_synonym log_cache_key = "b256 \<times> u64"

record evaluation_context =
  ec_item :: correlated_item
  ec_tx_details_cache :: "json option"
  ec_matches :: "monitor_match list"
  ec_matched_monitor_ids :: "i64 list"
  ec_decoded_call_cache :: "decoded_call option option"
  ec_decoded_call_json_cache :: "json option option"
  ec_decoded_logs_cache :: "(log_cache_key \<times> decoded_log option) list"
  ec_tx_map_cache :: "rhai_map option"

definition evaluation_context_new :: "correlated_item \<Rightarrow> evaluation_context" where
  "evaluation_context_new item = \<lparr>ec_item = item, ec_tx_details_cache = None, ec_matches = [], ec_matched_monitor_ids = [],
     ec_decoded_call_cache = None, ec_decoded_call_json_cache = None, ec_decoded_logs_cache = [], ec_tx_map_cache = None\<rparr>"

definition log_key :: "evm_log \<Rightarrow> log_cache_key option" where
  "log_key l = (case (log_transaction_hash l, log_log_index l) of (Some h, Some i) \<Rightarrow> Some (h, i) | _ \<Rightarrow> None)"

definition get_or_decode_log ::
  "'ast filtering_engine \<Rightarrow> evm_log \<Rightarrow> evaluation_context \<Rightarrow> evaluation_context \<times> decoded_log option" where
  "get_or_decode_log fe l ctx =
     (case Option.bind (log_key l) (map_of (ec_decoded_logs_cache ctx)) of
        Some cached \<Rightarrow> (ctx, cached)
      | None \<Rightarrow>
          (let result = okR (decode_log (fe_abi_lib fe) (fe_abi_service fe) l)
           in case log_key l of
                Some k \<Rightarrow> (ctx\<lparr>ec_decoded_logs_cache := AList.update k result (ec_decoded_logs_cache ctx)\<rparr>, result)
              | None \<Rightarrow> (ctx, result)))"

definition get_tx_map :: "'ast filtering_engine \<Rightarrow> evaluation_context \<Rightarrow> evaluation_context \<times> rhai_map" where
  "get_tx_map fe ctx =
     (case ec_tx_map_cache ctx of
        Some m \<Rightarrow> (ctx, m)
      | None \<Rightarrow>
          (let m = build_transaction_map (fe_rhai_lib fe) (ci_transaction (ec_item ctx)) (ci_receipt (ec_item ctx))
           in (ctx\<lparr>ec_tx_map_cache := Some m\<rparr>, m)))"

definition get_tx_details :: "'ast filtering_engine \<Rightarrow> evaluation_context \<Rightarrow> evaluation_context \<times> json" where
  "get_tx_details fe ctx =
     (case ec_tx_details_cache ctx of
        Some d \<Rightarrow> (ctx, d)
      | None \<Rightarrow>
          (let d = build_transaction_details_payload (fe_rhai_lib fe) (ci_transaction (ec_item ctx)) (ci_receipt (ec_item ctx))
           in (ctx\<lparr>ec_tx_details_cache := Some d\<rparr>, d)))"

definition get_decoded_call_json :: "'ast filtering_engine \<Rightarrow> evaluation_context \<Rightarrow> evaluation_context \<times> json option" where
  "get_decoded_call_json fe ctx =
     (let ctx' = (case (ec_decoded_call_json_cache ctx, ec_decoded_call_cache ctx) of
                    (None, Some opt_call) \<Rightarrow>
                      ctx\<lparr>ec_decoded_call_json_cache := Some (map_option (decoded_call_to_json (fe_rhai_lib fe)) opt_call)\<rparr>
                  | _ \<Rightarrow> ctx)
      in (ctx', case ec_decoded_call_json_cache ctx' of Some v \<Rightarrow> v | None \<Rightarrow> None))"

definition has_matched :: "evaluation_context \<Rightarrow> i64 \<Rightarrow> bool" where
  "has_matched ctx i \<longleftrightarrow> i \<in> set (ec_matched_monitor_ids ctx)"

definition mark_as_matched :: "i64 \<Rightarrow> evaluation_context \<Rightarrow> evaluation_context" where
  "mark_as_matched i ctx = ctx\<lparr>ec_matched_monitor_ids := List.insert i (ec_matched_monitor_ids ctx)\<rparr>"

text \<open>The call decoded for a monitor that reads it, through the context's cache.\<close>

definition get_decoded_call ::
  "'ast filtering_engine \<Rightarrow> 'ast classified_monitor \<Rightarrow> evaluation_context \<Rightarrow> evaluation_context \<times> decoded_call option" where
  "get_decoded_call fe cm ctx =
     (if cap_call (cm_caps cm) then
        (case ec_decoded_call_cache ctx of
           Some c \<Rightarrow> (ctx, c)
         | None \<Rightarrow>
             (let c = okR (decode_function_input (fe_abi_lib fe) (fe_abi_service fe) (ci_transaction (ec_item ctx)))
              in (ctx\<lparr>ec_decoded_call_cache := Some c\<rparr>, c)))
      else (ctx, None))"

section \<open>Matches\<close>

definition unwrap_or_default :: "u64 option \<Rightarrow> u64" where
  "unwrap_or_default n = (case n of Some n \<Rightarrow> n | None \<Rightarrow> 0)"

definition item_builder :: "correlated_item \<Rightarrow> monitor \<Rightarrow> string \<Rightarrow> unit match_builder" where
  "item_builder item m action =
     match_builder_new (mon_id m) (mon_name m) action
       (unwrap_or_default (tx_block_number (ci_transaction item))) (tx_hash (ci_transaction item))"

definition log_details_of :: "rhai_lib \<Rightarrow> decoded_log \<Rightarrow> log_details" where
  "log_details_of lib d =
     \<lparr>ld_address = log_address (dl_log d), ld_log_index = unwrap_or_default (log_log_index (dl_log d)), ld_name = dl_name d,
      ld_params = build_log_params_payload lib (dl_params d)\<rparr>"

definition create_log_matches ::
  "'ast filtering_engine \<Rightarrow> monitor \<Rightarrow> decoded_log \<Rightarrow> evaluation_context \<Rightarrow> evaluation_context" where
  "create_log_matches fe m d ctx =
     (case get_tx_details fe ctx of (ctx1, details) \<Rightarrow>
      case get_decoded_call_json fe ctx1 of (ctx2, call) \<Rightarrow>
        mark_as_matched (mon_id m)
          (ctx2\<lparr>ec_matches := ec_matches ctx2 @
             map (\<lambda>action. build (fe_show_hash fe) (set_decoded_call
                   (log_match (item_builder (ec_item ctx2) m action) (log_details_of (fe_rhai_lib fe) d) details) call))
               (mon_actions m)\<rparr>))"

definition create_tx_matches :: "'ast filtering_engine \<Rightarrow> monitor \<Rightarrow> evaluation_context \<Rightarrow> evaluation_context" where
  "create_tx_matches fe m ctx =
     (case get_tx_details fe ctx of (ctx1, details) \<Rightarrow>
      case get_decoded_call_json fe ctx1 of (ctx2, call) \<Rightarrow>
        ctx2\<lparr>ec_matches := ec_matches ctx2 @
           map (\<lambda>action. build (fe_show_hash fe) (set_decoded_call
                 (transaction_match (item_builder (ec_item ctx2) m action) details) call))
             (mon_actions m)\<rparr>)"

section \<open>Evaluation passes\<close>

definition eval_ast_bool_secure :: "'ast filtering_engine \<Rightarrow> 'ast \<Rightarrow> scope \<Rightarrow> scope \<times> (rhai_error + bool)" where
  "eval_ast_bool_secure fe ast sc =
     (case eng_eval (fe_engine fe) ast sc of
        (sc', Inl e) \<Rightarrow> (sc', Inl (RuntimeError e))
      | (sc', Inr (DBool b)) \<Rightarrow> (sc', Inr b)
      | (sc', Inr v) \<Rightarrow> (sc', Inl (RuntimeError (eng_type_name (fe_engine fe) v))))"

text \<open>The event-name pre-filter.\<close>

definition skip_log :: "'ast filtering_engine \<Rightarrow> 'ast classified_monitor \<Rightarrow> evm_log \<Rightarrow> bool" where
  "skip_log fe cm l \<longleftrightarrow>
     (let names = sa_accessed_log_event_names (cm_analysis cm)
      in names \<noteq> [] \<and>
         (case peek_event_name (fe_abi_service fe) l of Some e \<Rightarrow> ev_name e \<notin> set names | None \<Rightarrow> True))"

text \<open>The scope of one monitor's log loop: not yet initialised, or the stack with its base length.\<close>

type_synonym log_scope = "(scope \<times> nat) option"

definition init_log_scope ::
  "'ast filtering_engine \<Rightarrow> 'ast classified_monitor \<Rightarrow> log_scope \<Rightarrow> evaluation_context \<Rightarrow> evaluation_context \<times> scope \<times> nat" where
  "init_log_scope fe cm ls ctx =
     (case ls of
        Some (sc, base) \<Rightarrow> (ctx, sc, base)
      | None \<Rightarrow>
          (case get_tx_map fe ctx of (ctx1, m) \<Rightarrow>
           case get_decoded_call fe cm ctx1 of (ctx2, call) \<Rightarrow>
             (let sc = scope_push_constant ''decoded_call'' (ScCall call) (scope_push_constant ''tx'' (ScMap m) [])
              in (ctx2, sc, length sc))))"

fun evaluate_logs ::
  "'ast filtering_engine \<Rightarrow> 'ast classified_monitor \<Rightarrow> evm_log list \<Rightarrow> log_scope \<Rightarrow> evaluation_context \<Rightarrow> rhai_error + evaluation_context" where
  "evaluate_logs fe cm [] ls ctx = Inr ctx"
| "evaluate_logs fe cm (l # logs) ls ctx =
     (if skip_log fe cm l then evaluate_logs fe cm logs ls ctx
      else
        (case get_or_decode_log fe l ctx of
           (ctx1, None) \<Rightarrow> evaluate_logs fe cm logs ls ctx1
         | (ctx1, Some d) \<Rightarrow>
             (case init_log_scope fe cm ls ctx1 of (ctx2, sc, base) \<Rightarrow>
              case eval_ast_bool_secure fe (sa_ast (cm_analysis cm)) (scope_push ''log'' (ScLog (Some d)) sc) of
                (_, Inl e) \<Rightarrow> Inl e
              | (sc', Inr is_match) \<Rightarrow>
                  evaluate_logs fe cm logs (Some (scope_rewind base sc', base))
                    (if is_match then create_log_matches fe (cm_monitor cm) d ctx2 else ctx2))))"

fun evaluate_log_aware_monitors ::
  "'ast filtering_engine \<Rightarrow> 'ast classified_monitor list \<Rightarrow> evaluation_context \<Rightarrow> rhai_error + evaluation_context" where
  "evaluate_log_aware_monitors fe [] ctx = Inr ctx"
| "evaluate_log_aware_monitors fe (cm # cms) ctx =
     bindR (evaluate_logs fe cm (ci_logs (ec_item ctx)) None ctx) (evaluate_log_aware_monitors fe cms)"

fun evaluate_tx_loop ::
  "'ast filtering_engine \<Rightarrow> nat \<Rightarrow> 'ast classified_monitor list \<Rightarrow> scope \<Rightarrow> evaluation_context \<Rightarrow> rhai_error + evaluation_context" where
  "evaluate_tx_loop fe base [] sc ctx = Inr ctx"
| "evaluate_tx_loop fe base (cm # cms) sc ctx =
     (if has_matched ctx (mon_id (cm_monitor cm)) then evaluate_tx_loop fe base cms sc ctx
      else
        (case get_decoded_call fe cm ctx of (ctx1, call) \<Rightarrow>
         case eval_ast_bool_secure fe (sa_ast (cm_analysis cm))
                (scope_push ''decoded_call'' (ScCall call) (scope_push ''log'' (ScLog None) sc)) of
           (_, Inl e) \<Rightarrow> Inl e
         | (sc', Inr is_match) \<Rightarrow>
             evaluate_tx_loop fe base cms (scope_rewind base sc')
               (if is_match then create_tx_matches fe (cm_monitor cm) ctx1 else ctx1)))"

definition evaluate_tx_aware_monitors ::
  "'ast filtering_engine \<Rightarrow> 'ast classified_monitor list \<Rightarrow> evaluation_context \<Rightarrow> rhai_error + evaluation_context" where
  "evaluate_tx_aware_monitors fe cms ctx =
     (if cms = [] then Inr ctx
      else
        (case get_tx_map fe ctx of (ctx1, m) \<Rightarrow>
          (let sc = scope_push_constant ''tx'' (ScMap m) []
           in evaluate_tx_loop fe (length sc) cms sc ctx1)))"

definition snapshot_monitors :: "'ast monitor_asset_state \<Rightarrow> i64 list \<Rightarrow> 'ast classified_monitor list" where
  "snapshot_monitors st ids = List.map_filter (map_of (as_monitors_by_id st)) ids"

definition evaluate_item ::
  "'ast filtering_engine \<Rightarrow> 'ast monitor_asset_state \<Rightarrow> correlated_item \<Rightarrow> rhai_error + monitor_match list" where
  "evaluate_item fe st item =
     bindR (if ci_logs item \<noteq> []
            then evaluate_log_aware_monitors fe (snapshot_monitors st (as_log_aware_monitors st)) (evaluation_context_new item)
            else Inr (evaluation_context_new item)) (\<lambda>ctx.
     bindR (evaluate_tx_aware_monitors fe (snapshot_monitors st (as_tx_aware_monitors st)) ctx) (\<lambda>ctx'.
       Inr (ec_matches ctx')))"

definition requires_receipt_data :: "'ast monitor_manager \<Rightarrow> bool" where
  "requires_receipt_data mg = as_requires_receipts (manager_load mg)"

text \<open>The streaming loop: every item is evaluated against the snapshot current at that time; the items of a block are
  collected in order and one batch per block with matches is sent.\<close>

definition evaluate_block :: "'ast filtering_engine \<Rightarrow> ('ast monitor_asset_state \<times> correlated_item) list \<Rightarrow> monitor_match list" where
  "evaluate_block fe items =
     concat (map (\<lambda>(st, item). case evaluate_item fe st item of Inr ms \<Rightarrow> ms | Inl _ \<Rightarrow> []) items)"

fun filtering_run ::
  "'ast filtering_engine \<Rightarrow> ('ast monitor_asset_state \<times> correlated_item) list list \<Rightarrow> monitor_match list list" where
  "filtering_run fe [] = []"
| "filtering_run fe (b # bs) =
     (let ms = evaluate_block fe b in if ms \<noteq> [] then ms # filtering_run fe bs else filtering_run fe bs)"

section \<open>Specification\<close>

text \<open>Evaluation without caches: what each script sees and says.\<close>

definition spec_call :: "'ast filtering_engine \<Rightarrow> correlated_item \<Rightarrow> 'ast classified_monitor \<Rightarrow> decoded_call option" where
  "spec_call fe item cm =
     (if cap_call (cm_caps cm)
      then okR (decode_function_input (fe_abi_lib fe) (fe_abi_service fe) (ci_transaction item)) else None)"

definition spec_tx_map :: "'ast filtering_engine \<Rightarrow> correlated_item \<Rightarrow> rhai_map" where
  "spec_tx_map fe item = build_transaction_map (fe_rhai_lib fe) (ci_transaction item) (ci_receipt item)"

definition spec_base :: "'ast filtering_engine \<Rightarrow> correlated_item \<Rightarrow> 'ast classified_monitor \<Rightarrow> scope" where
  "spec_base fe item cm =
     scope_push_constant ''decoded_call'' (ScCall (spec_call fe item cm))
       (scope_push_constant ''tx'' (ScMap (spec_tx_map fe item)) [])"

definition spec_log_verdict ::
  "'ast filtering_engine \<Rightarrow> correlated_item \<Rightarrow> 'ast classified_monitor \<Rightarrow> evm_log \<Rightarrow> rhai_error + decoded_log option" where
  "spec_log_verdict fe item cm l =
     (if skip_log fe cm l then Inr None
      else
        (case okR (decode_log (fe_abi_lib fe) (fe_abi_service fe) l) of
           None \<Rightarrow> Inr None
         | Some d \<Rightarrow>
             mapR (\<lambda>b. if b then Some d else None)
               (snd (eval_ast_bool_secure fe (sa_ast (cm_analysis cm)) (scope_push ''log'' (ScLog (Some d)) (spec_base fe item cm))))))"

definition spec_tx_verdict ::
  "'ast filtering_engine \<Rightarrow> correlated_item \<Rightarrow> 'ast classified_monitor \<Rightarrow> rhai_error + bool" where
  "spec_tx_verdict fe item cm =
     snd (eval_ast_bool_secure fe (sa_ast (cm_analysis cm))
       (scope_push ''decoded_call'' (ScCall (spec_call fe item cm)) (scope_push ''log'' (ScLog None)
         (scope_push_constant ''tx'' (ScMap (spec_tx_map fe item)) []))))"

text \<open>The pairs of a monitor and a log it matches, and the monitors matching on the transaction alone.\<close>

definition spec_log_hits ::
  "'ast filtering_engine \<Rightarrow> correlated_item \<Rightarrow> 'ast classified_monitor list \<Rightarrow>
     rhai_error + ('ast classified_monitor \<times> decoded_log) list" where
  "spec_log_hits fe item cms =
     mapR concat (traverse (\<lambda>cm.
       mapR (\<lambda>ds. map (Pair cm) (List.map_filter id ds)) (traverse (spec_log_verdict fe item cm) (ci_logs item))) cms)"

definition spec_tx_hits ::
  "'ast filtering_engine \<Rightarrow> correlated_item \<Rightarrow> 'ast classified_monitor list \<Rightarrow> rhai_error + 'ast classified_monitor list" where
  "spec_tx_hits fe item cms =
     mapR concat (traverse (\<lambda>cm. mapR (\<lambda>b. if b then [cm] else []) (spec_tx_verdict fe item cm)) cms)"

definition spec_details :: "'ast filtering_engine \<Rightarrow> correlated_item \<Rightarrow> json" where
  "spec_details fe item = build_transaction_details_payload (fe_rhai_lib fe) (ci_transaction item) (ci_receipt item)"

definition spec_log_matches ::
  "'ast filtering_engine \<Rightarrow> correlated_item \<Rightarrow> 'ast classified_monitor \<times> decoded_log \<Rightarrow> ('ast classified_monitor \<times> monitor_match) list" where
  "spec_log_matches fe item hit =
     (case hit of (cm, d) \<Rightarrow>
        map (\<lambda>action. (cm, build (fe_show_hash fe) (log_match (item_builder item (cm_monitor cm) action)
               (log_details_of (fe_rhai_lib fe) d) (spec_details fe item)))) (mon_actions (cm_monitor cm)))"

definition spec_tx_matches ::
  "'ast filtering_engine \<Rightarrow> correlated_item \<Rightarrow> 'ast classified_monitor \<Rightarrow> ('ast classified_monitor \<times> monitor_match) list" where
  "spec_tx_matches fe item cm =
     map (\<lambda>action. (cm, build (fe_show_hash fe) (transaction_match (item_builder item (cm_monitor cm) action)
            (spec_details fe item)))) (mon_actions (cm_monitor cm))"

definition cm_id :: "'ast classified_monitor \<Rightarrow> i64" where
  "cm_id cm = mon_id (cm_monitor cm)"

definition spec_evaluate ::
  "'ast filtering_engine \<Rightarrow> 'ast monitor_asset_state \<Rightarrow> correlated_item \<Rightarrow>
     rhai_error + ('ast classified_monitor \<times> monitor_match) list" where
  "spec_evaluate fe st item =
     bindR (spec_log_hits fe item (snapshot_monitors st (as_log_aware_monitors st))) (\<lambda>hits.
     bindR (spec_tx_hits fe item
              (filter (\<lambda>cm. cm_id cm \<notin> cm_id ` fst ` set hits) (snapshot_monitors st (as_tx_aware_monitors st)))) (\<lambda>txs.
       Inr (concat (map (spec_log_matches fe item) hits) @ concat (map (spec_tx_matches fe item) txs))))"

definition spec_call_json :: "'ast filtering_engine \<Rightarrow> correlated_item \<Rightarrow> json option" where
  "spec_call_json fe item =
     map_option (decoded_call_to_json (fe_rhai_lib fe))
       (okR (decode_function_input (fe_abi_lib fe) (fe_abi_service fe) (ci_transaction item)))"

text \<open>A match of the engine refines one of the specification: they agree on everything but the decoded call,
  which is the call of the transaction if the monitor reads it, and may be missing otherwise.\<close>

definition match_refines ::
  "'ast filtering_engine \<Rightarrow> correlated_item \<Rightarrow> monitor_match \<Rightarrow> 'ast classified_monitor \<times> monitor_match \<Rightarrow> bool" where
  "match_refines fe item m spec \<longleftrightarrow>
     m\<lparr>mm_decoded_call := None\<rparr> = snd spec \<and>
     mm_decoded_call m \<in> {None, spec_call_json fe item} \<and>
     (cap_call (cm_caps (fst spec)) \<longrightarrow> mm_decoded_call m = spec_call_json fe item)"

section \<open>The caches are transparent\<close>

text \<open>Logs are cached by transaction hash and index, so the logs of one item must be told apart by them.\<close>

definition log_keys_unique :: "correlated_item \<Rightarrow> bool" where
  "log_keys_unique item \<longleftrightarrow>
     (\<forall>l \<in> set (ci_logs item). \<forall>l' \<in> set (ci_logs item). log_key l \<noteq> None \<longrightarrow> log_key l = log_key l' \<longrightarrow> l = l')"

definition ctx_ok :: "'ast filtering_engine \<Rightarrow> correlated_item \<Rightarrow> evaluation_context \<Rightarrow> bool" where
  "ctx_ok fe item ctx \<longleftrightarrow>
     log_keys_unique item \<and> ec_item ctx = item \<and>
     ec_tx_details_cache ctx \<in> {None, Some (spec_details fe item)} \<and>
     ec_tx_map_cache ctx \<in> {None, Some (spec_tx_map fe item)} \<and>
     ec_decoded_call_cache ctx \<in>
       {None, Some (okR (decode_function_input (fe_abi_lib fe) (fe_abi_service fe) (ci_transaction item)))} \<and>
     ec_decoded_call_json_cache ctx \<in> {None, Some (spec_call_json fe item)} \<and>
     (\<forall>l \<in> set (ci_logs item). \<forall>k r. log_key l = Some k \<longrightarrow> map_of (ec_decoded_logs_cache ctx) k = Some r \<longrightarrow>
        r = okR (decode_log (fe_abi_lib fe) (fe_abi_service fe) l))"

lemma ctx_ok_new: "log_keys_unique item \<Longrightarrow> ctx_ok fe item (evaluation_context_new item)"
  by (simp add: ctx_ok_def evaluation_context_new_def)

text \<open>What a getter may change of the context: only its caches, and it never forgets a decoded call.\<close>

definition same_results :: "evaluation_context \<Rightarrow> evaluation_context \<Rightarrow> bool" where
  "same_results ctx ctx' \<longleftrightarrow>
     ec_matches ctx' = ec_matches ctx \<and> ec_matched_monitor_ids ctx' = ec_matched_monitor_ids ctx \<and>
     (ec_decoded_call_cache ctx \<noteq> None \<longrightarrow> ec_decoded_call_cache ctx' \<noteq> None)"

lemma get_or_decode_log_ok:
  assumes "ctx_ok fe item ctx" "l \<in> set (ci_logs item)" "get_or_decode_log fe l ctx = (ctx', r)"
  shows "r = okR (decode_log (fe_abi_lib fe) (fe_abi_service fe) l) \<and> ctx_ok fe item ctx' \<and> same_results ctx ctx'"
proof (cases "Option.bind (log_key l) (map_of (ec_decoded_logs_cache ctx))")
  case None
  have uniq: "log_key l' = log_key l \<Longrightarrow> log_key l \<noteq> None \<Longrightarrow> l' \<in> set (ci_logs item) \<Longrightarrow> l' = l" for l'
    using assms(1,2) unfolding ctx_ok_def log_keys_unique_def by metis
  show ?thesis
  proof (cases "log_key l")
    case (Some k)
    then have "ctx' = ctx\<lparr>ec_decoded_logs_cache := AList.update k r (ec_decoded_logs_cache ctx)\<rparr>"
      and r: "r = okR (decode_log (fe_abi_lib fe) (fe_abi_service fe) l)"
      using assms(3) None by (auto simp: get_or_decode_log_def Let_def)
    then show ?thesis using assms(1) uniq Some by (auto simp: ctx_ok_def same_results_def)
  qed (use assms in \<open>auto simp: get_or_decode_log_def same_results_def Let_def\<close>)
next
  case (Some c)
  then show ?thesis using assms by (auto simp: get_or_decode_log_def ctx_ok_def same_results_def split: bind_splits)
qed

lemma get_tx_map_ok:
  "ctx_ok fe item ctx \<Longrightarrow> get_tx_map fe ctx = (ctx', m) \<Longrightarrow>
     m = spec_tx_map fe item \<and> ctx_ok fe item ctx' \<and> same_results ctx ctx'"
  by (auto simp: get_tx_map_def ctx_ok_def same_results_def spec_tx_map_def Let_def split: option.splits)

lemma get_tx_details_ok:
  "ctx_ok fe item ctx \<Longrightarrow> get_tx_details fe ctx = (ctx', d) \<Longrightarrow>
     d = spec_details fe item \<and> ctx_ok fe item ctx' \<and> same_results ctx ctx'"
  by (auto simp: get_tx_details_def ctx_ok_def same_results_def spec_details_def Let_def split: option.splits)

lemma get_decoded_call_ok:
  "ctx_ok fe item ctx \<Longrightarrow> get_decoded_call fe cm ctx = (ctx', c) \<Longrightarrow>
     c = spec_call fe item cm \<and> ctx_ok fe item ctx' \<and> same_results ctx ctx' \<and>
     (cap_call (cm_caps cm) \<longrightarrow> ec_decoded_call_cache ctx' \<noteq> None)"
  by (auto simp: get_decoded_call_def ctx_ok_def same_results_def spec_call_def Let_def split: option.splits if_splits)

lemma get_decoded_call_json_ok:
  "ctx_ok fe item ctx \<Longrightarrow> get_decoded_call_json fe ctx = (ctx', j) \<Longrightarrow>
     j \<in> {None, spec_call_json fe item} \<and> (ec_decoded_call_cache ctx \<noteq> None \<longrightarrow> j = spec_call_json fe item) \<and>
     ctx_ok fe item ctx' \<and> same_results ctx ctx'"
  by (auto simp: get_decoded_call_json_def ctx_ok_def same_results_def spec_call_json_def Let_def split: option.splits)

section \<open>The passes refine the specification\<close>

definition step_ok ::
  "'ast filtering_engine \<Rightarrow> correlated_item \<Rightarrow> ('ast classified_monitor \<times> monitor_match) list \<Rightarrow> i64 set \<Rightarrow>
     evaluation_context \<Rightarrow> evaluation_context \<Rightarrow> bool" where
  "step_ok fe item specs ids ctx ctx' \<longleftrightarrow>
     ctx_ok fe item ctx' \<and> set (ec_matched_monitor_ids ctx') = set (ec_matched_monitor_ids ctx) \<union> ids \<and>
     (\<exists>new. ec_matches ctx' = ec_matches ctx @ new \<and> list_all2 (match_refines fe item) new specs) \<and>
     (ec_decoded_call_cache ctx \<noteq> None \<longrightarrow> ec_decoded_call_cache ctx' \<noteq> None)"

lemma step_ok_refl: "ctx_ok fe item ctx \<Longrightarrow> step_ok fe item [] {} ctx ctx"
  by (simp add: step_ok_def)

lemma step_ok_same: "same_results ctx ctx' \<Longrightarrow> ctx_ok fe item ctx' \<Longrightarrow> step_ok fe item [] {} ctx ctx'"
  by (simp add: step_ok_def same_results_def)

lemma step_ok_trans:
  assumes "step_ok fe item s1 i1 a b" "step_ok fe item s2 i2 b c"
  shows "step_ok fe item (s1 @ s2) (i1 \<union> i2) a c"
proof -
  obtain n1 n2 where n: "ec_matches b = ec_matches a @ n1" "list_all2 (match_refines fe item) n1 s1"
    "ec_matches c = ec_matches b @ n2" "list_all2 (match_refines fe item) n2 s2"
    using assms by (auto simp: step_ok_def)
  then have "ec_matches c = ec_matches a @ (n1 @ n2)" "list_all2 (match_refines fe item) (n1 @ n2) (s1 @ s2)"
    by (simp_all add: list_all2_appendI)
  then show ?thesis using assms unfolding step_ok_def by blast
qed

lemma build_refines:
  assumes "mb_decoded_call b = None" "call \<in> {None, spec_call_json fe item}"
    and "cap_call (cm_caps cm) \<Longrightarrow> call = spec_call_json fe item"
  shows "match_refines fe item (build sh (set_decoded_call b call)) (cm, build sh b)"
  using assms by (auto simp: match_refines_def build_def set_decoded_call_def match_id_def split: match_data.splits)

lemma step_ok_push:
  assumes "ctx_ok fe item ctx" "ctx_ok fe item ctx'" "same_results ctx ctx'"
    and "list_all2 (match_refines fe item) ms specs"
  shows "step_ok fe item specs {} ctx (ctx'\<lparr>ec_matches := ec_matches ctx' @ ms\<rparr>)"
  using assms by (simp add: step_ok_def same_results_def ctx_ok_def)

lemma step_ok_mark: "step_ok fe item specs {} ctx ctx' \<Longrightarrow> step_ok fe item specs {i} ctx (mark_as_matched i ctx')"
  by (auto simp: step_ok_def mark_as_matched_def ctx_ok_def)

lemma builder_no_call:
  "mb_decoded_call (log_match (item_builder item m a) ld tx) = None"
  "mb_decoded_call (transaction_match (item_builder item m a) tx) = None"
  by (simp_all add: log_match_def transaction_match_def with_match_data_def item_builder_def match_builder_new_def)

lemma payloads_ok:
  assumes "ctx_ok fe item ctx" "cap_call (cm_caps cm) \<Longrightarrow> ec_decoded_call_cache ctx \<noteq> None"
  obtains c1 c2 call where "get_tx_details fe ctx = (c1, spec_details fe item)" "get_decoded_call_json fe c1 = (c2, call)"
    "ctx_ok fe item c2" "same_results ctx c2" "ec_item c2 = item" "call \<in> {None, spec_call_json fe item}"
    "cap_call (cm_caps cm) \<Longrightarrow> call = spec_call_json fe item"
proof -
  obtain c1 det where d: "get_tx_details fe ctx = (c1, det)" by fastforce
  note h1 = get_tx_details_ok [OF assms(1) d]
  obtain c2 call where c: "get_decoded_call_json fe c1 = (c2, call)" by fastforce
  have h2: "call \<in> {None, spec_call_json fe item}" "ec_decoded_call_cache c1 \<noteq> None \<longrightarrow> call = spec_call_json fe item"
    "ctx_ok fe item c2" "same_results c1 c2"
    using get_decoded_call_json_ok [OF _ c, of item] h1 by blast+
  show thesis
    by (rule that [of c1 c2 call]) (use h1 h2 c d assms(2) in \<open>auto simp: same_results_def ctx_ok_def\<close>)
qed

lemma create_log_matches_ok:
  assumes "ctx_ok fe item ctx" "cap_call (cm_caps cm) \<Longrightarrow> ec_decoded_call_cache ctx \<noteq> None"
  shows "step_ok fe item (spec_log_matches fe item (cm, d)) {cm_id cm} ctx (create_log_matches fe (cm_monitor cm) d ctx)"
proof -
  from payloads_ok [OF assms] obtain c1 c2 call where p: "get_tx_details fe ctx = (c1, spec_details fe item)"
    "get_decoded_call_json fe c1 = (c2, call)" "ctx_ok fe item c2" "same_results ctx c2" "ec_item c2 = item"
    "call \<in> {None, spec_call_json fe item}" "cap_call (cm_caps cm) \<Longrightarrow> call = spec_call_json fe item" by blast
  let ?b = "\<lambda>a. log_match (item_builder item (cm_monitor cm) a) (log_details_of (fe_rhai_lib fe) d) (spec_details fe item)"
  have "list_all2 (match_refines fe item)
      (map (\<lambda>a. build (fe_show_hash fe) (set_decoded_call (?b a) call)) (mon_actions (cm_monitor cm)))
      (spec_log_matches fe item (cm, d))"
    unfolding spec_log_matches_def prod.case list_all2_map1 list_all2_map2
    by (rule list.rel_refl, rule build_refines [OF builder_no_call(1) p(6,7)])
  from step_ok_mark [OF step_ok_push [OF assms(1) p(3,4) this]] show ?thesis
    by (simp add: create_log_matches_def p(1,2,5) cm_id_def)
qed

lemma create_tx_matches_ok:
  assumes "ctx_ok fe item ctx" "cap_call (cm_caps cm) \<Longrightarrow> ec_decoded_call_cache ctx \<noteq> None"
  shows "step_ok fe item (spec_tx_matches fe item cm) {} ctx (create_tx_matches fe (cm_monitor cm) ctx)"
proof -
  from payloads_ok [OF assms] obtain c1 c2 call where p: "get_tx_details fe ctx = (c1, spec_details fe item)"
    "get_decoded_call_json fe c1 = (c2, call)" "ctx_ok fe item c2" "same_results ctx c2" "ec_item c2 = item"
    "call \<in> {None, spec_call_json fe item}" "cap_call (cm_caps cm) \<Longrightarrow> call = spec_call_json fe item" by blast
  let ?b = "\<lambda>a. transaction_match (item_builder item (cm_monitor cm) a) (spec_details fe item)"
  have "list_all2 (match_refines fe item)
      (map (\<lambda>a. build (fe_show_hash fe) (set_decoded_call (?b a) call)) (mon_actions (cm_monitor cm)))
      (spec_tx_matches fe item cm)"
    unfolding spec_tx_matches_def list_all2_map1 list_all2_map2
    by (rule list.rel_refl, rule build_refines [OF builder_no_call(2) p(6,7)])
  from step_ok_push [OF assms(1) p(3,4) this] show ?thesis
    by (simp add: create_tx_matches_def p(1,2,5))
qed

subsection \<open>Scopes\<close>

text \<open>Rewinding to the base after an evaluation gives back the base, since the engine keeps constants.\<close>

lemma eval_rewind:
  assumes "keeps_constants (fe_engine fe)" "list_all sc_constant base"
    and "eval_ast_bool_secure fe ast (base @ rest) = (sc', r)"
  shows "scope_rewind (length base) sc' = base"
proof -
  have "fst (eng_eval (fe_engine fe) ast (base @ rest)) = sc'"
    using assms(3) by (auto simp: eval_ast_bool_secure_def split: prod.splits sum.splits dynamic.splits)
  then show ?thesis using assms(1,2) unfolding keeps_constants_def scope_rewind_def list_all_iff by metis
qed

lemma spec_base_constant: "list_all sc_constant (spec_base fe item cm)" "length (spec_base fe item cm) = 2"
  by (simp_all add: spec_base_def scope_push_constant_def)

definition scope_ok ::
  "'ast filtering_engine \<Rightarrow> correlated_item \<Rightarrow> 'ast classified_monitor \<Rightarrow> log_scope \<Rightarrow> evaluation_context \<Rightarrow> bool" where
  "scope_ok fe item cm ls ctx \<longleftrightarrow>
     ls = None \<or> (ls = Some (spec_base fe item cm, 2) \<and> (cap_call (cm_caps cm) \<longrightarrow> ec_decoded_call_cache ctx \<noteq> None))"

lemma init_log_scope_ok:
  assumes "ctx_ok fe item ctx" "scope_ok fe item cm ls ctx" "init_log_scope fe cm ls ctx = (ctx', sc, base)"
  shows "sc = spec_base fe item cm" "base = 2" "ctx_ok fe item ctx'" "same_results ctx ctx'"
    "cap_call (cm_caps cm) \<longrightarrow> ec_decoded_call_cache ctx' \<noteq> None"
proof -
  have "sc = spec_base fe item cm \<and> base = 2 \<and> ctx_ok fe item ctx' \<and> same_results ctx ctx' \<and>
      (cap_call (cm_caps cm) \<longrightarrow> ec_decoded_call_cache ctx' \<noteq> None)"
  proof (cases ls)
    case None
    obtain c1 m where m: "get_tx_map fe ctx = (c1, m)" by fastforce
    obtain c2 call where c: "get_decoded_call fe cm c1 = (c2, call)" by fastforce
    note h1 = get_tx_map_ok [OF assms(1) m]
    then have h2: "call = spec_call fe item cm" "ctx_ok fe item c2" "same_results c1 c2"
      "cap_call (cm_caps cm) \<longrightarrow> ec_decoded_call_cache c2 \<noteq> None"
      using get_decoded_call_ok [OF _ c] by blast+
    have "(ctx', sc, base) = (c2, spec_base fe item cm, 2)"
      using assms(3) None h1 h2(1) by (simp add: init_log_scope_def m c spec_base_def scope_push_constant_def)
    then show ?thesis using h1 h2 by (auto simp: same_results_def)
  next
    case (Some p)
    then show ?thesis using assms by (auto simp: init_log_scope_def scope_ok_def same_results_def)
  qed
  then show "sc = spec_base fe item cm" "base = 2" "ctx_ok fe item ctx'" "same_results ctx ctx'"
    "cap_call (cm_caps cm) \<longrightarrow> ec_decoded_call_cache ctx' \<noteq> None" by blast+
qed

subsection \<open>The log pass\<close>

definition log_step_ok ::
  "'ast filtering_engine \<Rightarrow> correlated_item \<Rightarrow> 'ast classified_monitor \<Rightarrow> evaluation_context \<Rightarrow>
     evaluation_context \<Rightarrow> decoded_log option list \<Rightarrow> bool" where
  "log_step_ok fe item cm ctx ctx' ds \<longleftrightarrow>
     step_ok fe item (concat (map (spec_log_matches fe item \<circ> Pair cm) (List.map_filter id ds)))
       (if List.map_filter id ds = [] then {} else {cm_id cm}) ctx ctx'"

lemma log_step_ok_Cons:
  assumes "step_ok fe item (case v of None \<Rightarrow> [] | Some d \<Rightarrow> spec_log_matches fe item (cm, d))
      (if v = None then {} else {cm_id cm}) ctx ctx1"
    and rel: "rel_sum (=) (log_step_ok fe item cm ctx1) r t"
  shows "rel_sum (=) (log_step_ok fe item cm ctx) r (case t of Inl e \<Rightarrow> Inl e | Inr ys \<Rightarrow> Inr (v # ys))"
proof (cases t)
  case (Inr ys)
  then obtain c' where c': "r = Inr c'" "log_step_ok fe item cm ctx1 c' ys" using rel by (cases r) auto
  then show ?thesis using Inr step_ok_trans [OF assms(1) c'(2) [unfolded log_step_ok_def]]
    by (cases v) (auto simp: log_step_ok_def map_filter_simps comp_def split: if_splits)
qed (use rel in \<open>cases r; auto\<close>)

lemma evaluate_logs_ok:
  assumes "keeps_constants (fe_engine fe)" "ctx_ok fe item ctx" "scope_ok fe item cm ls ctx" "set logs \<subseteq> set (ci_logs item)"
  shows "rel_sum (=) (log_step_ok fe item cm ctx) (evaluate_logs fe cm logs ls ctx) (traverse (spec_log_verdict fe item cm) logs)"
  using assms(2-4)
proof (induction logs arbitrary: ls ctx)
  case Nil
  then show ?case by (simp add: log_step_ok_def step_ok_refl map_filter_simps)
next
  case (Cons l logs)
  show ?case
  proof (cases "skip_log fe cm l")
    case True
    have "rel_sum (=) (log_step_ok fe item cm ctx) (evaluate_logs fe cm logs ls ctx) (traverse (spec_log_verdict fe item cm) logs)"
      using Cons by simp
    from log_step_ok_Cons [where v = None, OF _ this] show ?thesis
      using True Cons.prems by (simp add: spec_log_verdict_def [of fe item cm l] step_ok_refl)
  next
    case False
    obtain c1 r where g: "get_or_decode_log fe l ctx = (c1, r)" by fastforce
    have c1: "r = okR (decode_log (fe_abi_lib fe) (fe_abi_service fe) l)" "ctx_ok fe item c1" "same_results ctx c1"
      using get_or_decode_log_ok [OF Cons.prems(1) _ g] Cons.prems(3) by auto
    then have sc1: "scope_ok fe item cm ls c1" using Cons.prems(2) by (auto simp: scope_ok_def same_results_def)
    show ?thesis
    proof (cases r)
      case None
      have "rel_sum (=) (log_step_ok fe item cm c1) (evaluate_logs fe cm logs ls c1) (traverse (spec_log_verdict fe item cm) logs)"
        using Cons.IH [OF c1(2) sc1] Cons.prems(3) by simp
      from log_step_ok_Cons [where v = None, OF _ this] show ?thesis
        using False g c1 None step_ok_same [OF c1(3,2)] by (simp add: spec_log_verdict_def [of fe item cm l])
    next
      case (Some d)
      obtain c2 sc base where i: "init_log_scope fe cm ls c1 = (c2, sc, base)" using prod_cases3 by blast
      note sc = init_log_scope_ok [OF c1(2) sc1 i]
      obtain sc' v where e: "eval_ast_bool_secure fe (sa_ast (cm_analysis cm))
          (scope_push ''log'' (ScLog (Some d)) (spec_base fe item cm)) = (sc', v)" by fastforce
      have rw: "scope_rewind 2 sc' = spec_base fe item cm"
        using eval_rewind [OF assms(1) spec_base_constant(1) e [unfolded scope_push_def]] by (simp add: spec_base_constant)
      have ver: "spec_log_verdict fe item cm l = mapR (\<lambda>b. if b then Some d else None) v"
        using False c1(1) [unfolded Some, symmetric] e by (simp add: spec_log_verdict_def)
      show ?thesis
      proof (cases v)
        case (Inl x)
        then show ?thesis using False g Some i sc(1) e ver by simp
      next
        case (Inr b)
        let ?c3 = "if b then create_log_matches fe (cm_monitor cm) d c2 else c2"
        have st: "step_ok fe item (case (if b then Some d else None) of None \<Rightarrow> [] | Some d \<Rightarrow> spec_log_matches fe item (cm, d))
            (if (if b then Some d else None) = None then {} else {cm_id cm}) c2 ?c3"
          using create_log_matches_ok [OF sc(3), of cm d] sc(3,5) by (auto simp: step_ok_refl)
        have st': "step_ok fe item (case (if b then Some d else None) of None \<Rightarrow> [] | Some d \<Rightarrow> spec_log_matches fe item (cm, d))
            (if (if b then Some d else None) = None then {} else {cm_id cm}) ctx ?c3"
          using step_ok_trans [OF step_ok_same [OF c1(3,2)] step_ok_trans [OF step_ok_same [OF sc(4,3)] st]] by simp
        have ok3: "ctx_ok fe item ?c3" "scope_ok fe item cm (Some (spec_base fe item cm, 2)) ?c3"
          using st sc(5) by (auto simp: step_ok_def scope_ok_def)
        have rel: "rel_sum (=) (log_step_ok fe item cm ?c3) (evaluate_logs fe cm logs (Some (spec_base fe item cm, 2)) ?c3)
            (traverse (spec_log_verdict fe item cm) logs)"
          using Cons.IH [OF ok3] Cons.prems(3) by simp
        show ?thesis using log_step_ok_Cons [OF st' rel] False g Some i sc(1,2) e rw ver Inr by simp
      qed
    qed
  qed
qed

lemma evaluate_log_aware_ok:
  assumes "keeps_constants (fe_engine fe)" "ctx_ok fe item ctx"
  shows "rel_sum (=) (\<lambda>ctx' hits. step_ok fe item (concat (map (spec_log_matches fe item) hits)) (cm_id ` fst ` set hits) ctx ctx')
    (evaluate_log_aware_monitors fe cms ctx) (spec_log_hits fe item cms)"
  using assms(2)
proof (induction cms arbitrary: ctx)
  case Nil
  then show ?case by (simp add: spec_log_hits_def step_ok_refl)
next
  case (Cons cm cms)
  let ?R = "\<lambda>ctx ctx' hits. step_ok fe item (concat (map (spec_log_matches fe item) hits)) (cm_id ` fst ` set hits) ctx ctx'"
  have item: "ec_item ctx = item" using Cons.prems by (simp add: ctx_ok_def)
  have one: "rel_sum (=) (log_step_ok fe item cm ctx) (evaluate_logs fe cm (ci_logs item) None ctx)
      (traverse (spec_log_verdict fe item cm) (ci_logs item))"
    by (rule evaluate_logs_ok [OF assms(1) Cons.prems]) (simp_all add: scope_ok_def)
  show ?case
  proof (cases "traverse (spec_log_verdict fe item cm) (ci_logs item)")
    case (Inl e)
    then show ?thesis using one item by (cases "evaluate_logs fe cm (ci_logs item) None ctx") (auto simp: spec_log_hits_def)
  next
    case (Inr ds)
    then obtain c1 where c1: "evaluate_logs fe cm (ci_logs item) None ctx = Inr c1"
      and st: "log_step_ok fe item cm ctx c1 ds"
      using one by (cases "evaluate_logs fe cm (ci_logs item) None ctx") auto
    have eq: "cm_id ` fst ` set (map (Pair cm) xs) = (if xs = [] then {} else {cm_id cm})" for xs :: "decoded_log list"
      by (cases xs) (auto simp: image_image)
    have st1: "?R ctx c1 (map (Pair cm) (List.map_filter id ds))" using st by (simp only: log_step_ok_def eq map_map)
    have "ctx_ok fe item c1" using st by (simp add: log_step_ok_def step_ok_def)
    note IH = Cons.IH [OF this]
    show ?thesis
    proof (cases "spec_log_hits fe item cms")
      case (Inl e)
      then show ?thesis using IH Inr c1 item
        by (cases "evaluate_log_aware_monitors fe cms c1") (auto simp: spec_log_hits_def split: sum.splits)
    next
      case hits: (Inr hits)
      then obtain c2 where c2: "evaluate_log_aware_monitors fe cms c1 = Inr c2" "?R c1 c2 hits"
        using IH by (cases "evaluate_log_aware_monitors fe cms c1") auto
      have "spec_log_hits fe item (cm # cms) = Inr (map (Pair cm) (List.map_filter id ds) @ hits)"
        using hits Inr by (auto simp: spec_log_hits_def result_simps split: sum.splits)
      then show ?thesis using step_ok_trans [OF st1 c2(2)] c1 c2(1) item by (simp add: image_Un)
    qed
  qed
qed

subsection \<open>The transaction pass\<close>

lemma evaluate_tx_loop_ok:
  assumes "keeps_constants (fe_engine fe)" "ctx_ok fe item ctx"
  defines "base \<equiv> scope_push_constant ''tx'' (ScMap (spec_tx_map fe item)) []"
  shows "rel_sum (=) (\<lambda>ctx' txs. step_ok fe item (concat (map (spec_tx_matches fe item) txs)) {} ctx ctx')
    (evaluate_tx_loop fe 1 cms base ctx)
    (spec_tx_hits fe item (filter (\<lambda>cm. cm_id cm \<notin> set (ec_matched_monitor_ids ctx)) cms))"
  using assms(2)
proof (induction cms arbitrary: ctx)
  case Nil
  then show ?case by (simp add: spec_tx_hits_def step_ok_refl)
next
  case (Cons cm cms)
  let ?R = "\<lambda>ctx ctx' txs. step_ok fe item (concat (map (spec_tx_matches fe item) txs)) {} ctx ctx'"
  show ?case
  proof (cases "has_matched ctx (mon_id (cm_monitor cm))")
    case True
    then show ?thesis using Cons by (simp add: has_matched_def cm_id_def)
  next
    case False
    then have keep: "cm_id cm \<notin> set (ec_matched_monitor_ids ctx)" by (simp add: has_matched_def cm_id_def)
    obtain c1 call where c: "get_decoded_call fe cm ctx = (c1, call)" by fastforce
    note h = get_decoded_call_ok [OF Cons.prems c]
    obtain sc' v where e: "eval_ast_bool_secure fe (sa_ast (cm_analysis cm))
        (scope_push ''decoded_call'' (ScCall call) (scope_push ''log'' (ScLog None) base)) = (sc', v)" by fastforce
    have "list_all sc_constant base" "length base = 1" by (simp_all add: base_def scope_push_constant_def)
    then have rw: "scope_rewind 1 sc' = base"
      using eval_rewind [OF assms(1) _ e [unfolded scope_push_def append.assoc]] by simp
    have ver: "spec_tx_verdict fe item cm = v" using e h by (simp add: spec_tx_verdict_def base_def)
    show ?thesis
    proof (cases v)
      case (Inl x)
      then show ?thesis using False keep c e ver by (simp add: spec_tx_hits_def)
    next
      case (Inr b)
      let ?c2 = "if b then create_tx_matches fe (cm_monitor cm) c1 else c1"
      let ?tx = "if b then [cm] else []"
      have st: "?R ctx ?c2 ?tx"
      proof (cases b)
        case True
        then show ?thesis using step_ok_trans [OF step_ok_same create_tx_matches_ok] h by fastforce
      qed (use h step_ok_same in auto)
      then have ok2: "ctx_ok fe item ?c2" and ids: "set (ec_matched_monitor_ids ?c2) = set (ec_matched_monitor_ids ctx)"
        by (auto simp: step_ok_def)
      note IH = Cons.IH [OF ok2, unfolded ids]
      let ?rest = "filter (\<lambda>cm. cm_id cm \<notin> set (ec_matched_monitor_ids ctx)) cms"
      have run: "evaluate_tx_loop fe 1 (cm # cms) base ctx = evaluate_tx_loop fe 1 cms base ?c2"
        using False c e Inr rw by simp
      show ?thesis
      proof (cases "spec_tx_hits fe item ?rest")
        case (Inl x)
        then have "spec_tx_hits fe item (cm # ?rest) = Inl x"
          using ver Inr by (auto simp: spec_tx_hits_def split: sum.splits)
        then show ?thesis using IH Inl run keep by (cases "evaluate_tx_loop fe 1 cms base ?c2") auto
      next
        case hits: (Inr txs)
        then obtain c3 where c3: "evaluate_tx_loop fe 1 cms base ?c2 = Inr c3" "?R ?c2 c3 txs"
          using IH by (cases "evaluate_tx_loop fe 1 cms base ?c2") auto
        have "spec_tx_hits fe item (cm # ?rest) = Inr (?tx @ txs)"
          using hits ver Inr by (auto simp: spec_tx_hits_def result_simps split: sum.splits)
        then show ?thesis using step_ok_trans [OF st c3(2)] run c3(1) keep by (simp only: filter.simps if_True) simp
      qed
    qed
  qed
qed

lemma evaluate_tx_aware_ok:
  assumes "keeps_constants (fe_engine fe)" "ctx_ok fe item ctx"
  shows "rel_sum (=) (\<lambda>ctx' txs. step_ok fe item (concat (map (spec_tx_matches fe item) txs)) {} ctx ctx')
    (evaluate_tx_aware_monitors fe cms ctx)
    (spec_tx_hits fe item (filter (\<lambda>cm. cm_id cm \<notin> set (ec_matched_monitor_ids ctx)) cms))"
proof (cases "cms = []")
  case True
  then show ?thesis using assms(2) by (simp add: evaluate_tx_aware_monitors_def spec_tx_hits_def step_ok_refl)
next
  case False
  obtain c1 m where m: "get_tx_map fe ctx = (c1, m)" by fastforce
  note h = get_tx_map_ok [OF assms(2) m]
  then have ids: "ec_matched_monitor_ids c1 = ec_matched_monitor_ids ctx" by (simp add: same_results_def)
  have st: "step_ok fe item specs {} c1 x \<Longrightarrow> step_ok fe item specs {} ctx x" for specs x
    using step_ok_trans [OF step_ok_same] h by fastforce
  have run: "evaluate_tx_aware_monitors fe cms ctx =
      evaluate_tx_loop fe 1 cms (scope_push_constant ''tx'' (ScMap (spec_tx_map fe item)) []) c1"
    using False m h by (simp add: evaluate_tx_aware_monitors_def scope_push_constant_def)
  have "ctx_ok fe item c1" using h by blast
  from evaluate_tx_loop_ok [OF assms(1) this, of cms, unfolded ids] show ?thesis
    unfolding run by (rule sum.rel_mono_strong) (use st in auto)
qed

section \<open>Main theorems\<close>

lemma evaluate_item_refines:
  assumes "keeps_constants (fe_engine fe)" "log_keys_unique item"
  shows "rel_sum (=) (list_all2 (match_refines fe item)) (evaluate_item fe st item) (spec_evaluate fe st item)"
proof -
  let ?logs = "snapshot_monitors st (as_log_aware_monitors st)" and ?ctx = "evaluation_context_new item"
  let ?p1 = "if ci_logs item \<noteq> [] then evaluate_log_aware_monitors fe ?logs ?ctx else Inr ?ctx"
  let ?R = "\<lambda>ctx' hits. step_ok fe item (concat (map (spec_log_matches fe item) hits)) (cm_id ` fst ` set hits) ?ctx ctx'"
  have ok: "ctx_ok fe item ?ctx" by (rule ctx_ok_new [OF assms(2)])
  have nolog: "spec_log_hits fe item cms = Inr []" if "ci_logs item = []" for cms
    using that by (simp add: spec_log_hits_def map_filter_simps traverse_map_Inr [where g = "\<lambda>_. []"])
  have p1: "rel_sum (=) ?R ?p1 (spec_log_hits fe item ?logs)"
    using evaluate_log_aware_ok [OF assms(1) ok, of ?logs] nolog step_ok_refl [OF ok] by auto
  show ?thesis
  proof (cases "spec_log_hits fe item ?logs")
    case (Inl e)
    then show ?thesis using p1 by (cases ?p1) (auto simp: evaluate_item_def spec_evaluate_def)
  next
    case (Inr hits)
    then obtain c1 where c1: "?p1 = Inr c1" "?R c1 hits" using p1 by (cases ?p1) auto
    then have ids: "set (ec_matched_monitor_ids c1) = cm_id ` fst ` set hits" and ok1: "ctx_ok fe item c1"
      by (simp_all add: step_ok_def evaluation_context_new_def)
    let ?cms = "snapshot_monitors st (as_tx_aware_monitors st)"
    let ?rest = "filter (\<lambda>cm. cm_id cm \<notin> cm_id ` fst ` set hits) ?cms"
    note p2 = evaluate_tx_aware_ok [OF assms(1) ok1, of ?cms, unfolded ids]
    show ?thesis
    proof (cases "spec_tx_hits fe item ?rest")
      case (Inl e)
      then show ?thesis using p2 Inr c1(1)
        by (cases "evaluate_tx_aware_monitors fe ?cms c1") (auto simp: evaluate_item_def spec_evaluate_def)
    next
      case txs: (Inr txs)
      then obtain c2 where c2: "evaluate_tx_aware_monitors fe ?cms c1 = Inr c2"
        "step_ok fe item (concat (map (spec_tx_matches fe item) txs)) {} c1 c2"
        using p2 by (cases "evaluate_tx_aware_monitors fe ?cms c1") auto
      have "list_all2 (match_refines fe item) (ec_matches c2)
          (concat (map (spec_log_matches fe item) hits) @ concat (map (spec_tx_matches fe item) txs))"
        using step_ok_trans [OF c1(2) c2(2)] by (auto simp: step_ok_def evaluation_context_new_def)
      then show ?thesis using Inr txs c1(1) c2(1) by (simp add: evaluate_item_def spec_evaluate_def)
    qed
  qed
qed

text \<open>C6. The two evaluation passes with their caches, shared scopes and rewinding refine the direct reading of the
  rules: every log-aware monitor is asked about every log it does not skip, with the transaction and, if it reads it,
  the decoded call; a log it matches yields one match per action; monitors that matched no log are asked about the
  transaction alone; the first script error is the result. Matches differ from the specification at most in the decoded
  call of monitors that do not read it.\<close>

theorem filtering_refines:
  assumes "keeps_constants (fe_engine fe)" "log_keys_unique item"
  shows "rel_sum (=) (list_all2 (match_refines fe item)) (evaluate_item fe st item) (spec_evaluate fe st item)"
  by (rule evaluate_item_refines [OF assms])

lemma evaluate_item_spec:
  assumes "keeps_constants (fe_engine fe)" "log_keys_unique item" "evaluate_item fe st item = Inr ms"
  obtains hits txs where
    "spec_log_hits fe item (snapshot_monitors st (as_log_aware_monitors st)) = Inr hits"
    "spec_tx_hits fe item (filter (\<lambda>cm. cm_id cm \<notin> cm_id ` fst ` set hits) (snapshot_monitors st (as_tx_aware_monitors st))) = Inr txs"
    "list_all2 (match_refines fe item) ms
       (concat (map (spec_log_matches fe item) hits) @ concat (map (spec_tx_matches fe item) txs))"
proof -
  obtain specs where "spec_evaluate fe st item = Inr specs" "list_all2 (match_refines fe item) ms specs"
    using evaluate_item_refines [OF assms(1,2), of st] assms(3) by (cases "spec_evaluate fe st item") auto
  then show thesis using that by (auto simp: spec_evaluate_def result_simps)
qed

lemma spec_tx_hits_subset: "spec_tx_hits fe item cms = Inr txs \<Longrightarrow> set txs \<subseteq> set cms \<and> (distinct (map cm_id cms) \<longrightarrow> distinct (map cm_id txs))"
proof (induction cms arbitrary: txs)
  case (Cons cm cms)
  then obtain b rest where r: "spec_tx_verdict fe item cm = Inr b" "spec_tx_hits fe item cms = Inr rest"
    "txs = (if b then [cm] else []) @ rest"
    by (auto simp: spec_tx_hits_def result_simps split: sum.splits)
  then show ?case using Cons.IH [OF r(2)] by (auto split: if_splits)
qed (simp add: spec_tx_hits_def)

definition is_log_match :: "monitor_match \<Rightarrow> bool" where
  "is_log_match m = (case mm_match_data m of LogMatch _ _ \<Rightarrow> True | TxMatch _ \<Rightarrow> False)"

lemma match_refines_fields:
  assumes "match_refines fe item m sp"
  shows "mm_id m = mm_id (snd sp)" "mm_monitor_id m = mm_monitor_id (snd sp)" "is_log_match m = is_log_match (snd sp)"
    "mm_action_name m = mm_action_name (snd sp)"
  using assms unfolding match_refines_def by (auto simp: is_log_match_def dest!: sym [of _ "snd sp"])

lemma spec_match_fields:
  "sp \<in> set (spec_log_matches fe item (cm, d)) \<Longrightarrow> mm_monitor_id (snd sp) = cm_id cm \<and> is_log_match (snd sp)"
  "sp \<in> set (spec_tx_matches fe item cm) \<Longrightarrow> mm_monitor_id (snd sp) = cm_id cm \<and> \<not> is_log_match (snd sp)"
  by (auto simp: spec_log_matches_def spec_tx_matches_def build_def log_match_def transaction_match_def with_match_data_def
      item_builder_def match_builder_new_def cm_id_def is_log_match_def)

text \<open>C4. A monitor produces one kind of match per transaction: if it matched a log of the transaction then none of its
  matches is a transaction match, whatever its script says about the transaction.\<close>

theorem one_kind_of_match:
  assumes "keeps_constants (fe_engine fe)" "log_keys_unique item" "evaluate_item fe st item = Inr ms"
    and "m \<in> set ms" "m' \<in> set ms" "mm_monitor_id m = mm_monitor_id m'"
  shows "is_log_match m \<longleftrightarrow> is_log_match m'"
proof -
  obtain hits txs where h: "spec_tx_hits fe item (filter (\<lambda>cm. cm_id cm \<notin> cm_id ` fst ` set hits)
      (snapshot_monitors st (as_tx_aware_monitors st))) = Inr txs"
    "list_all2 (match_refines fe item) ms (concat (map (spec_log_matches fe item) hits) @ concat (map (spec_tx_matches fe item) txs))"
    using evaluate_item_spec [OF assms(1-3)] by metis
  have "(is_log_match x \<and> mm_monitor_id x \<in> cm_id ` fst ` set hits) \<or> (\<not> is_log_match x \<and> mm_monitor_id x \<in> cm_id ` set txs)"
    if x: "x \<in> set ms" for x
  proof -
    obtain sp where sp: "match_refines fe item x sp"
      "sp \<in> set (concat (map (spec_log_matches fe item) hits) @ concat (map (spec_tx_matches fe item) txs))"
      using h(2) x by (metis in_set_conv_nth list_all2_conv_all_nth)
    from sp(2) consider cm d where "(cm, d) \<in> set hits" "sp \<in> set (spec_log_matches fe item (cm, d))"
      | cm where "cm \<in> set txs" "sp \<in> set (spec_tx_matches fe item cm)" by auto
    then show ?thesis
    proof cases
      case (1 cm d)
      then show ?thesis using match_refines_fields [OF sp(1)] spec_match_fields(1) [OF 1(2)] by (force simp: image_image)
    next
      case (2 cm)
      then show ?thesis using match_refines_fields [OF sp(1)] spec_match_fields(2) [OF 2(2)] by simp
    qed
  qed
  moreover have "cm_id ` set txs \<inter> cm_id ` fst ` set hits = {}" using spec_tx_hits_subset [OF h(1)] by auto
  ultimately show ?thesis using assms(4-6) by (metis disjoint_iff)
qed

section \<open>Match identifiers within an item\<close>

definition hit_key :: "'ast classified_monitor \<times> decoded_log \<Rightarrow> i64 \<times> u64" where
  "hit_key hit = (cm_id (fst hit), unwrap_or_default (log_log_index (dl_log (snd hit))))"

definition log_index_of :: "evm_log \<Rightarrow> u64" where
  "log_index_of l = unwrap_or_default (log_log_index l)"

lemma decode_log_log:
  assumes "decode_log lib sv l = Inr d"
  shows "dl_log d = l"
proof -
  obtain sig where "try_decode_log_from_address lib sv l sig = Some (Inr d) \<or> try_decode_log_from_global lib sv l sig = Some (Inr d)"
    using assms by (auto simp: decode_log_def split: list.splits option.splits)
  then obtain e where "decode_log_direct lib l e = Inr d"
    using decode_log_from_ok
    by (fastforce simp: try_decode_log_from_address_def try_decode_log_from_global_def split: bind_splits)
  then show ?thesis using decode_log_direct_name by blast
qed

lemma spec_verdict_log: "spec_log_verdict fe item cm l = Inr (Some d) \<Longrightarrow> dl_log d = l"
  by (auto simp: spec_log_verdict_def result_simps split: if_splits option.splits dest: decode_log_log)

lemma hits_of_monitor:
  assumes "traverse (spec_log_verdict fe item cm) logs = Inr ds" "distinct (map log_index_of logs)"
  shows "distinct (map (log_index_of \<circ> dl_log) (List.map_filter id ds)) \<and>
    (log_index_of \<circ> dl_log) ` set (List.map_filter id ds) \<subseteq> log_index_of ` set logs"
  using assms
proof (induction logs arbitrary: ds)
  case (Cons l logs)
  then obtain v vs where v: "spec_log_verdict fe item cm l = Inr v" "traverse (spec_log_verdict fe item cm) logs = Inr vs" "ds = v # vs"
    by (auto split: sum.splits)
  then show ?case using Cons.IH [OF v(2)] Cons.prems(2) spec_verdict_log [of fe item cm l]
    by (cases v) (auto simp: map_filter_simps)
qed (simp add: map_filter_simps)

lemma hits_distinct:
  assumes "spec_log_hits fe item cms = Inr hits" "distinct (map cm_id cms)" "distinct (map log_index_of (ci_logs item))"
  shows "distinct (map hit_key hits) \<and> fst ` set hits \<subseteq> set cms"
  using assms(1,2)
proof (induction cms arbitrary: hits)
  case (Cons cm cms)
  then obtain ds rest where r: "traverse (spec_log_verdict fe item cm) (ci_logs item) = Inr ds" "spec_log_hits fe item cms = Inr rest"
    "hits = map (Pair cm) (List.map_filter id ds) @ rest"
    by (auto simp: spec_log_hits_def result_simps split: sum.splits)
  have one: "map hit_key (map (Pair cm) xs) = map (Pair (cm_id cm)) (map (log_index_of \<circ> dl_log) xs)" for xs
    by (simp add: hit_key_def log_index_of_def)
  have d: "distinct (map hit_key (map (Pair cm) (List.map_filter id ds)))"
    unfolding one using hits_of_monitor [OF r(1) assms(3)] by (simp add: distinct_map inj_on_def del: map_map)
  have IH: "distinct (map hit_key rest)" "fst ` set rest \<subseteq> set cms" using Cons.IH [OF r(2)] Cons.prems(2) by auto
  have "set (map hit_key (map (Pair cm) (List.map_filter id ds))) \<inter> set (map hit_key rest) = {}"
    using IH(2) Cons.prems(2) by (force simp: hit_key_def)
  with d IH show ?case by (auto simp: r(3) simp del: map_map)
qed (simp add: spec_log_hits_def)

definition match_key :: "monitor_match \<Rightarrow> i64 \<times> string \<times> u64 option" where
  "match_key m = (mm_monitor_id m, mm_action_name m, match_slot (mm_match_data m))"

lemma spec_match_keys:
  "map (match_key \<circ> snd) (spec_log_matches fe item hit) =
     map (\<lambda>a. (fst (hit_key hit), a, Some (snd (hit_key hit)))) (mon_actions (cm_monitor (fst hit)))"
  "map (match_key \<circ> snd) (spec_tx_matches fe item cm) = map (\<lambda>a. (cm_id cm, a, None)) (mon_actions (cm_monitor cm))"
  by (auto simp: spec_log_matches_def spec_tx_matches_def match_key_def build_def log_match_def transaction_match_def
      with_match_data_def item_builder_def match_builder_new_def hit_key_def cm_id_def match_slot_def log_details_of_def split: prod.splits)

lemma distinct_keyed_concat:
  assumes "distinct (map k xs)" "\<And>x. x \<in> set xs \<Longrightarrow> distinct (f x)" "\<And>x y. y \<in> set (f x) \<Longrightarrow> g y = k x"
  shows "distinct (concat (map f xs))"
  using assms(1,2)
proof (induction xs)
  case (Cons x xs)
  have "k x \<notin> k ` set xs" using Cons.prems by simp
  then have "set (f x) \<inter> set (concat (map f xs)) = {}" using assms(3) by auto (metis imageI)
  then show ?case using Cons by simp
qed simp

lemma spec_keys_distinct:
  assumes "distinct (map hit_key hits)" "distinct (map cm_id txs)"
    and "\<And>cm. cm \<in> fst ` set hits \<union> set txs \<Longrightarrow> distinct (mon_actions (cm_monitor cm))"
  shows "distinct (map (match_key \<circ> snd) (concat (map (spec_log_matches fe item) hits) @ concat (map (spec_tx_matches fe item) txs)))"
proof -
  let ?l = "\<lambda>hit. map (match_key \<circ> snd) (spec_log_matches fe item hit)" and ?t = "\<lambda>cm. map (match_key \<circ> snd) (spec_tx_matches fe item cm)"
  have "distinct (concat (map ?l hits))"
    by (rule distinct_keyed_concat [where g = "\<lambda>(i, a, s). (i, the s)", OF assms(1)])
       (use assms(3) in \<open>auto simp: spec_match_keys distinct_map inj_on_def\<close>)
  moreover have "distinct (concat (map ?t txs))"
    by (rule distinct_keyed_concat [where g = fst, OF assms(2)])
       (use assms(3) in \<open>auto simp: spec_match_keys distinct_map inj_on_def\<close>)
  moreover have "set (concat (map ?l hits)) \<inter> set (concat (map ?t txs)) = {}"
    unfolding spec_match_keys by auto
  ultimately show ?thesis by (simp add: map_concat comp_def)
qed

definition snapshot_ok :: "'ast monitor_asset_state \<Rightarrow> bool" where
  "snapshot_ok st \<longleftrightarrow>
     distinct (map cm_id (snapshot_monitors st (as_log_aware_monitors st))) \<and>
     distinct (map cm_id (snapshot_monitors st (as_tx_aware_monitors st))) \<and>
     list_all (\<lambda>(i, cm). distinct (mon_actions (cm_monitor cm))) (as_monitors_by_id st)"

lemma snapshot_actions_distinct:
  "snapshot_ok st \<Longrightarrow> cm \<in> set (snapshot_monitors st ids) \<Longrightarrow> distinct (mon_actions (cm_monitor cm))"
proof -
  assume ok: "snapshot_ok st" and "cm \<in> set (snapshot_monitors st ids)"
  then obtain i where "map_of (as_monitors_by_id st) i = Some cm" by (auto simp: snapshot_monitors_def map_filter_def)
  then have "(i, cm) \<in> set (as_monitors_by_id st)" by (rule map_of_SomeD)
  then show ?thesis using ok by (auto simp: snapshot_ok_def list_all_iff)
qed

lemma spec_build:
  "sp \<in> set (concat (map (spec_log_matches fe item) hits) @ concat (map (spec_tx_matches fe item) txs)) \<Longrightarrow>
     \<exists>b. snd sp = build (fe_show_hash fe) b \<and> mb_transaction_hash b = tx_hash (ci_transaction item)"
  by (auto simp: spec_log_matches_def spec_tx_matches_def log_match_def transaction_match_def with_match_data_def
      item_builder_def match_builder_new_def)

text \<open>The matches of one transaction carry pairwise different identifiers, so no two of them share an idempotency key
  in the outbox: provided monitors list each action once and the logs have different indexes.\<close>

lemma item_match_ids_distinct:
  assumes "keeps_constants (fe_engine fe)" "log_keys_unique item" "hex_display (fe_show_hash fe)" "snapshot_ok st"
    and idx: "distinct (map log_index_of (ci_logs item))" and run: "evaluate_item fe st item = Inr ms"
  shows "distinct (map mm_id ms)"
proof -
  obtain hits txs where h: "spec_log_hits fe item (snapshot_monitors st (as_log_aware_monitors st)) = Inr hits"
    "spec_tx_hits fe item (filter (\<lambda>cm. cm_id cm \<notin> cm_id ` fst ` set hits) (snapshot_monitors st (as_tx_aware_monitors st))) = Inr txs"
    and ref: "list_all2 (match_refines fe item) ms (concat (map (spec_log_matches fe item) hits) @ concat (map (spec_tx_matches fe item) txs))"
    using evaluate_item_spec [OF assms(1,2) run] by metis
  let ?sp = "concat (map (spec_log_matches fe item) hits) @ concat (map (spec_tx_matches fe item) txs)"
  have hits: "distinct (map hit_key hits)" "fst ` set hits \<subseteq> set (snapshot_monitors st (as_log_aware_monitors st))"
    using hits_distinct [OF h(1) _ idx] assms(4) by (simp_all add: snapshot_ok_def)
  have txs: "distinct (map cm_id txs)" "set txs \<subseteq> set (snapshot_monitors st (as_tx_aware_monitors st))"
    using spec_tx_hits_subset [OF h(2)] assms(4) by (auto simp: snapshot_ok_def distinct_map_filter)
  have "distinct (map (match_key \<circ> snd) ?sp)"
    using spec_keys_distinct [OF hits(1) txs(1)] snapshot_actions_distinct [OF assms(4)] hits(2) txs(2) by blast
  moreover have "mm_id (snd x) = mm_id (snd y) \<Longrightarrow> match_key (snd x) = match_key (snd y)"
    if xy: "x \<in> set ?sp" "y \<in> set ?sp" for x y
  proof -
    assume eq: "mm_id (snd x) = mm_id (snd y)"
    obtain b where b: "snd x = build (fe_show_hash fe) b" using spec_build [OF xy(1)] by blast
    obtain c where c: "snd y = build (fe_show_hash fe) c" using spec_build [OF xy(2)] by blast
    show "match_key (snd x) = match_key (snd y)"
      using match_id_unique_fields [OF assms(3) eq [unfolded b c]] by (simp add: b c match_key_def build_def)
  qed
  ultimately have "distinct ?sp" "inj_on (mm_id \<circ> snd) (set ?sp)"
    unfolding distinct_map by (blast, simp only: inj_on_def comp_apply) (metis)
  then have "distinct (map (mm_id \<circ> snd) ?sp)" by (simp only: distinct_map simp_thms)
  moreover have "map mm_id ms = map (mm_id \<circ> snd) ?sp"
    using ref by (induction rule: list_all2_induct) (auto dest: match_refines_fields)
  ultimately show ?thesis by simp
qed

section \<open>The event-name pre-filter\<close>

text \<open>C23. The pre-filter skips no log that matters: on a service built through its own operations, a log that decodes is
  skipped exactly when the script names events and the decoded event is none of them.\<close>

theorem prefilter_exact:
  assumes "abi_service_ok (fe_abi_lib fe) (fe_abi_service fe)" "selectors_name_events (fe_abi_lib fe) (fe_abi_service fe)"
    and "decode_log (fe_abi_lib fe) (fe_abi_service fe) l = Inr d"
  shows "skip_log fe cm l \<longleftrightarrow>
    (sa_accessed_log_event_names (cm_analysis cm) \<noteq> [] \<and> dl_name d \<notin> set (sa_accessed_log_event_names (cm_analysis cm)))"
  using decoded_name_peeked [OF assms] by (auto simp: skip_log_def Let_def)

section \<open>Witnesses\<close>

definition sample_tx :: evm_tx where
  "sample_tx = \<lparr>tx_hash = 6, tx_to = Some 9, tx_from = 1, tx_input = [], tx_value = 0, tx_gas = 21000, tx_gas_price = Some 1,
     tx_nonce = 0, tx_block_hash = None, tx_block_number = Some 4, tx_transaction_index = Some 0, tx_max_fee_per_gas = 0,
     tx_max_priority_fee_per_gas = None, tx_chain_id = Some 1, tx_transaction_type = Legacy\<rparr>"

definition sample_item :: correlated_item where
  "sample_item = \<lparr>ci_transaction = sample_tx, ci_logs = [sample_log], ci_receipt = None\<rparr>"

definition sample_rhai_lib :: rhai_lib where
  "sample_rhai_lib = \<lparr>rl_checksum = (\<lambda>a. show_hex (unat a)), rl_show_address = (\<lambda>a. show_hex (unat a)),
     rl_show_hash = enc_hash hex_codec, rl_hex_encode = (\<lambda>bs. concat (map (show_hex \<circ> unat) bs)),
     rl_u256_to_bigint = (\<lambda>n. DBigInt (int n)), rl_i256_to_bigint = DBigInt\<rparr>"

definition sample_filter :: "string filtering_engine" where
  "sample_filter = \<lparr>fe_abi_lib = sample_lib, fe_abi_service = sample_service, fe_rhai_lib = sample_rhai_lib,
     fe_engine = sample_engine, fe_show_hash = enc_hash hex_codec\<rparr>"

definition sample_cm :: "monitor \<Rightarrow> bool \<Rightarrow> string classified_monitor" where
  "sample_cm m l = \<lparr>cm_monitor = m, cm_caps = \<lparr>cap_tx = \<not> l, cap_log = l, cap_call = False\<rparr>,
     cm_analysis = \<lparr>sa_ast = mon_filter_script m, sa_accessed_variables = [], sa_accesses_log_variable = l,
       sa_local_variables = [], sa_accesses_call_variable = False, sa_accessed_log_event_names = []\<rparr>\<rparr>"

definition sample_snapshot :: "string monitor_asset_state" where
  "sample_snapshot = \<lparr>as_monitors_by_id = [(1, sample_cm log_monitor True), (2, sample_cm tx_monitor False)],
     as_tx_aware_monitors = [2], as_log_aware_monitors = [1], as_interest_registry = empty_registry,
     as_requires_receipts = False, as_has_transaction_only_monitors = True\<rparr>"

lemma sample_filter_ok:
  "keeps_constants (fe_engine sample_filter)" "log_keys_unique sample_item" "hex_display (fe_show_hash sample_filter)"
  "snapshot_ok sample_snapshot" "distinct (map log_index_of (ci_logs sample_item))"
  by (simp_all add: keeps_constants_def sample_filter_def sample_engine_def log_keys_unique_def sample_item_def
      hex_codec_display snapshot_ok_def snapshot_monitors_def sample_snapshot_def map_filter_simps sample_cm_def
      log_monitor_def tx_monitor_def cm_id_def)

definition sample_matches :: "monitor_match list" where
  "sample_matches = map snd (spec_log_matches sample_filter sample_item (sample_cm log_monitor True, sample_decoded) @
     spec_tx_matches sample_filter sample_item (sample_cm tx_monitor False))"

lemma list_all2_eq_map: "list_all2 (\<lambda>x y. x = f y) xs ys \<Longrightarrow> xs = map f ys"
  by (induction rule: list_all2_induct) auto

lemma sample_evaluation: "evaluate_item sample_filter sample_snapshot sample_item = Inr sample_matches"
proof -
  have hits: "spec_log_hits sample_filter sample_item [sample_cm log_monitor True] = Inr [(sample_cm log_monitor True, sample_decoded)]"
    by (simp add: spec_log_hits_def sample_item_def spec_log_verdict_def skip_log_def sample_cm_def sample_filter_def
        sample_decodes eval_ast_bool_secure_def sample_engine_def log_monitor_def map_filter_simps)
  have txs: "spec_tx_hits sample_filter sample_item [sample_cm tx_monitor False] = Inr [sample_cm tx_monitor False]"
    by (simp add: spec_tx_hits_def spec_tx_verdict_def sample_cm_def sample_filter_def eval_ast_bool_secure_def
        sample_engine_def tx_monitor_def)
  have ids: "cm_id (sample_cm log_monitor True) = 1" "cm_id (sample_cm tx_monitor False) = 2"
    by (simp_all add: cm_id_def sample_cm_def log_monitor_def tx_monitor_def)
  have mons: "snapshot_monitors sample_snapshot (as_log_aware_monitors sample_snapshot) = [sample_cm log_monitor True]"
    "snapshot_monitors sample_snapshot (as_tx_aware_monitors sample_snapshot) = [sample_cm tx_monitor False]"
    by (simp_all add: snapshot_monitors_def sample_snapshot_def map_filter_simps)
  have "spec_evaluate sample_filter sample_snapshot sample_item =
      Inr (spec_log_matches sample_filter sample_item (sample_cm log_monitor True, sample_decoded) @
           spec_tx_matches sample_filter sample_item (sample_cm tx_monitor False))"
    by (simp add: spec_evaluate_def mons hits txs ids)
  with evaluate_item_refines [OF sample_filter_ok(1,2), of sample_snapshot] obtain ms where
    ms: "evaluate_item sample_filter sample_snapshot sample_item = Inr ms"
      "list_all2 (match_refines sample_filter sample_item) ms
        (spec_log_matches sample_filter sample_item (sample_cm log_monitor True, sample_decoded) @
           spec_tx_matches sample_filter sample_item (sample_cm tx_monitor False))"
    by (cases "evaluate_item sample_filter sample_snapshot sample_item") auto
  have "spec_call_json sample_filter sample_item = None"
    by (simp add: spec_call_json_def decode_function_input_def extract_address_and_selector_def sample_item_def sample_tx_def)
  then have eq: "match_refines sample_filter sample_item m sp \<Longrightarrow> m = snd sp" for m and sp :: "string classified_monitor \<times> monitor_match"
    by (cases m, cases "snd sp") (auto simp: match_refines_def)
  have "list_all2 (\<lambda>m sp. m = snd sp) ms (spec_log_matches sample_filter sample_item (sample_cm log_monitor True, sample_decoded) @
      spec_tx_matches sample_filter sample_item (sample_cm tx_monitor False))"
    by (rule list_all2_mono [OF ms(2)]) (rule eq)
  then have "ms = sample_matches" unfolding sample_matches_def by (rule list_all2_eq_map)
  then show ?thesis using ms(1) by simp
qed

lemma sample_matches_members:
  "sample_matches = map (\<lambda>a. build (enc_hash hex_codec) (log_match (item_builder sample_item log_monitor a)
       (log_details_of sample_rhai_lib sample_decoded) (spec_details sample_filter sample_item))) [''notify'', ''page''] @
     [build (enc_hash hex_codec) (transaction_match (item_builder sample_item tx_monitor ''notify'') (spec_details sample_filter sample_item))]"
  by (simp add: sample_matches_def spec_log_matches_def spec_tx_matches_def sample_cm_def sample_filter_def log_monitor_def tx_monitor_def)

theorem filtering_refines_witness:
  "rel_sum (=) (list_all2 (match_refines sample_filter sample_item)) (Inr sample_matches)
     (spec_evaluate sample_filter sample_snapshot sample_item)"
  using filtering_refines [OF sample_filter_ok(1,2), of sample_snapshot] by (simp only: sample_evaluation)

theorem one_kind_of_match_witness:
  "mm_action_name (sample_matches ! 0) \<noteq> mm_action_name (sample_matches ! 1) \<and>
   (is_log_match (sample_matches ! 0) \<longleftrightarrow> is_log_match (sample_matches ! 1))"
proof -
  have "mm_monitor_id (sample_matches ! 0) = mm_monitor_id (sample_matches ! 1)"
    by (simp add: sample_matches_members build_def log_match_def with_match_data_def item_builder_def match_builder_new_def)
  then have "is_log_match (sample_matches ! 0) \<longleftrightarrow> is_log_match (sample_matches ! 1)"
    by (intro one_kind_of_match [OF sample_filter_ok(1,2) sample_evaluation] nth_mem) (simp_all add: sample_matches_members)
  then show ?thesis
    by (simp add: sample_matches_members build_def log_match_def with_match_data_def item_builder_def match_builder_new_def)
qed

lemma item_match_ids_distinct_example: "distinct (map mm_id sample_matches)"
  by (rule item_match_ids_distinct [OF sample_filter_ok sample_evaluation])

theorem prefilter_exact_witness: "skip_log sample_filter ((sample_cm log_monitor True)
    \<lparr>cm_analysis := (cm_analysis (sample_cm log_monitor True))\<lparr>sa_accessed_log_event_names := [''Approval'']\<rparr>\<rparr>) sample_log"
  using prefilter_exact [of sample_filter sample_log sample_decoded] sample_service_ok sample_selectors sample_decodes
  by (simp add: sample_filter_def sample_decoded_def)

end
