(* ===== verification/Argus_Provider.thy ===== *)
theory Argus_Provider
  imports Argus_Monitor Argus_Store
begin

text \<open>
  Fetching blockchain data: the data source interface of \<open>crates/argus-core/src/providers/traits.rs\<close>,
  its RPC implementation \<open>crates/argus-providers/src/rpc.rs\<close> with the bloom and topic filters, and
  the range fetcher \<open>crates/argus-providers/src/block_fetcher.rs\<close>.

  The RPC provider itself is third-party code: the record \<open>rpc_provider\<close>, with what the code relies on in
  \<open>honest_provider\<close>. Concurrent requests complete in an arbitrary order, given by a function on the
  list of requests.
\<close>

section \<open>The data source interface\<close>

datatype data_source_error =
    UrlParse string
  | Provider string
  | ProviderSource data_source_error
  | BlockNotFound u64
  | ChannelClosed
  | StateRepository persistence_error

record data_source =
  ds_fetch_block_core_data :: "u64 \<Rightarrow> data_source_error + block \<times> evm_log list"
  ds_fetch_block_only :: "u64 \<Rightarrow> data_source_error + block"
  ds_fetch_logs_for_range :: "u64 \<Rightarrow> u64 \<Rightarrow> data_source_error + evm_log list"
  ds_get_current_block_number :: "data_source_error + u64"
  ds_fetch_receipts :: "b256 list \<Rightarrow> nat \<Rightarrow> data_source_error + (b256 \<times> receipt) list"

section \<open>The RPC source\<close>

record rpc_provider =
  rp_block_number :: "string + u64"
  rp_block_by_number :: "u64 \<Rightarrow> string + block option"
  rp_logs :: "u64 \<Rightarrow> u64 \<Rightarrow> b256 list option \<Rightarrow> string + evm_log list"
  rp_receipt :: "b256 \<Rightarrow> string + receipt option"
  rp_bloom_topic :: "2048 word \<Rightarrow> b256 \<Rightarrow> bool"
  rp_bloom_address :: "2048 word \<Rightarrow> address \<Rightarrow> bool"
  rp_completion :: "b256 list \<Rightarrow> b256 list"

definition no_log_interest :: "interest_registry \<Rightarrow> bool" where
  "no_log_interest r \<longleftrightarrow> ir_log_interests r = [] \<and> ir_global_event_signatures r = []"

definition build_topic_filter :: "interest_registry \<Rightarrow> b256 list option" where
  "build_topic_filter r =
     (if list_ex (\<lambda>(a, v). v = None) (ir_log_interests r) then None
      else
        (let topics = remdups (ir_global_event_signatures r @
               concat (map (\<lambda>(a, v). case v of Some sigs \<Rightarrow> sigs | None \<Rightarrow> []) (ir_log_interests r)))
         in if topics = [] then None else Some topics))"

definition fetch_logs_for_block_range ::
  "rpc_provider \<Rightarrow> u64 \<Rightarrow> u64 \<Rightarrow> b256 list option \<Rightarrow> data_source_error + evm_log list" where
  "fetch_logs_for_block_range p a b topics = map_err Provider (rp_logs p a b topics)"

definition fetch_block_only :: "rpc_provider \<Rightarrow> u64 \<Rightarrow> data_source_error + block" where
  "fetch_block_only p n =
     bindR (map_err Provider (rp_block_by_number p n)) (\<lambda>b. ok_or (BlockNotFound n) b)"

definition fetch_logs_for_range ::
  "rpc_provider \<Rightarrow> interest_registry \<Rightarrow> u64 \<Rightarrow> u64 \<Rightarrow> data_source_error + evm_log list" where
  "fetch_logs_for_range p r a b =
     (if no_log_interest r then Inr []
      else mapR (filter (is_log_interesting r)) (fetch_logs_for_block_range p a b (build_topic_filter r)))"

definition might_contain_relevant_logs :: "rpc_provider \<Rightarrow> interest_registry \<Rightarrow> block \<Rightarrow> bool" where
  "might_contain_relevant_logs p r b \<longleftrightarrow>
     (let bloom = blk_logs_bloom b
      in list_ex (rp_bloom_topic p bloom) (ir_global_event_signatures r) \<or>
         list_ex (\<lambda>(a, mode). rp_bloom_address p bloom a \<and>
            (case mode of Some sigs \<Rightarrow> list_ex (rp_bloom_topic p bloom) sigs | None \<Rightarrow> True)) (ir_log_interests r))"

definition fetch_block_and_logs ::
  "rpc_provider \<Rightarrow> interest_registry \<Rightarrow> u64 \<Rightarrow> data_source_error + block \<times> evm_log list" where
  "fetch_block_and_logs p r n =
     bindR (fetch_block_only p n) (\<lambda>b.
       if no_log_interest r then Inr (b, [])
       else if might_contain_relevant_logs p r b then
         mapR (Pair b) (fetch_logs_for_block_range p n n (build_topic_filter r))
       else Inr (b, []))"

definition fetch_block_core_data ::
  "rpc_provider \<Rightarrow> interest_registry \<Rightarrow> u64 \<Rightarrow> data_source_error + block \<times> evm_log list" where
  "fetch_block_core_data p r n =
     (case fetch_block_and_logs p r n of
        Inr bl \<Rightarrow> Inr bl
      | Inl (BlockNotFound m) \<Rightarrow> Inl (BlockNotFound m)
      | Inl e \<Rightarrow> Inl (ProviderSource e))"

definition fetch_receipts :: "rpc_provider \<Rightarrow> b256 list \<Rightarrow> nat \<Rightarrow> data_source_error + (b256 \<times> receipt) list" where
  "fetch_receipts p hs concurrency =
     (if hs = [] then Inr []
      else
        mapR (\<lambda>results. List.map_filter (\<lambda>(h, r). map_option (Pair h) r) results)
          (traverse (\<lambda>h. mapR (Pair h) (map_err Provider (rp_receipt p h))) (rp_completion p hs)))"

definition evm_rpc_source :: "rpc_provider \<Rightarrow> interest_registry \<Rightarrow> data_source" where
  "evm_rpc_source p r = \<lparr>ds_fetch_block_core_data = fetch_block_core_data p r, ds_fetch_block_only = fetch_block_only p,
     ds_fetch_logs_for_range = fetch_logs_for_range p r,
     ds_get_current_block_number = map_err Provider (rp_block_number p), ds_fetch_receipts = fetch_receipts p\<rparr>"

section \<open>The block fetcher\<close>

record fetch_config =
  fc_concurrency :: nat
  fc_log_chunk_size :: u64

definition fetch_single_block_data :: "data_source \<Rightarrow> bool \<Rightarrow> u64 \<Rightarrow> nat \<Rightarrow> data_source_error + block_data" where
  "fetch_single_block_data ds needs_receipts n concurrency =
     bindR (ds_fetch_block_core_data ds n) (\<lambda>(b, logs).
     bindR (if needs_receipts then
              (let hs = block_tx_hashes (blk_transactions b)
               in if hs = [] then Inr [] else ds_fetch_receipts ds hs concurrency)
            else Inr []) (\<lambda>receipts.
       Inr (from_raw_data b receipts logs)))"

definition fetch_blocks_only :: "data_source \<Rightarrow> u64 \<Rightarrow> u64 \<Rightarrow> data_source_error + block list" where
  "fetch_blocks_only ds a b = traverse (ds_fetch_block_only ds) (u64_range a b)"

text \<open>The sub-ranges of a log request; \<open>None\<close> is an overflow of the 64-bit start or end of a chunk.\<close>

function log_chunks :: "u64 \<Rightarrow> u64 \<Rightarrow> u64 \<Rightarrow> (u64 \<times> u64) list option" where
  "log_chunks n a b =
     (if \<not> a \<le> b then Some []
      else if n = 0 \<or> 2 ^ 64 \<le> unat a + unat n then None
      else map_option (Cons (a, min (a + n - 1) b)) (log_chunks n (a + n) b))"
  by auto
termination
proof (relation "measure (\<lambda>(n, a, b). 2 ^ 64 - unat a)")
  fix n a b :: u64
  assume "\<not> (n = 0 \<or> 2 ^ 64 \<le> unat a + unat n)"
  then have "unat a + unat n < 2 ^ 64" "0 < unat n" by (auto simp: unat_gt_0)
  then show "((n, a + n, b), n, a, b) \<in> measure (\<lambda>(n, a, b). 2 ^ 64 - unat a)"
    by (simp add: unat_plus_no_overflow)
qed simp

declare log_chunks.simps [simp del]

definition fetch_logs_chunked ::
  "((u64 \<times> u64) list \<Rightarrow> (u64 \<times> u64) list) \<Rightarrow> data_source \<Rightarrow> u64 \<Rightarrow> u64 \<Rightarrow> u64 \<Rightarrow> (data_source_error + evm_log list) option" where
  "fetch_logs_chunked order ds a b n =
     (if n = 0 \<or> saturating_sub b a < n then Some (ds_fetch_logs_for_range ds a b)
      else map_option (\<lambda>cs. mapR concat (traverse (\<lambda>(s, e). ds_fetch_logs_for_range ds s e) (order cs))) (log_chunks n a b))"

fun group_by_block :: "evm_log list \<Rightarrow> (u64 \<times> evm_log list) list \<Rightarrow> (u64 \<times> evm_log list) list" where
  "group_by_block [] m = m"
| "group_by_block (l # ls) m =
     group_by_block ls (case log_block_number l of Some n \<Rightarrow> entry_update n [] (\<lambda>v. v @ [l]) m | None \<Rightarrow> m)"

text \<open>\<open>HashMap::remove(k).unwrap_or_default()\<close> and the receipts taken out of the map for one block.\<close>

definition take_list :: "'k \<Rightarrow> ('k \<times> 'v list) list \<Rightarrow> ('k \<times> 'v list) list \<times> 'v list" where
  "take_list k m = (AList.delete k m, case map_of m k of Some v \<Rightarrow> v | None \<Rightarrow> [])"

fun take_receipts :: "b256 list \<Rightarrow> (b256 \<times> receipt) list \<Rightarrow> (b256 \<times> receipt) list \<times> (b256 \<times> receipt) list" where
  "take_receipts [] m = (m, [])"
| "take_receipts (h # hs) m =
     (case map_of m h of
        None \<Rightarrow> take_receipts hs m
      | Some r \<Rightarrow> (case take_receipts hs (AList.delete h m) of (m', rs) \<Rightarrow> (m', (h, r) # rs)))"

fun combine_blocks ::
  "block list \<Rightarrow> (u64 \<times> evm_log list) list \<Rightarrow> (b256 \<times> receipt) list \<Rightarrow> block_data list" where
  "combine_blocks [] lm rm = []"
| "combine_blocks (b # bs) lm rm =
     (case take_list (blk_number b) lm of (lm', logs) \<Rightarrow>
      case take_receipts (block_tx_hashes (blk_transactions b)) rm of (rm', receipts) \<Rightarrow>
        from_raw_data b receipts logs # combine_blocks bs lm' rm')"

definition fetch_all_receipts :: "data_source \<Rightarrow> bool \<Rightarrow> block list \<Rightarrow> nat \<Rightarrow> data_source_error + (b256 \<times> receipt) list" where
  "fetch_all_receipts ds needs_receipts bs concurrency =
     (let hs = concat (map (block_tx_hashes \<circ> blk_transactions) bs)
      in if needs_receipts \<and> hs \<noteq> [] then ds_fetch_receipts ds hs concurrency else Inr [])"

definition fetch_blocks_concurrent ::
  "((u64 \<times> u64) list \<Rightarrow> (u64 \<times> u64) list) \<Rightarrow> data_source \<Rightarrow> bool \<Rightarrow> u64 \<Rightarrow> u64 \<Rightarrow> fetch_config \<Rightarrow>
     (data_source_error + block_data list) option" where
  "fetch_blocks_concurrent order ds needs_receipts a b cfg =
     map_option (\<lambda>logs_result.
       bindR logs_result (\<lambda>logs.
       bindR (fetch_blocks_only ds a b) (\<lambda>blocks.
       bindR (fetch_all_receipts ds needs_receipts blocks (fc_concurrency cfg)) (\<lambda>receipts.
         Inr (sort_key (blk_number \<circ> bd_block) (combine_blocks blocks (group_by_block logs []) receipts))))))
       (fetch_logs_chunked order ds a b (fc_log_chunk_size cfg))"

section \<open>Filters lose nothing\<close>

text \<open>What the code relies on of a node: \<open>eth_getLogs\<close> returns the logs of the range in chain order, restricted to the
  requested first topics; blocks have the requested number and their bloom filter contains the addresses and topics of
  their logs; \<open>chain n\<close> are the logs of block \<open>n\<close>.\<close>

definition honest_provider :: "rpc_provider \<Rightarrow> (u64 \<Rightarrow> evm_log list) \<Rightarrow> bool" where
  "honest_provider p chain \<longleftrightarrow>
     (\<forall>n l. l \<in> set (chain n) \<longrightarrow> log_block_number l = Some n) \<and>
     (\<forall>a b ls. rp_logs p a b None = Inr ls \<longrightarrow> ls = concat (map chain (u64_range a b))) \<and>
     (\<forall>a b ts ls. rp_logs p a b (Some ts) = Inr ls \<longrightarrow>
        ls = filter (\<lambda>l. topic0 l \<in> Some ` set ts) (concat (map chain (u64_range a b)))) \<and>
     (\<forall>n b. rp_block_by_number p n = Inr (Some b) \<longrightarrow>
        blk_number b = n \<and>
        (\<forall>l \<in> set (chain n). rp_bloom_address p (blk_logs_bloom b) (log_address l) \<and>
           (\<forall>t. topic0 l = Some t \<longrightarrow> rp_bloom_topic p (blk_logs_bloom b) t)))"

lemma no_interest_not_interesting: "no_log_interest r \<Longrightarrow> \<not> is_log_interesting r l"
  by (simp add: no_log_interest_def is_log_interesting_def is_globally_monitored_def)

lemma interesting_topic_filter:
  assumes "is_log_interesting r l" "build_topic_filter r = Some ts"
  shows "topic0 l \<in> Some ` set ts"
proof -
  have precise: "v \<noteq> None" if "(a, v) \<in> set (ir_log_interests r)" for a v
    using assms(2) that by (auto simp: build_topic_filter_def list_ex_iff split: if_splits)
  have ts: "set ts = set (ir_global_event_signatures r) \<union>
      (\<Union>(a, v) \<in> set (ir_log_interests r). case v of Some sigs \<Rightarrow> set sigs | None \<Rightarrow> {})"
    using assms(2) by (auto simp: build_topic_filter_def Let_def split: if_splits option.splits) force+
  show ?thesis
  proof (cases "map_of (ir_log_interests r) (log_address l)")
    case None
    then show ?thesis using assms(1) ts
      by (auto simp: is_log_interesting_def is_globally_monitored_def split: option.splits)
  next
    case (Some v)
    then have in_set: "(log_address l, v) \<in> set (ir_log_interests r)" by (rule map_of_SomeD)
    then obtain sigs where "v = Some sigs" using precise by (cases v) auto
    then show ?thesis using assms(1) Some in_set ts by (fastforce simp: is_log_interesting_def split: option.splits)
  qed
qed

lemma honest_range_logs:
  assumes "honest_provider p chain" "fetch_logs_for_block_range p a b (build_topic_filter r) = Inr ls"
  shows "filter (is_log_interesting r) ls = filter (is_log_interesting r) (concat (map chain (u64_range a b)))"
proof (cases "build_topic_filter r")
  case None
  then show ?thesis using assms by (auto simp: honest_provider_def fetch_logs_for_block_range_def result_simps)
next
  case (Some ts)
  then have "ls = filter (\<lambda>l. topic0 l \<in> Some ` set ts) (concat (map chain (u64_range a b)))"
    using assms by (auto simp: honest_provider_def fetch_logs_for_block_range_def result_simps)
  then have "filter (is_log_interesting r) ls =
      filter (\<lambda>l. topic0 l \<in> Some ` set ts \<and> is_log_interesting r l) (concat (map chain (u64_range a b)))"
    by (simp only: filter_filter)
  also have "\<dots> = filter (is_log_interesting r) (concat (map chain (u64_range a b)))"
    by (rule filter_cong [OF refl]) (use interesting_topic_filter [OF _ Some] in blast)
  finally show ?thesis .
qed

lemma fetch_range_exact:
  assumes "honest_provider p chain" "fetch_logs_for_range p r a b = Inr ls"
  shows "ls = filter (is_log_interesting r) (concat (map chain (u64_range a b)))"
proof (cases "no_log_interest r")
  case True
  then show ?thesis using assms(2) by (simp add: fetch_logs_for_range_def no_interest_not_interesting)
next
  case False
  then show ?thesis using assms honest_range_logs by (fastforce simp: fetch_logs_for_range_def result_simps)
qed

lemma interesting_bloom:
  assumes "honest_provider p chain" "rp_block_by_number p n = Inr (Some b)" "l \<in> set (chain n)" "is_log_interesting r l"
  shows "might_contain_relevant_logs p r b"
proof -
  have bloom: "rp_bloom_address p (blk_logs_bloom b) (log_address l)"
    "topic0 l = Some t \<Longrightarrow> rp_bloom_topic p (blk_logs_bloom b) t" for t
    using assms(1-3) unfolding honest_provider_def by blast+
  show ?thesis
  proof (cases "map_of (ir_log_interests r) (log_address l)")
    case None
    then obtain t where "topic0 l = Some t" "t \<in> set (ir_global_event_signatures r)"
      using assms(4) by (auto simp: is_log_interesting_def is_globally_monitored_def split: option.splits)
    then show ?thesis using bloom(2) by (auto simp: might_contain_relevant_logs_def Let_def list_ex_iff)
  next
    case (Some mode)
    have ok: "case mode of Some sigs \<Rightarrow> list_ex (rp_bloom_topic p (blk_logs_bloom b)) sigs | None \<Rightarrow> True"
      using assms(4) Some bloom(2) by (auto simp: is_log_interesting_def list_ex_iff split: option.splits)
    have "(log_address l, mode) \<in> set (ir_log_interests r)" using Some by (rule map_of_SomeD)
    then have "list_ex (\<lambda>(a, mode). rp_bloom_address p (blk_logs_bloom b) a \<and>
        (case mode of Some sigs \<Rightarrow> list_ex (rp_bloom_topic p (blk_logs_bloom b)) sigs | None \<Rightarrow> True)) (ir_log_interests r)"
      unfolding list_ex_iff [of _ "ir_log_interests r"] using ok bloom(1) by (intro bexI [where x = "(log_address l, mode)"]) auto
    then show ?thesis by (simp add: might_contain_relevant_logs_def Let_def)
  qed
qed

text \<open>C5. The bloom and topic pre-filters lose nothing: whenever a block is fetched with its logs, the logs the interest
  registry wants among those returned are exactly the ones it wants among all logs of the block, in chain order; so
  skipping the log request on a bloom miss, or narrowing it to topics, never hides a wanted log.\<close>

theorem block_filters_lose_nothing:
  assumes "honest_provider p chain" "fetch_block_core_data p r n = Inr (b, ls)"
  shows "blk_number b = n \<and> filter (is_log_interesting r) ls = filter (is_log_interesting r) (chain n)"
proof -
  have f: "fetch_block_and_logs p r n = Inr (b, ls)"
    using assms(2) by (auto simp: fetch_block_core_data_def split: sum.splits data_source_error.splits)
  then have b: "rp_block_by_number p n = Inr (Some b)"
    by (auto simp: fetch_block_and_logs_def fetch_block_only_def result_simps split: if_splits)
  have "filter (is_log_interesting r) ls = filter (is_log_interesting r) (chain n)"
  proof (cases "no_log_interest r \<or> \<not> might_contain_relevant_logs p r b")
    case True
    then have "ls = []" using f b by (auto simp: fetch_block_and_logs_def fetch_block_only_def split: if_splits)
    moreover have "\<not> is_log_interesting r l" if "l \<in> set (chain n)" for l
      using True that interesting_bloom [OF assms(1) b] no_interest_not_interesting by blast
    ultimately show ?thesis by simp
  next
    case False
    then have "fetch_logs_for_block_range p n n (build_topic_filter r) = Inr ls"
      using f b by (auto simp: fetch_block_and_logs_def fetch_block_only_def result_simps)
    then show ?thesis using honest_range_logs [OF assms(1)] by simp
  qed
  moreover have "blk_number b = n" using assms(1) b unfolding honest_provider_def by blast
  ultimately show ?thesis by blast
qed

section \<open>Ranges\<close>

text \<open>A source of range logs, as the fetcher uses it: when it is \<open>trusted\<close>, a range request returns the wanted
  logs of the blocks of the range in order, and the logs of a block name that block.\<close>

locale range_log_source =
  fixes trusted :: bool
    and fetch :: "u64 \<Rightarrow> u64 \<Rightarrow> 'e + evm_log list"
    and wanted :: "evm_log \<Rightarrow> bool"
    and chain :: "u64 \<Rightarrow> evm_log list"
  assumes fetch_range: "trusted \<Longrightarrow> fetch a b = Inr ls \<Longrightarrow> ls = filter wanted (concat (map chain (u64_range a b)))"
    and chain_number: "trusted \<Longrightarrow> l \<in> set (chain n) \<Longrightarrow> log_block_number l = Some n"
begin

lemma block_of_range:
  assumes "trusted" "fetch a b = Inr ls"
  shows "filter (\<lambda>l. log_block_number l = Some n) ls = (if a \<le> n \<and> n \<le> b then filter wanted (chain n) else [])"
proof -
  have one: "filter (\<lambda>l. log_block_number l = Some n) (filter wanted (chain m)) = (if m = n then filter wanted (chain n) else [])" for m
    using chain_number [OF assms(1)] by (auto simp: filter_empty_conv intro: filter_cong)
  have sel: "distinct ms \<Longrightarrow> concat (map (\<lambda>m. if m = n then filter wanted (chain n) else []) ms) =
      (if n \<in> set ms then filter wanted (chain n) else [])" for ms
    by (induction ms) (auto split: if_splits)
  have "ls = concat (map (\<lambda>m. filter wanted (chain m)) (u64_range a b))"
    using fetch_range [OF assms] by (simp add: filter_concat comp_def)
  then have "filter (\<lambda>l. log_block_number l = Some n) ls =
      concat (map (\<lambda>m. filter (\<lambda>l. log_block_number l = Some n) (filter wanted (chain m))) (u64_range a b))"
    by (simp only: filter_concat map_map comp_def)
  then show ?thesis unfolding one using sel [OF distinct_u64_range] by (simp add: set_u64_range)
qed

text \<open>Requests for disjoint ranges may complete in any order: the logs of a block come from one of them.\<close>

lemma block_of_ranges:
  assumes "trusted" "traverse (\<lambda>(s, e). fetch s e) rs = Inr lss" "distinct (map fst rs)"
    and "\<And>r r'. r \<in> set rs \<Longrightarrow> r' \<in> set rs \<Longrightarrow> fst r \<le> n \<Longrightarrow> n \<le> snd r \<Longrightarrow> fst r' \<le> n \<Longrightarrow> n \<le> snd r' \<Longrightarrow> r = r'"
  shows "filter (\<lambda>l. log_block_number l = Some n) (concat lss) =
    (if \<exists>r \<in> set rs. fst r \<le> n \<and> n \<le> snd r then filter wanted (chain n) else [])"
  using assms(2-4)
proof (induction rs arbitrary: lss)
  case (Cons r rs)
  obtain s e where r: "r = (s, e)" by fastforce
  with Cons.prems(1) obtain ls rest where l: "fetch s e = Inr ls" "traverse (\<lambda>(s, e). fetch s e) rs = Inr rest" "lss = ls # rest"
    by (auto split: sum.splits)
  have rest: "filter (\<lambda>l. log_block_number l = Some n) (concat rest) =
      (if \<exists>r \<in> set rs. fst r \<le> n \<and> n \<le> snd r then filter wanted (chain n) else [])"
    by (rule Cons.IH [OF l(2)]) (use Cons.prems in auto)
  show ?case
  proof (cases "s \<le> n \<and> n \<le> e")
    case True
    have "\<not> (\<exists>r' \<in> set rs. fst r' \<le> n \<and> n \<le> snd r')"
    proof
      assume "\<exists>r' \<in> set rs. fst r' \<le> n \<and> n \<le> snd r'"
      then obtain r' where r': "r' \<in> set rs" "fst r' \<le> n" "n \<le> snd r'" by blast
      then have "r' = r" using Cons.prems(3) [of r' r] True r by simp
      then show False using r'(1) Cons.prems(2) by (metis distinct.simps(2) image_eqI list.set_map list.simps(9))
    qed
    then show ?thesis using block_of_range [OF assms(1) l(1), of n] rest True r l(3) by auto
  next
    case False
    then show ?thesis using block_of_range [OF assms(1) l(1), of n] rest r l(3) by auto
  qed
qed simp

end

interpretation evm: range_log_source "honest_provider p chain" "ds_fetch_logs_for_range (evm_rpc_source p r)"
  "is_log_interesting r" chain for p r chain
proof unfold_locales
  fix a b ls
  assume "honest_provider p chain" "ds_fetch_logs_for_range (evm_rpc_source p r) a b = Inr ls"
  then show "ls = filter (is_log_interesting r) (concat (map chain (u64_range a b)))"
    using fetch_range_exact by (simp add: evm_rpc_source_def)
qed (simp add: honest_provider_def)

section \<open>Log chunks\<close>

lemma log_chunks_step:
  "a \<le> b \<Longrightarrow> n \<noteq> 0 \<Longrightarrow> unat a + unat n < 2 ^ 64 \<Longrightarrow>
     log_chunks n a b = map_option (Cons (a, min (a + n - 1) b)) (log_chunks n (a + n) b)"
  by (simp add: log_chunks.simps [of n a b])

lemma log_chunks_done: "\<not> a \<le> b \<Longrightarrow> log_chunks n a b = Some []"
  by (simp add: log_chunks.simps)

lemma log_chunks_cases:
  assumes "log_chunks n a b = Some cs"
  obtains "\<not> a \<le> b" "cs = []"
  | cs' where "a \<le> b" "n \<noteq> 0" "unat a + unat n < 2 ^ 64" "log_chunks n (a + n) b = Some cs'" "cs = (a, min (a + n - 1) b) # cs'"
proof (cases "a \<le> b")
  case False
  then show thesis using that(1) assms by (simp add: log_chunks_done)
next
  case True
  then show thesis using assms that(2) by (subst (asm) log_chunks.simps) (auto split: if_splits simp: not_le)
qed

lemma log_chunks_total:
  "n \<noteq> 0 \<Longrightarrow> unat b + unat n < 2 ^ 64 \<Longrightarrow> \<exists>cs. log_chunks n a b = Some cs"
proof (induction n a b rule: log_chunks.induct)
  case (1 n a b)
  show ?case
  proof (cases "a \<le> b")
    case True
    then have "unat a + unat n < 2 ^ 64" using 1(3) by (simp add: word_le_nat_alt)
    then show ?thesis using 1 True log_chunks_step [OF True] by fastforce
  qed (simp add: log_chunks_done)
qed

lemma chunk_end:
  fixes a n m :: u64
  assumes "n \<noteq> 0" "unat a + unat n < 2 ^ 64"
  shows "m \<le> a + n - 1 \<longleftrightarrow> \<not> a + n \<le> m" "a < a + n"
proof -
  have un: "unat (a + n) = unat a + unat n" using assms(2) by (simp add: unat_plus_no_overflow)
  moreover have pos: "0 < unat n" using assms(1) by (simp add: unat_gt_0)
  ultimately have "a + n \<noteq> 0" by (metis add_is_0 less_irrefl unat_0)
  then have "unat (a + n - 1) = unat a + unat n - 1" using un by (simp add: unat_minus_one)
  then show "m \<le> a + n - 1 \<longleftrightarrow> \<not> a + n \<le> m" "a < a + n" using un pos by (auto simp: word_le_nat_alt word_less_nat_alt)
qed

lemma log_chunks_cover:
  "log_chunks n a b = Some cs \<Longrightarrow> (\<exists>r \<in> set cs. fst r \<le> m \<and> m \<le> snd r) \<longleftrightarrow> a \<le> m \<and> m \<le> b"
proof (induction n a b arbitrary: cs rule: log_chunks.induct)
  case (1 n a b)
  from 1(2) show ?case
  proof (cases rule: log_chunks_cases)
    case (2 cs')
    note e = chunk_end [OF 2(2,3)]
    have "(\<exists>r \<in> set cs'. fst r \<le> m \<and> m \<le> snd r) \<longleftrightarrow> a + n \<le> m \<and> m \<le> b" using 1(1) 2 by (simp add: not_le)
    then show ?thesis using 2(1) e(1) [of m] e(2) by (auto simp: 2(5))
  qed auto
qed

lemma log_chunks_starts: "log_chunks n a b = Some cs \<Longrightarrow> r \<in> set cs \<Longrightarrow> a \<le> fst r"
proof (induction n a b arbitrary: cs rule: log_chunks.induct)
  case (1 n a b)
  from 1(2) show ?case
  proof (cases rule: log_chunks_cases)
    case (2 cs')
    then show ?thesis using 1(1) [of cs'] 1(3) chunk_end(2) [OF 2(2,3)] by (fastforce simp: not_le)
  qed (use 1(3) in simp)
qed

lemma log_chunks_disjoint:
  "log_chunks n a b = Some cs \<Longrightarrow> distinct (map fst cs) \<and>
     (\<forall>r \<in> set cs. \<forall>r' \<in> set cs. fst r \<le> m \<and> m \<le> snd r \<and> fst r' \<le> m \<and> m \<le> snd r' \<longrightarrow> r = r')"
proof (induction n a b arbitrary: cs rule: log_chunks.induct)
  case (1 n a b)
  from 1(2) show ?case
  proof (cases rule: log_chunks_cases)
    case (2 cs')
    note e = chunk_end [OF 2(2,3)]
    have IH: "distinct (map fst cs') \<and>
        (\<forall>r \<in> set cs'. \<forall>r' \<in> set cs'. fst r \<le> m \<and> m \<le> snd r \<and> fst r' \<le> m \<and> m \<le> snd r' \<longrightarrow> r = r')"
      using 1(1) 2 by (simp add: not_le)
    have st: "r \<in> set cs' \<Longrightarrow> a + n \<le> fst r" for r using log_chunks_starts [OF 2(4)] .
    have new: "a \<notin> fst ` set cs'" using st e(2) by (auto simp: not_le [symmetric])
    have no: "\<not> (fst r \<le> m \<and> m \<le> a + n - 1)" if "r \<in> set cs'" for r
      using st [OF that] e(1) [of m] by (meson order_trans)
    have "\<not> (fst r \<le> m \<and> m \<le> snd (a, min (a + n - 1) b))" if "r \<in> set cs'" for r using no [OF that] by auto
    with new show ?thesis using IH unfolding 2(5) list.map distinct.simps list.set ball_simps fst_conv set_map by blast
  qed simp
qed

text \<open>Splitting a log request: as long as the chunk size and the last block do not overflow, the sub-ranges exist,
  cover every block of the range exactly once and none outside it.\<close>

lemma log_chunks_partition:
  assumes "n \<noteq> 0" "unat b + unat n < 2 ^ 64"
  shows "\<exists>cs. log_chunks n a b = Some cs \<and>
    (\<forall>m. length (filter (\<lambda>(s, e). s \<le> m \<and> m \<le> e) cs) = (if a \<le> m \<and> m \<le> b then 1 else 0))"
proof -
  obtain cs where cs: "log_chunks n a b = Some cs" using log_chunks_total [OF assms] by blast
  have "length (filter (\<lambda>(s, e). s \<le> m \<and> m \<le> e) cs) = (if a \<le> m \<and> m \<le> b then 1 else 0)" for m
  proof -
    let ?P = "\<lambda>r. fst r \<le> m \<and> m \<le> snd r"
    have d: "distinct (filter ?P cs)" "\<And>r r'. r \<in> set (filter ?P cs) \<Longrightarrow> r' \<in> set (filter ?P cs) \<Longrightarrow> r = r'"
      using log_chunks_disjoint [OF cs, of m] by (auto simp: distinct_map)
    have "S = {} \<or> (\<exists>x. S = {x})" if "\<And>r r'. r \<in> S \<Longrightarrow> r' \<in> S \<Longrightarrow> r = r'" for S :: "(u64 \<times> u64) set"
      using that by fast
    from this [OF d(2)] have "set (filter ?P cs) = {} \<or> (\<exists>x. set (filter ?P cs) = {x})" .
    then have "card (set (filter ?P cs)) = (if set (filter ?P cs) = {} then 0 else 1)" by (auto simp del: set_filter)
    moreover have "set (filter ?P cs) = {} \<longleftrightarrow> \<not> (a \<le> m \<and> m \<le> b)"
      unfolding log_chunks_cover [OF cs, of m, symmetric] by auto
    ultimately show ?thesis using distinct_card [OF d(1)] unfolding case_prod_beta' by presburger
  qed
  then show ?thesis using cs by blast
qed

section \<open>Fetching a range\<close>

lemma chunked_block_logs:
  assumes "fetch_logs_chunked order ds a b n = Some (Inr ls)" "\<And>cs. mset (order cs) = mset cs"
    and src: "range_log_source True (ds_fetch_logs_for_range ds) wanted chain" and m: "a \<le> m" "m \<le> b"
  shows "filter (\<lambda>l. log_block_number l = Some m) ls = filter wanted (chain m)"
proof (cases "n = 0 \<or> saturating_sub b a < n")
  case True
  then show ?thesis using assms(1) range_log_source.block_of_range [OF src TrueI, of a b ls m] m
    by (simp add: fetch_logs_chunked_def)
next
  case False
  then obtain cs lss where cs: "log_chunks n a b = Some cs" and ls: "ls = concat lss"
    "traverse (\<lambda>(s, e). ds_fetch_logs_for_range ds s e) (order cs) = Inr lss"
    using assms(1) by (auto simp: fetch_logs_chunked_def result_simps split: if_splits)
  have sets: "set (order cs) = set cs" using assms(2) by (metis set_mset_mset)
  have "distinct (map fst (order cs))"
    using log_chunks_disjoint [OF cs] assms(2) by (metis mset_map mset_eq_imp_distinct_iff)
  then show ?thesis
    using range_log_source.block_of_ranges [OF src TrueI ls(2), of m] log_chunks_disjoint [OF cs, of m]
      log_chunks_cover [OF cs, of m] m unfolding sets ls(1) by auto
qed

lemma group_by_block_lookup:
  "(case map_of (group_by_block ls m) n of Some v \<Rightarrow> v | None \<Rightarrow> []) =
     (case map_of m n of Some v \<Rightarrow> v | None \<Rightarrow> []) @ filter (\<lambda>l. log_block_number l = Some n) ls"
proof (induction ls arbitrary: m)
  case (Cons l ls)
  show ?case
    by (cases "log_block_number l") (auto simp: Cons map_of_entry_update)
qed simp

lemma map_filter_cong: "(\<And>x. x \<in> set xs \<Longrightarrow> f x = g x) \<Longrightarrow> List.map_filter f xs = List.map_filter g xs"
  by (induction xs) (simp_all add: map_filter_simps split: option.split)

lemma take_receipts_spec:
  "distinct hs \<Longrightarrow> snd (take_receipts hs m) = List.map_filter (\<lambda>h. map_option (Pair h) (map_of m h)) hs \<and>
     (\<forall>k. k \<notin> set hs \<longrightarrow> map_of (fst (take_receipts hs m)) k = map_of m k)"
proof (induction hs arbitrary: m)
  case (Cons h hs)
  have same: "List.map_filter (\<lambda>x. map_option (Pair x) (map_of (AList.delete h m) x)) hs =
      List.map_filter (\<lambda>x. map_option (Pair x) (map_of m x)) hs"
    by (rule map_filter_cong) (use Cons.prems in \<open>auto simp: delete_conv'\<close>)
  show ?case
  proof (cases "map_of m h")
    case None
    then show ?thesis using Cons by (simp add: map_filter_simps)
  next
    case (Some r)
    obtain m' rs where t: "take_receipts hs (AList.delete h m) = (m', rs)" by fastforce
    have "rs = List.map_filter (\<lambda>x. map_option (Pair x) (map_of m x)) hs"
      "\<forall>k. k \<notin> set hs \<longrightarrow> map_of m' k = map_of (AList.delete h m) k"
      using Cons.IH [of "AList.delete h m"] Cons.prems same t by auto
    then show ?thesis using Some t by (auto simp: map_filter_simps delete_conv')
  qed
qed (simp add: map_filter_simps)

definition block_hashes :: "block \<Rightarrow> b256 list" where
  "block_hashes b = block_tx_hashes (blk_transactions b)"

definition combined :: "(u64 \<times> evm_log list) list \<Rightarrow> (b256 \<times> receipt) list \<Rightarrow> block \<Rightarrow> block_data" where
  "combined lm rm b = from_raw_data b (List.map_filter (\<lambda>h. map_option (Pair h) (map_of rm h)) (block_hashes b))
     (case map_of lm (blk_number b) of Some v \<Rightarrow> v | None \<Rightarrow> [])"

lemma combine_blocks_spec:
  "distinct (map blk_number bs) \<Longrightarrow> distinct (concat (map block_hashes bs)) \<Longrightarrow>
     combine_blocks bs lm rm = map (combined lm rm) bs"
proof (induction bs arbitrary: lm rm)
  case (Cons b bs)
  obtain rm' rs where r: "take_receipts (block_hashes b) rm = (rm', rs)" by fastforce
  have dh: "distinct (block_hashes b)" "set (block_hashes b) \<inter> set (concat (map block_hashes bs)) = {}"
    using Cons.prems(2) by auto
  then have rs: "rs = List.map_filter (\<lambda>h. map_option (Pair h) (map_of rm h)) (block_hashes b)"
    and rm': "k \<notin> set (block_hashes b) \<Longrightarrow> map_of rm' k = map_of rm k" for k
    using take_receipts_spec [of "block_hashes b" rm] r by auto
  have "combined (AList.delete (blk_number b) lm) rm' c = combined lm rm c" if "c \<in> set bs" for c
  proof -
    have "blk_number c \<noteq> blk_number b" using Cons.prems(1) that by (metis distinct.simps(2) image_eqI list.set_map list.simps(9))
    moreover have "map_of rm' h = map_of rm h" if "h \<in> set (block_hashes c)" for h
      using rm' dh(2) that \<open>c \<in> set bs\<close> by auto
    then have "List.map_filter (\<lambda>h. map_option (Pair h) (map_of rm' h)) (block_hashes c) =
        List.map_filter (\<lambda>h. map_option (Pair h) (map_of rm h)) (block_hashes c)"
      by (intro map_filter_cong) simp
    ultimately show ?thesis by (simp add: combined_def delete_conv')
  qed
  then show ?case using Cons r rs by (simp add: take_list_def block_hashes_def combined_def)
qed simp

lemma sorted_u64_range: "sorted (u64_range a b)"
proof -
  have "sorted (map unat (u64_range a b))" by (simp only: u64_range_unat sorted_upt)
  then show ?thesis unfolding sorted_map by (simp only: word_le_nat_alt [abs_def])
qed

lemma fetch_blocks_numbers:
  assumes "honest_provider p chain" "fetch_blocks_only (evm_rpc_source p r) a b = Inr bs"
  shows "map blk_number bs = u64_range a b"
proof -
  have "list_all2 (\<lambda>n b. fetch_block_only p n = Inr b) (u64_range a b) bs"
    using assms(2) by (simp add: fetch_blocks_only_def evm_rpc_source_def traverse_Inr_iff)
  then have "list_all2 (\<lambda>n b. n = blk_number b) (u64_range a b) bs"
    by (rule list_all2_mono) (use assms(1) in \<open>auto simp: fetch_block_only_def result_simps honest_provider_def\<close>)
  then show ?thesis by (induction rule: list_all2_induct) auto
qed

lemma fetch_receipts_lookup:
  assumes "fetch_receipts p hs c = Inr rm" "\<And>hs. mset (rp_completion p hs) = mset hs" "h \<in> set hs" "distinct hs"
  shows "rp_receipt p h = Inr (map_of rm h)"
proof -
  have ne: "hs \<noteq> []" using assms(3) by auto
  obtain res where res: "traverse (\<lambda>h. mapR (Pair h) (map_err Provider (rp_receipt p h))) (rp_completion p hs) = Inr res"
    "rm = List.map_filter (\<lambda>(h, r). map_option (Pair h) r) res"
    using assms(1) ne by (auto simp: fetch_receipts_def result_simps)
  have look: "list_all2 (\<lambda>h x. mapR (Pair h) (map_err Provider (rp_receipt p h)) = (Inr x :: data_source_error + _)) ks res \<Longrightarrow>
      distinct ks \<Longrightarrow> h \<in> set ks \<Longrightarrow> rp_receipt p h = Inr (map_of (List.map_filter (\<lambda>(h, r). map_option (Pair h) r) res) h)" for ks res
  proof (induction rule: list_all2_induct)
    case (Cons k ks x xs)
    then obtain r where r: "rp_receipt p k = Inr r" "x = (k, r)" by (auto simp: result_simps)
    have none: "map_of (List.map_filter (\<lambda>(h, r). map_option (Pair h) r) xs) k = None"
    proof -
      have "fst ` set xs \<subseteq> set ks" using Cons.hyps(2)
        by (induction rule: list_all2_induct) (auto simp: result_simps)
      then show ?thesis using Cons.prems(1) by (auto simp: map_of_eq_None_iff map_filter_def)
    qed
    show ?case using Cons r none by (cases "h = k"; cases r) (auto simp: map_filter_simps)
  qed simp
  show ?thesis unfolding res(2)
  proof (rule look)
    show "list_all2 (\<lambda>h x. mapR (Pair h) (map_err Provider (rp_receipt p h)) = (Inr x :: data_source_error + _)) (rp_completion p hs) res"
      using res(1) by (simp add: traverse_Inr_iff)
    show "distinct (rp_completion p hs)" using assms(2,4) by (metis mset_eq_imp_distinct_iff)
    show "h \<in> set (rp_completion p hs)" using assms(2,3) by (metis mset_eq_setD)
  qed
qed

lemma combine_blocks_blocks: "map bd_block (combine_blocks bs lm rm) = bs"
  by (induction bs lm rm rule: combine_blocks.induct) (auto simp: from_raw_data_def split: prod.splits)

lemma fetched_block_numbers:
  assumes "honest_provider p chain" "fetch_blocks_concurrent order (evm_rpc_source p r) needs a b cfg = Some (Inr bds)"
  shows "map (blk_number \<circ> bd_block) bds = u64_range a b"
proof -
  obtain bs lm rm where bs: "fetch_blocks_only (evm_rpc_source p r) a b = Inr bs"
    and bds: "bds = sort_key (blk_number \<circ> bd_block) (combine_blocks bs lm rm)"
    using assms(2) by (auto simp: fetch_blocks_concurrent_def result_simps)
  have nums: "map (blk_number \<circ> bd_block) (combine_blocks bs lm rm) = u64_range a b"
    using fetch_blocks_numbers [OF assms(1) bs] by (simp only: map_map [symmetric] combine_blocks_blocks)
  then have "bds = combine_blocks bs lm rm" unfolding bds by (intro sort_key_id_if_sorted) (simp only: sorted_u64_range)
  then show ?thesis using nums by simp
qed

lemma fetched_blocks_are:
  assumes "honest_provider p chain" "fetch_blocks_concurrent order (evm_rpc_source p r) needs a b cfg = Some (Inr bds)"
    and blk: "\<And>n. a \<le> n \<Longrightarrow> n \<le> b \<Longrightarrow> rp_block_by_number p n = Inr (Some (blk n))"
  shows "map bd_block bds = map blk (u64_range a b)"
proof -
  obtain bs lm rm where bs: "fetch_blocks_only (evm_rpc_source p r) a b = Inr bs"
    and bds: "bds = sort_key (blk_number \<circ> bd_block) (combine_blocks bs lm rm)"
    using assms(2) by (auto simp: fetch_blocks_concurrent_def result_simps)
  have "sorted (map (blk_number \<circ> bd_block) (combine_blocks bs lm rm))"
    using fetch_blocks_numbers [OF assms(1) bs] sorted_u64_range by (simp only: map_map [symmetric] combine_blocks_blocks)
  then have "map bd_block bds = bs" unfolding bds by (simp add: sort_key_id_if_sorted combine_blocks_blocks)
  moreover have "traverse (fetch_block_only p) (u64_range a b) = Inr bs" using bs by (simp add: fetch_blocks_only_def evm_rpc_source_def)
  then have "list_all2 (\<lambda>n c. c = blk n) (u64_range a b) bs" unfolding traverse_Inr_iff
    by (rule list.rel_mono_strong) (auto simp: set_u64_range fetch_block_only_def blk result_simps)
  then have "bs = map blk (u64_range a b)" by (induction rule: list_all2_induct) simp_all
  ultimately show ?thesis by simp
qed

text \<open>A node that answers every request up to a block.\<close>

definition available :: "rpc_provider \<Rightarrow> u64 \<Rightarrow> bool" where
  "available p safe \<longleftrightarrow>
     (\<forall>a b ts. is_ok (rp_logs p a b ts)) \<and> (\<forall>h. is_ok (rp_receipt p h)) \<and>
     (\<forall>n \<le> safe. \<exists>b. rp_block_by_number p n = Inr (Some b))"

lemma is_ok_iff: "is_ok r \<longleftrightarrow> (\<exists>x. r = Inr x)"
  by (cases r) auto

lemma traverse_ok: "(\<And>x. x \<in> set xs \<Longrightarrow> is_ok (f x)) \<Longrightarrow> is_ok (traverse f xs)"
proof (induction xs)
  case (Cons x xs)
  then obtain y ys where "f x = Inr y" "traverse f xs = Inr ys" unfolding is_ok_iff by (meson list.set_intros)
  then show ?case by simp
qed simp

lemma available_fetches:
  assumes "available p safe" "b \<le> safe" "unat safe + unat (fc_log_chunk_size cfg) < 2 ^ 64"
  shows "\<exists>bds. fetch_blocks_concurrent order (evm_rpc_source p r) needs a b cfg = Some (Inr bds)"
proof -
  let ?ds = "evm_rpc_source p r"
  have range: "is_ok (ds_fetch_logs_for_range ?ds x y)" for x y
    using assms(1) by (auto simp: available_def evm_rpc_source_def fetch_logs_for_range_def fetch_logs_for_block_range_def
        is_ok_iff result_simps)
  have total: "fc_log_chunk_size cfg \<noteq> 0 \<Longrightarrow> \<exists>cs. log_chunks (fc_log_chunk_size cfg) a b = Some cs"
    using assms(2,3) by (intro log_chunks_total) (auto simp: word_le_nat_alt)
  have chunks: "is_ok (traverse (\<lambda>(s, e). ds_fetch_logs_for_range ?ds s e) cs)" for cs
    using range by (intro traverse_ok) auto
  have logs: "\<exists>ls. fetch_logs_chunked order ?ds a b (fc_log_chunk_size cfg) = Some (Inr ls)"
    using range [of a b] total chunks by (auto simp: fetch_logs_chunked_def is_ok_iff result_simps)
  have blocks: "is_ok (fetch_blocks_only ?ds a b)"
    unfolding fetch_blocks_only_def
  proof (rule traverse_ok)
    fix n assume "n \<in> set (u64_range a b)"
    then have "n \<le> safe" using assms(2) by (auto simp: set_u64_range)
    then obtain blk where "rp_block_by_number p n = Inr (Some blk)" using assms(1) unfolding available_def by blast
    then show "is_ok (ds_fetch_block_only ?ds n)" by (simp add: evm_rpc_source_def fetch_block_only_def)
  qed
  have "is_ok (fetch_receipts p hs c)" for hs c
    using assms(1) traverse_ok [of "rp_completion p hs" "\<lambda>h. mapR (Pair h) (map_err Provider (rp_receipt p h))"]
    by (auto simp: available_def fetch_receipts_def is_ok_iff result_simps)
  then have "is_ok (fetch_all_receipts ?ds needs bs c)" for bs c
    by (simp add: fetch_all_receipts_def evm_rpc_source_def Let_def)
  moreover obtain ls where "fetch_logs_chunked order ?ds a b (fc_log_chunk_size cfg) = Some (Inr ls)" using logs by blast
  moreover obtain bs where "fetch_blocks_only ?ds a b = Inr bs" using blocks by (auto simp: is_ok_iff)
  moreover obtain rs where "fetch_all_receipts ?ds needs bs (fc_concurrency cfg) = Inr rs"
    using calculation(1) [of bs "fc_concurrency cfg"] by (auto simp: is_ok_iff)
  ultimately show ?thesis by (simp add: fetch_blocks_concurrent_def)
qed

lemma evm_trusted: "honest_provider p chain \<Longrightarrow>
    range_log_source True (ds_fetch_logs_for_range (evm_rpc_source p r)) (is_log_interesting r) chain"
  using evm.range_log_source_axioms [of p chain r] by (simp add: range_log_source_def)

lemma mset_concat_map: "mset (concat (map f xs)) = (\<Sum>x \<in># mset xs. mset (f x))"
  by (induction xs) simp_all

definition permutes :: "('a list \<Rightarrow> 'a list) \<Rightarrow> bool" where
  "permutes order \<longleftrightarrow> (\<forall>xs. mset (order xs) = mset xs)"

lemma fetched_blocks_exact:
  assumes "honest_provider p chain" "permutes order" "permutes (rp_completion p)"
    and fetch: "fetch_blocks_concurrent order (evm_rpc_source p r) needs a b cfg = Some (Inr bds)"
    and hashes: "distinct (concat (map (block_hashes \<circ> bd_block) bds))"
  shows "map (blk_number \<circ> bd_block) bds = u64_range a b \<and>
    list_all (\<lambda>bd. bd_logs bd = group_logs (filter (is_log_interesting r) (chain (blk_number (bd_block bd)))) [] \<and>
      (needs \<longrightarrow> list_all (\<lambda>h. rp_receipt p h = Inr (map_of (bd_receipts bd) h)) (block_hashes (bd_block bd)))) bds"
proof -
  let ?ds = "evm_rpc_source p r"
  obtain logs bs rm where logs: "fetch_logs_chunked order ?ds a b (fc_log_chunk_size cfg) = Some (Inr logs)"
    and bs: "fetch_blocks_only ?ds a b = Inr bs" and rm: "fetch_all_receipts ?ds needs bs (fc_concurrency cfg) = Inr rm"
    and sorted: "bds = sort_key (blk_number \<circ> bd_block) (combine_blocks bs (group_by_block logs []) rm)"
    using fetch by (auto simp: fetch_blocks_concurrent_def result_simps)
  note nums = fetch_blocks_numbers [OF assms(1) bs]
  have "mset (concat (map (block_hashes \<circ> bd_block) bds)) = mset (concat (map (block_hashes \<circ> bd_block)
      (combine_blocks bs (group_by_block logs []) rm)))"
    unfolding sorted mset_concat_map by simp
  then have "distinct (concat (map (block_hashes \<circ> bd_block) (combine_blocks bs (group_by_block logs []) rm)))"
    using hashes by (metis mset_eq_imp_distinct_iff)
  then have dh: "distinct (concat (map block_hashes bs))" by (simp only: combine_blocks_blocks map_map [symmetric])
  have comb: "combine_blocks bs (group_by_block logs []) rm = map (combined (group_by_block logs []) rm) bs"
    by (rule combine_blocks_spec) (use nums dh in simp_all)
  then have bds: "bds = map (combined (group_by_block logs []) rm) bs"
    using sorted nums sorted_u64_range by (simp add: comb sort_key_id_if_sorted combined_def from_raw_data_def comp_def)
  have "bd_logs bd = group_logs (filter (is_log_interesting r) (chain (blk_number (bd_block bd)))) []"
    and "needs \<longrightarrow> list_all (\<lambda>h. rp_receipt p h = Inr (map_of (bd_receipts bd) h)) (block_hashes (bd_block bd))"
    if "bd \<in> set bds" for bd
  proof -
    obtain c where c: "c \<in> set bs" "bd = combined (group_by_block logs []) rm c" using \<open>bd \<in> set bds\<close> by (auto simp: bds)
    then have "blk_number c \<in> set (u64_range a b)" using nums by (metis image_eqI set_map)
    then have "filter (\<lambda>l. log_block_number l = Some (blk_number c)) logs = filter (is_log_interesting r) (chain (blk_number c))"
      by (intro chunked_block_logs [OF logs _ evm_trusted [OF assms(1)]]) (use assms(2) in \<open>auto simp: permutes_def set_u64_range\<close>)
    then show "bd_logs bd = group_logs (filter (is_log_interesting r) (chain (blk_number (bd_block bd)))) []"
      using group_by_block_lookup [of logs "[]" "blk_number c"] by (simp add: c(2) combined_def from_raw_data_def)
    have look: "map_of (List.map_filter (\<lambda>h. map_option (Pair h) (map_of rm h)) hs) h = (if h \<in> set hs then map_of rm h else None)" for hs h
      by (induction hs) (auto simp: map_filter_simps split: option.splits)
    have "rp_receipt p h = Inr (map_of rm h)" if "needs" "h \<in> set (block_hashes c)" for h
      by (rule fetch_receipts_lookup [of p "concat (map block_hashes bs)"])
         (use rm that c(1) dh assms(3) in \<open>auto simp: fetch_all_receipts_def evm_rpc_source_def Let_def block_hashes_def [abs_def]
             comp_def permutes_def split: if_splits\<close>)
    then show "needs \<longrightarrow> list_all (\<lambda>h. rp_receipt p h = Inr (map_of (bd_receipts bd) h)) (block_hashes (bd_block bd))"
      using look by (auto simp: c(2) combined_def from_raw_data_def list_all_iff)
  qed
  moreover have "map (blk_number \<circ> bd_block) bds = u64_range a b"
    using nums by (simp add: bds combined_def from_raw_data_def comp_def)
  ultimately show ?thesis by (simp add: list_all_iff)
qed

text \<open>C34. Fetching a range: however the concurrent requests complete, the result has one entry per block of the range in
  ascending order; the logs of an entry are the wanted logs of that block in chain order, grouped by transaction; and when
  receipts are needed, the receipt of each of its transactions is the one the node has.\<close>

theorem fetched_blocks_complete:
  assumes "honest_provider p chain" "permutes order" "permutes (rp_completion p)"
    and fetch: "fetch_blocks_concurrent order (evm_rpc_source p r) needs a b cfg = Some (Inr bds)"
    and hashes: "distinct (concat (map (block_hashes \<circ> bd_block) bds))"
  shows "map (blk_number \<circ> bd_block) bds = u64_range a b \<and>
    list_all (\<lambda>bd. bd_logs bd = group_logs (filter (is_log_interesting r) (chain (blk_number (bd_block bd)))) [] \<and>
      (needs \<longrightarrow> list_all (\<lambda>h. rp_receipt p h = Inr (map_of (bd_receipts bd) h)) (block_hashes (bd_block bd)))) bds"
  using fetched_blocks_exact [OF assms] .

section \<open>Witnesses\<close>

definition sample_chain :: "u64 \<Rightarrow> evm_log list" where
  "sample_chain n = (if n = 4 then [sample_log] else [])"

definition sample_block :: "u64 \<Rightarrow> block" where
  "sample_block n = \<lparr>blk_number = n, blk_timestamp = 0, blk_logs_bloom = 0, blk_transactions = TxHashes [6]\<rparr>"

definition sample_receipt :: receipt where
  "sample_receipt = \<lparr>rc_gas_used = 21000, rc_status = True, rc_effective_gas_price = 1\<rparr>"

definition sample_provider :: rpc_provider where
  "sample_provider = \<lparr>rp_block_number = Inr 10, rp_block_by_number = (\<lambda>n. Inr (Some (sample_block n))),
     rp_logs = (\<lambda>a b ts. Inr (filter (\<lambda>l. case ts of None \<Rightarrow> True | Some ts \<Rightarrow> topic0 l \<in> Some ` set ts)
       (concat (map sample_chain (u64_range a b))))),
     rp_receipt = (\<lambda>h. Inr (Some sample_receipt)), rp_bloom_topic = (\<lambda>_ _. True), rp_bloom_address = (\<lambda>_ _. True),
     rp_completion = rev\<rparr>"

definition sample_registry :: interest_registry where
  "sample_registry = \<lparr>ir_log_interests = [(9, None)], ir_calldata_addresses = [], ir_global_event_signatures = [1]\<rparr>"

lemma sample_provider_honest: "honest_provider sample_provider sample_chain"
  by (auto simp: honest_provider_def sample_provider_def sample_chain_def sample_log_def sample_block_def)

definition sample_block_data :: block_data where
  "sample_block_data = from_raw_data (sample_block 4) [(6, sample_receipt)] [sample_log]"

theorem block_filters_lose_nothing_witness:
  "blk_number (sample_block 4) = 4 \<and>
   filter (is_log_interesting sample_registry) [sample_log] = filter (is_log_interesting sample_registry) (sample_chain 4)"
proof -
  have "fetch_block_core_data sample_provider sample_registry 4 = Inr (sample_block 4, [sample_log])"
    by (simp add: fetch_block_core_data_def fetch_block_and_logs_def fetch_block_only_def sample_provider_def no_log_interest_def
        sample_registry_def might_contain_relevant_logs_def fetch_logs_for_block_range_def build_topic_filter_def sample_chain_def)
  then show ?thesis by (rule block_filters_lose_nothing [OF sample_provider_honest])
qed

theorem fetched_blocks_complete_witness:
  "map (blk_number \<circ> bd_block) [sample_block_data] = u64_range 4 4 \<and>
   list_all (\<lambda>bd. bd_logs bd = group_logs (filter (is_log_interesting sample_registry) (sample_chain (blk_number (bd_block bd)))) [] \<and>
      (True \<longrightarrow> list_all (\<lambda>h. rp_receipt sample_provider h = Inr (map_of (bd_receipts bd) h)) (block_hashes (bd_block bd)))) [sample_block_data]"
proof -
  have "fetch_blocks_concurrent rev (evm_rpc_source sample_provider sample_registry) True 4 4
      \<lparr>fc_concurrency = 2, fc_log_chunk_size = 0\<rparr> = Some (Inr [sample_block_data])"
    by (simp add: fetch_blocks_concurrent_def fetch_logs_chunked_def fetch_blocks_only_def evm_rpc_source_def fetch_logs_for_range_def
        no_log_interest_def fetch_logs_for_block_range_def build_topic_filter_def fetch_block_only_def fetch_all_receipts_def
        fetch_receipts_def sample_provider_def sample_chain_def sample_block_def is_log_interesting_def sample_registry_def Let_def
        block_tx_hashes_def map_filter_simps take_list_def entry_update_def sample_log_def sample_block_data_def)
  then show ?thesis
    by (rule fetched_blocks_complete [OF sample_provider_honest, rotated 2])
       (simp_all add: permutes_def sample_provider_def sample_block_data_def from_raw_data_def block_hashes_def sample_block_def block_tx_hashes_def)
qed

end
