(* ===== verification/Argus_Config.thy ===== *)
theory Argus_Config
  imports Argus_Outbox
begin

text \<open>
  The application configuration, \<open>crates/argus-core/src/config\<close>: the configuration record with its
  defaults, and the custom deserialisers for durations, URL lists and the initial start block. Durations
  are in milliseconds. Locating and merging the configuration sources is I/O; the URL parser is a parameter.
\<close>

section \<open>Records\<close>

record rpc_retry_config =
  rr_max_retry :: u32
  rr_backoff_ms :: u64
  rr_compute_units_per_second :: u64

definition default_rpc_retry_config :: rpc_retry_config where
  "default_rpc_retry_config = \<lparr>rr_max_retry = 10, rr_backoff_ms = 1000, rr_compute_units_per_second = 100\<rparr>"

record base_http_client_config =
  bh_max_idle_per_host :: nat
  bh_idle_timeout :: duration
  bh_connect_timeout :: duration

definition default_base_http_client_config :: base_http_client_config where
  "default_base_http_client_config = \<lparr>bh_max_idle_per_host = 10, bh_idle_timeout = 30000, bh_connect_timeout = 10000\<rparr>"

record rhai_config =
  rhc_max_operations :: u64
  rhc_max_call_levels :: nat
  rhc_max_string_size :: nat
  rhc_max_array_size :: nat
  rhc_execution_timeout :: duration

definition default_rhai_config :: rhai_config where
  "default_rhai_config = \<lparr>rhc_max_operations = 100000, rhc_max_call_levels = 10, rhc_max_string_size = 8192,
     rhc_max_array_size = 1000, rhc_execution_timeout = 5000\<rparr>"

text \<open>What \<open>create_engine\<close> sets on the script engine, for the compiler and for the evaluation alike. The time limit of the
  configuration is not among it.\<close>

datatype engine_package = BigIntPackage | EvmPackage | ArgusProxies

record engine_settings =
  es_max_operations :: u64
  es_max_call_levels :: nat
  es_max_string_size :: nat
  es_max_array_size :: nat
  es_disabled_symbols :: "string list"
  es_packages :: "engine_package list"

definition DANGEROUS_SYMBOLS :: "string list" where
  "DANGEROUS_SYMBOLS = [''eval'', ''import'', ''export'', ''print'', ''debug'', ''File'', ''file'', ''http'', ''net'', ''system'',
     ''process'', ''thread'', ''spawn'']"

definition create_engine :: "rhai_config \<Rightarrow> engine_settings" where
  "create_engine cfg = \<lparr>es_max_operations = rhc_max_operations cfg, es_max_call_levels = rhc_max_call_levels cfg,
     es_max_string_size = rhc_max_string_size cfg, es_max_array_size = rhc_max_array_size cfg,
     es_disabled_symbols = DANGEROUS_SYMBOLS, es_packages = [BigIntPackage, EvmPackage, ArgusProxies]\<rparr>"

lemma execution_timeout_unused: "create_engine (cfg\<lparr>rhc_execution_timeout := t\<rparr>) = create_engine cfg"
  by (simp add: create_engine_def)

record server_config =
  sc_listen_address :: string
  sc_api_key :: "string option"

datatype initial_start_block = Absolute u64 | Offset i64 | Latest

definition default_initial_start_block :: initial_start_block where
  "default_initial_start_block = Offset (- 100)"

record app_config =
  ac_database_url :: string
  ac_rpc_urls :: "string list"
  ac_network_id :: network_id
  ac_monitor_config_path :: string
  ac_action_config_path :: string
  ac_rpc_retry_config :: rpc_retry_config
  ac_http_retry_config :: http_retry_config
  ac_http_base_config :: base_http_client_config
  ac_block_chunk_size :: u64
  ac_log_chunk_size :: u64
  ac_concurrency :: u64
  ac_polling_interval_ms :: duration
  ac_expected_block_time_ms :: "duration option"
  ac_confirmation_blocks :: u64
  ac_shutdown_timeout :: duration
  ac_rhai :: rhai_config
  ac_notification_channel_capacity :: u32
  ac_abi_config_path :: string
  ac_aggregation_check_interval_secs :: duration
  ac_initial_start_block :: initial_start_block
  ac_server :: server_config
  ac_outbox :: outbox_config

section \<open>Deserialisers\<close>

definition deserialize_duration_from_ms :: "json \<Rightarrow> duration option" where
  "deserialize_duration_from_ms v = map_option unat (json_u64 v)"

definition deserialize_duration_from_ms_opt :: "json \<Rightarrow> duration option option" where
  "deserialize_duration_from_ms_opt v =
     (if v = JNull then Some None else map_option Some (deserialize_duration_from_ms v))"

definition deserialize_duration_from_seconds :: "json \<Rightarrow> duration option" where
  "deserialize_duration_from_seconds v = map_option (\<lambda>s. 1000 * unat s) (json_u64 v)"

definition serialize_duration_to_ms :: "duration \<Rightarrow> json" where
  "serialize_duration_to_ms d = JNumber (int (d mod 2 ^ 64))"

definition serialize_duration_to_ms_opt :: "duration option \<Rightarrow> json" where
  "serialize_duration_to_ms_opt d = (case d of Some x \<Rightarrow> serialize_duration_to_ms x | None \<Rightarrow> JNull)"

definition serialize_duration_to_seconds :: "duration \<Rightarrow> json" where
  "serialize_duration_to_seconds d = JNumber (int (d div 1000))"

text \<open>\<open>visit_i64\<close> and \<open>visit_str\<close>; other kinds of value are type errors.\<close>

definition initial_start_block_of_json :: "json \<Rightarrow> initial_start_block option" where
  "initial_start_block_of_json v =
     (case v of
        JNumber n \<Rightarrow>
          if n < - (2 ^ 63) \<or> i64_max < n then None
          else if n = 0 then Some default_initial_start_block
          else if 0 < n then Some (Absolute (word_of_int n))
          else Some (Offset n)
      | JString s \<Rightarrow> if eq_ignore_ascii_case s ''latest'' then Some Latest else None
      | _ \<Rightarrow> None)"

fun split_on :: "char \<Rightarrow> string \<Rightarrow> string list" where
  "split_on c [] = [[]]"
| "split_on c (x # xs) =
     (if x = c then [] # split_on c xs
      else (case split_on c xs of [] \<Rightarrow> [[x]] | w # ws \<Rightarrow> (x # w) # ws))"

definition is_space :: "char \<Rightarrow> bool" where
  "is_space c \<longleftrightarrow> c \<in> {CHR '' '', CHR 0x09, CHR 0x0A, CHR 0x0B, CHR 0x0C, CHR 0x0D}"

definition trim :: "string \<Rightarrow> string" where
  "trim s = rev (dropWhile is_space (rev (dropWhile is_space s)))"

definition deserialize_urls :: "(string \<Rightarrow> string + 'u) \<Rightarrow> json \<Rightarrow> string + 'u list" where
  "deserialize_urls parse v =
     (case v of
        JString s \<Rightarrow> traverse parse (filter (\<lambda>u. u \<noteq> []) (map trim (split_on CHR '','' s)))
      | JArray xs \<Rightarrow>
          bindR (traverse (\<lambda>x. case x of JString s \<Rightarrow> Inr s | _ \<Rightarrow> Inl ''expected a string'') xs) (traverse parse)
      | _ \<Rightarrow> Inl ''a string or a sequence of strings'')"

section \<open>Round trips and coverage of the start block\<close>

lemma duration_ms_roundtrip:
  assumes "d < 2 ^ 64"
  shows "deserialize_duration_from_ms (serialize_duration_to_ms d) = Some d"
proof -
  have d: "d mod 2 ^ 64 = d" using assms by (rule mod_less)
  have u: "uint (word_of_nat d :: u64) = int d" using assms by (simp add: uint_nat unat_of_nat d)
  have "json_u64 (JNumber (int d)) = Some (word_of_nat d)" unfolding u [symmetric] by (rule json_get_simps(3))
  then show ?thesis using assms
    by (simp add: deserialize_duration_from_ms_def serialize_duration_to_ms_def d unat_of_nat)
qed

lemma duration_ms_opt_roundtrip:
  "(case d of Some x \<Rightarrow> x < 2 ^ 64 | None \<Rightarrow> True) \<Longrightarrow>
     deserialize_duration_from_ms_opt (serialize_duration_to_ms_opt d) = Some d"
  using duration_ms_roundtrip
  by (auto simp: deserialize_duration_from_ms_opt_def serialize_duration_to_ms_opt_def serialize_duration_to_ms_def split: option.splits)

text \<open>Block 0 cannot be asked for: an absolute start is positive, zero means the default offset.\<close>

lemma initial_start_block_absolute:
  assumes "initial_start_block_of_json v = Some (Absolute n)"
  shows "0 < uint n \<and> v = JNumber (uint n)"
proof -
  obtain i where i: "v = JNumber i" "0 < i" "i \<le> i64_max" "n = word_of_int i"
    using assms by (auto simp: initial_start_block_of_json_def default_initial_start_block_def split: json.splits if_splits)
  then have "uint n = i" by (simp add: i64_max_def uint_word_of_int_eq take_bit_int_eq_self)
  then show ?thesis using i by simp
qed

lemma split_on_no_sep: "w \<in> set (split_on c s) \<Longrightarrow> c \<notin> set w"
  by (induction c s arbitrary: w rule: split_on.induct) (auto split: if_splits list.splits)

text \<open>A configuration for the witnesses of the theories that use it.\<close>

definition sample_app_config :: app_config where
  "sample_app_config = \<lparr>ac_database_url = ''sqlite:data/monitor.db'', ac_rpc_urls = [''http://localhost:8545''], ac_network_id = ''mainnet'',
     ac_monitor_config_path = ''configs/monitors.yaml'', ac_action_config_path = ''configs/actions.yaml'',
     ac_rpc_retry_config = default_rpc_retry_config,
     ac_http_retry_config = \<lparr>hr_max_retry = 3, hr_base_for_backoff = 2, hr_initial_backoff_ms = 250, hr_max_backoff_secs = 10, hr_jitter = JitterNone\<rparr>,
     ac_http_base_config = default_base_http_client_config, ac_block_chunk_size = 1, ac_log_chunk_size = 0, ac_concurrency = 10,
     ac_polling_interval_ms = 10000, ac_expected_block_time_ms = Some 2000, ac_confirmation_blocks = 4, ac_shutdown_timeout = 30000,
     ac_rhai = default_rhai_config, ac_notification_channel_capacity = 1024, ac_abi_config_path = ''abis'',
     ac_aggregation_check_interval_secs = 5000,
     ac_initial_start_block = default_initial_start_block, ac_server = \<lparr>sc_listen_address = ''0.0.0.0:8080'', sc_api_key = None\<rparr>,
     ac_outbox = default_outbox_config\<rparr>"

end
