(* ===== verification/Argus_Ingest.thy ===== *)
theory Argus_Ingest
  imports Argus_Provider Argus_Config
begin

text \<open>
  Block ingestion, \<open>crates/argus-engine/src/block_ingestor.rs\<close> and \<open>polling.rs\<close>: one
  ingestion cycle drains the chain up to the confirmed head in chunks and sends the blocks downstream.

  What the outside does during a cycle is a record: the answers of the data source, the completion order of
  concurrent requests, and for every block whether cancellation or a closed channel is seen there. The drain loop
  is a \<open>partial_function\<close>: \<open>None\<close> stands for a loop that does not return or an arithmetic overflow.
\<close>

section \<open>Polling\<close>

text \<open>Durations in nanoseconds for the calibrator, in milliseconds in the configuration.\<close>

definition min_live_poll_interval :: duration where
  "min_live_poll_interval = 250"

definition live_poll_interval :: "app_config \<Rightarrow> duration" where
  "live_poll_interval cfg =
     (case ac_expected_block_time_ms cfg of
        Some block_time \<Rightarrow> min (max block_time min_live_poll_interval) (ac_polling_interval_ms cfg)
      | None \<Rightarrow> ac_polling_interval_ms cfg)"

record calibrator =
  cal_expected :: "nat option"
  cal_sample :: "(nat \<times> u64) option"
  cal_warned :: bool

definition calibrator_new :: "nat option \<Rightarrow> calibrator" where
  "calibrator_new expected = \<lparr>cal_expected = expected, cal_sample = None, cal_warned = False\<rparr>"

text \<open>\<open>None\<close> is the panic of a division by a block count truncated to zero.\<close>

definition observe :: "nat \<Rightarrow> u64 \<Rightarrow> calibrator \<Rightarrow> calibrator option" where
  "observe now head c =
     (case cal_expected c of
        None \<Rightarrow> Some c
      | Some expected \<Rightarrow>
          (case cal_sample c of
             None \<Rightarrow> Some (c\<lparr>cal_sample := Some (now, head)\<rparr>)
           | Some (t0, h0) \<Rightarrow>
               (let delta = saturating_sub head h0
                in if delta < 4 then Some c
                   else if unat (ucast delta :: u32) = 0 then None
                   else
                     (let observed = (now - t0) div unat (ucast delta :: u32)
                      in Some (c\<lparr>cal_warned := cal_warned c \<or> observed * 2 < expected \<or> observed > expected * 2,
                                 cal_sample := Some (now, head)\<rparr>)))))"

section \<open>The ingestor\<close>

record ingestor =
  ig_next_block :: u64
  ig_calibrator :: calibrator
  ig_latest_processed_block :: u64
  ig_latest_timestamp :: u64

definition ingestor_new :: "app_config \<Rightarrow> ingestor" where
  "ingestor_new cfg = \<lparr>ig_next_block = 0,
     ig_calibrator = calibrator_new (map_option (\<lambda>ms. ms * 1000000) (ac_expected_block_time_ms cfg)),
     ig_latest_processed_block = 0, ig_latest_timestamp = 0\<rparr>"

definition next_poll_delay :: "app_config \<Rightarrow> bool \<Rightarrow> duration" where
  "next_poll_delay cfg backoff = (if backoff then ac_polling_interval_ms cfg else live_poll_interval cfg)"

record ingest_world =
  iw_source :: data_source
  iw_order :: "(u64 \<times> u64) list \<Rightarrow> (u64 \<times> u64) list"
  iw_needs_receipts :: bool
  iw_now :: nat
  iw_cancel_chunk :: "u64 \<Rightarrow> bool"
  iw_cancel_send :: "u64 \<Rightarrow> bool"
  iw_closed :: "u64 \<Rightarrow> bool"

datatype send_outcome = AllSent | SendCancelled | SendClosed

fun send_blocks :: "ingest_world \<Rightarrow> block_data list \<Rightarrow> ingestor \<Rightarrow> ingestor \<times> block_data list \<times> send_outcome" where
  "send_blocks w [] ig = (ig, [], AllSent)"
| "send_blocks w (bd # bds) ig =
     (let n = blk_number (bd_block bd)
      in if iw_cancel_send w n then (ig, [], SendCancelled)
         else if iw_closed w n then (ig, [], SendClosed)
         else
           (case send_blocks w bds
                   (ig\<lparr>ig_next_block := n + 1, ig_latest_processed_block := n, ig_latest_timestamp := blk_timestamp (bd_block bd)\<rparr>) of
              (ig', sent, outcome) \<Rightarrow> (ig', bd # sent, outcome)))"

definition fetch_chunk :: "app_config \<Rightarrow> ingest_world \<Rightarrow> u64 \<Rightarrow> u64 \<Rightarrow> (data_source_error + block_data list) option" where
  "fetch_chunk cfg w from to =
     fetch_blocks_concurrent (iw_order w) (iw_source w) (iw_needs_receipts w) from to
       \<lparr>fc_concurrency = unat (ac_concurrency cfg), fc_log_chunk_size = ac_log_chunk_size cfg\<rparr>"

type_synonym cycle_result = "ingestor \<times> block_data list \<times> (data_source_error + unit)"

partial_function (option) ingest_loop ::
  "app_config \<Rightarrow> ingest_world \<Rightarrow> u64 \<Rightarrow> u64 \<Rightarrow> ingestor \<Rightarrow> cycle_result option" where
  "ingest_loop cfg w safe from ig =
     (if \<not> from \<le> safe then Some (ig, [], Inr ())
      else if iw_cancel_chunk w from then Some (ig, [], Inr ())
      else
        Option.bind (fetch_chunk cfg w from (min (from + ac_block_chunk_size cfg) safe)) (\<lambda>r.
          case r of
            Inl e \<Rightarrow> Some (ig, [], Inl e)
          | Inr bds \<Rightarrow>
              (case send_blocks w bds ig of
                 (ig', sent, SendCancelled) \<Rightarrow> Some (ig', sent, Inr ())
               | (ig', sent, SendClosed) \<Rightarrow> Some (ig', sent, Inl ChannelClosed)
               | (ig', sent, AllSent) \<Rightarrow>
                   Option.bind (ingest_loop cfg w safe (min (from + ac_block_chunk_size cfg) safe + 1) ig') (\<lambda>(ig'', sent', res).
                     Some (ig'', sent @ sent', res)))))"

declare ingest_loop.simps [code]

definition default_backfill_blocks :: u64 where
  "default_backfill_blocks = 100"

definition cycle_start :: "u64 option \<Rightarrow> u64 \<Rightarrow> ingestor \<Rightarrow> u64" where
  "cycle_start lp current ig =
     max (case lp of None \<Rightarrow> saturating_sub current default_backfill_blocks | Some n \<Rightarrow> n + 1) (ig_next_block ig)"

text \<open>The part of a cycle after the database and the head have answered.\<close>

definition ingest_from :: "app_config \<Rightarrow> ingest_world \<Rightarrow> u64 option \<Rightarrow> u64 \<Rightarrow> ingestor \<Rightarrow> cycle_result option" where
  "ingest_from cfg w lp current ig =
     Option.bind (observe (iw_now w) current (ig_calibrator ig)) (\<lambda>c.
       let ig = ig\<lparr>ig_calibrator := c\<rparr>
       in if current < ac_confirmation_blocks cfg then Some (ig, [], Inr ())
          else
            (let safe = saturating_sub current (ac_confirmation_blocks cfg);
                 from = cycle_start lp current ig
             in if from > safe then Some (ig, [], Inr ()) else ingest_loop cfg w safe from ig))"

definition ingest_blocks :: "app_config \<Rightarrow> ingest_world \<Rightarrow> ingestor \<Rightarrow> db \<Rightarrow> (db \<times> cycle_result) option" where
  "ingest_blocks cfg w ig s =
     (case get_last_processed_block (ac_network_id cfg) s of
        (s', Inl e) \<Rightarrow> Some (s', ig, [], Inl (StateRepository e))
      | (s', Inr lp) \<Rightarrow>
          (case ds_get_current_block_number (iw_source w) of
             Inl e \<Rightarrow> Some (s', ig, [], Inl e)
           | Inr current \<Rightarrow> map_option (Pair s') (ingest_from cfg w lp current ig)))"

text \<open>The service loop, a list of cycles: the database each cycle reads (the block processor updates it in between) and
  what the outside does. The result is what was sent and the delays chosen.\<close>

fun ingestor_run :: "app_config \<Rightarrow> (db \<times> ingest_world) list \<Rightarrow> ingestor \<Rightarrow> (ingestor \<times> block_data list \<times> duration list) option" where
  "ingestor_run cfg [] ig = Some (ig, [], [])"
| "ingestor_run cfg ((s, w) # cycles) ig =
     Option.bind (ingest_blocks cfg w ig s) (\<lambda>(s', ig', sent, res).
     Option.bind (ingestor_run cfg cycles ig') (\<lambda>(ig'', sent', delays).
       Some (ig'', sent @ sent', next_poll_delay cfg (\<not> is_ok res) # delays)))"

section \<open>Consecutive blocks\<close>

definition block_number :: "block_data \<Rightarrow> u64" where
  "block_number bd = blk_number (bd_block bd)"

fun consecutive :: "u64 list \<Rightarrow> bool" where
  "consecutive (x # y # ys) = (y = x + 1 \<and> consecutive (y # ys))"
| "consecutive _ = True"

lemma consecutive_append:
  "consecutive (xs @ ys) \<longleftrightarrow> consecutive xs \<and> consecutive ys \<and> (xs \<noteq> [] \<longrightarrow> ys \<noteq> [] \<longrightarrow> hd ys = last xs + 1)"
  by (induction xs rule: consecutive.induct; cases ys; auto)

lemma consecutive_range: "consecutive (u64_range a b)"
proof (induction "unat b - unat a" arbitrary: a)
  case 0
  then have "b < a \<or> b = a" by (auto simp: word_less_nat_alt word_unat_eq_iff)
  then show ?case by (auto simp: u64_range_empty)
next
  case (Suc k)
  then have lt: "a < b" by (simp add: word_less_nat_alt)
  then have "k = unat b - unat (a + 1)" using Suc(2) by (simp add: unat_Suc_no_overflow [OF lt])
  note IH = Suc(1) [OF this]
  have "u64_range a b = a # u64_range (a + 1) b" using lt by (intro u64_range_Cons) auto
  moreover have "a + 1 \<le> b" using lt by (simp add: word_le_nat_alt word_less_nat_alt unat_Suc_no_overflow [OF lt])
  then have "\<exists>zs. u64_range (a + 1) b = (a + 1) # zs" by (cases "a + 1 = b") (auto simp: u64_range_Cons)
  ultimately show ?case using IH by auto
qed

lemma consecutive_take: "consecutive xs \<Longrightarrow> consecutive (take k xs)"
  by (metis append_take_drop_id consecutive_append)

lemma last_u64_range: "a \<le> b \<Longrightarrow> u64_range a b \<noteq> [] \<and> hd (u64_range a b) = a \<and> last (u64_range a b) = b"
proof (cases "a = b")
  case False
  assume "a \<le> b"
  moreover from this have "last (u64_range a b) = b" by (simp add: u64_range_def word_le_nat_alt)
  ultimately show ?thesis using False by (simp add: u64_range_Cons)
qed simp

section \<open>One cycle\<close>

lemma send_blocks_prefix:
  "send_blocks w bds ig = (ig', sent, out) \<Longrightarrow>
     (\<exists>k. sent = take k bds) \<and> ig_next_block ig' = (if sent = [] then ig_next_block ig else block_number (last sent) + 1) \<and>
     (out = AllSent \<longrightarrow> sent = bds)"
proof (induction w bds ig arbitrary: ig' sent out rule: send_blocks.induct)
  case (2 w bd bds ig)
  let ?n = "blk_number (bd_block bd)"
  let ?ig = "ig\<lparr>ig_next_block := ?n + 1, ig_latest_processed_block := ?n, ig_latest_timestamp := blk_timestamp (bd_block bd)\<rparr>"
  show ?case
  proof (cases "iw_cancel_send w ?n \<or> iw_closed w ?n")
    case True
    then show ?thesis using "2.prems" by (auto simp: Let_def split: if_splits intro: exI [of _ 0])
  next
    case False
    then obtain sent' where s: "send_blocks w bds ?ig = (ig', sent', out)" "sent = bd # sent'"
      using "2.prems" by (auto simp: Let_def split: prod.splits)
    have ih: "(\<exists>k. sent' = take k bds) \<and>
        ig_next_block ig' = (if sent' = [] then ig_next_block ?ig else block_number (last sent') + 1) \<and> (out = AllSent \<longrightarrow> sent' = bds)"
      by (rule "2.IH" [OF refl _ _ s(1)]) (use False in auto)
    then obtain k where "sent' = take k bds" by blast
    with ih have "sent' = take k bds" "ig_next_block ig' = (if sent' = [] then ?n + 1 else block_number (last sent') + 1)"
      "out = AllSent \<longrightarrow> sent' = bds" by simp_all
    then show ?thesis using s(2) by (auto simp: block_number_def intro: exI [of _ "Suc k"])
  qed
qed simp

text \<open>The loop neither wraps around at the end of the block numbers nor overflows in a chunk.\<close>

definition no_overflow :: "app_config \<Rightarrow> u64 \<Rightarrow> bool" where
  "no_overflow cfg safe \<longleftrightarrow>
     unat safe + unat (ac_block_chunk_size cfg) + 1 < 2 ^ 64 \<and> unat safe + unat (ac_log_chunk_size cfg) < 2 ^ 64"

definition numbered :: "app_config \<Rightarrow> ingest_world \<Rightarrow> bool" where
  "numbered cfg w \<longleftrightarrow> (\<forall>a b bds. fetch_chunk cfg w a b = Some (Inr bds) \<longrightarrow> map block_number bds = u64_range a b)"

lemma evm_numbered: "honest_provider p chain \<Longrightarrow> iw_source w = evm_rpc_source p r \<Longrightarrow> numbered cfg w"
  unfolding numbered_def fetch_chunk_def block_number_def [abs_def] using fetched_block_numbers by (fastforce simp: comp_def)

lemma chunk_bounds:
  assumes "no_overflow cfg safe" "from \<le> safe"
  defines "to \<equiv> min (from + ac_block_chunk_size cfg) safe"
  shows "from \<le> to" "to \<le> safe" "unat (to + 1) = Suc (unat to)" "unat safe + 1 - unat (to + 1) < unat safe + 1 - unat from"
proof -
  have lim: "unat safe + unat (ac_block_chunk_size cfg) + 1 < 2 ^ 64" using assms(1) by (simp add: no_overflow_def)
  have f: "unat from \<le> unat safe" using assms(2) by (simp add: word_le_nat_alt)
  have "unat (from + ac_block_chunk_size cfg) = unat from + unat (ac_block_chunk_size cfg)"
    by (rule unat_plus_no_overflow) (use lim f in simp)
  then show from_to: "from \<le> to" and to: "to \<le> safe" using assms(2) by (auto simp: to_def min_def word_le_nat_alt)
  have t: "unat from \<le> unat to" "unat to \<le> unat safe" using from_to to by (simp_all add: word_le_nat_alt)
  then have "unat to + unat (1 :: u64) < 2 ^ 64" using lim by simp
  then show suc: "unat (to + 1) = Suc (unat to)" by (simp add: unat_plus_no_overflow)
  show "unat safe + 1 - unat (to + 1) < unat safe + 1 - unat from" unfolding suc using t by linarith
qed

lemma u64_range_chunk:
  assumes "no_overflow cfg safe" "from \<le> safe"
  defines "to \<equiv> min (from + ac_block_chunk_size cfg) safe"
  shows "u64_range from safe = u64_range from to @ (if to + 1 \<le> safe then u64_range (to + 1) safe else [])"
proof -
  note c = chunk_bounds [OF assms(1,2), folded to_def]
  show ?thesis
  proof (cases "to = safe")
    case True
    then have "\<not> to + 1 \<le> safe" using c(3) by (simp add: word_le_nat_alt)
    then show ?thesis using True by simp
  next
    case False
    then have lt: "to < safe" using c(2) by simp
    then have "to + 1 \<le> safe" using c(3) by (simp add: word_le_nat_alt word_less_nat_alt)
    then show ?thesis using u64_range_append [OF c(1) lt] by simp
  qed
qed

lemma ingest_loop_prefix:
  assumes "numbered cfg w" "no_overflow cfg safe" "ingest_loop cfg w safe from ig = Some (ig', sent, res)" "from \<le> safe"
  shows "(\<exists>k. map block_number sent = take k (u64_range from safe)) \<and>
    ig_next_block ig' = (if sent = [] then ig_next_block ig else block_number (last sent) + 1)"
  using assms(3,4)
proof (induction "unat safe + 1 - unat from" arbitrary: "from" ig ig' sent res rule: less_induct)
  case less
  let ?to = "min (from + ac_block_chunk_size cfg) safe"
  note c = chunk_bounds [OF assms(2) less.prems(2)] and split = u64_range_chunk [OF assms(2) less.prems(2)]
  have nil: "\<exists>k. [] = take k xs" for xs :: "u64 list" by (rule exI [of _ 0]) simp
  show ?case
  proof (cases "\<exists>bds. \<not> iw_cancel_chunk w from \<and> fetch_chunk cfg w from ?to = Some (Inr bds)")
    case False
    then have "sent = []" "ig' = ig" using less.prems
      by (auto simp: ingest_loop.simps [of cfg w safe "from"] split: if_splits bind_splits sum.splits)
    then show ?thesis using nil by simp
  next
    case True
    then obtain bds where f: "\<not> iw_cancel_chunk w from" "fetch_chunk cfg w from ?to = Some (Inr bds)" by blast
    then have nums: "map block_number bds = u64_range from ?to" using assms(1) unfolding numbered_def by blast
    obtain ig1 s1 out where s: "send_blocks w bds ig = (ig1, s1, out)" using prod_cases3 by blast
    note sp = send_blocks_prefix [OF s]
    have loop: "ingest_loop cfg w safe from ig = (case out of
        SendCancelled \<Rightarrow> Some (ig1, s1, Inr ()) | SendClosed \<Rightarrow> Some (ig1, s1, Inl ChannelClosed)
      | AllSent \<Rightarrow> Option.bind (ingest_loop cfg w safe (?to + 1) ig1) (\<lambda>(ig'', sent', res). Some (ig'', s1 @ sent', res)))"
      using less.prems(2) f s by (simp add: ingest_loop.simps [of cfg w safe "from"])
    have pre: "\<exists>k. map block_number s1 = take k (u64_range from safe)"
    proof -
      obtain k where "s1 = take k bds" using sp by blast
      then have "map block_number s1 = take k (u64_range from ?to)" using nums by (simp flip: take_map)
      also have "\<dots> = take (min k (length (u64_range from ?to))) (u64_range from safe)"
        unfolding split by (cases "k \<le> length (u64_range from ?to)") simp_all
      finally show ?thesis by blast
    qed
    show ?thesis
    proof (cases "out = AllSent \<and> ?to + 1 \<le> safe")
      case False
      then have "sent = s1 \<and> ig' = ig1"
        using less.prems(1) unfolding loop by (auto simp: ingest_loop.simps [of cfg w safe "?to + 1"] split: send_outcome.splits)
      then show ?thesis using sp pre by simp
    next
      case True
      then obtain s2 where r: "ingest_loop cfg w safe (?to + 1) ig1 = Some (ig', s2, res)" "sent = s1 @ s2"
        using less.prems(1) unfolding loop by (auto split: bind_splits)
      from less.hyps [OF c(4) r(1)] True obtain k where k: "map block_number s2 = take k (u64_range (?to + 1) safe)"
        "ig_next_block ig' = (if s2 = [] then ig_next_block ig1 else block_number (last s2) + 1)" by blast
      have "map block_number sent = take (length (u64_range from ?to) + k) (u64_range from safe)"
        using sp True k(1) nums unfolding split r(2) by simp
      moreover have "s1 \<noteq> []" using sp True nums last_u64_range [OF c(1)] by auto
      then have "ig_next_block ig' = (if sent = [] then ig_next_block ig else block_number (last sent) + 1)"
        using k(2) sp r(2) by simp
      ultimately show ?thesis by blast
    qed
  qed
qed

lemma send_blocks_all:
  assumes "\<And>n. \<not> iw_cancel_send w n" "\<And>n. \<not> iw_closed w n"
  shows "\<exists>ig'. send_blocks w bds ig = (ig', bds, AllSent)"
proof (induction bds arbitrary: ig)
  case (Cons bd bds)
  let ?n = "blk_number (bd_block bd)"
  obtain ig' where "send_blocks w bds
      (ig\<lparr>ig_next_block := ?n + 1, ig_latest_processed_block := ?n, ig_latest_timestamp := blk_timestamp (bd_block bd)\<rparr>) = (ig', bds, AllSent)"
    using Cons.IH by blast
  then show ?case using assms by (simp add: Let_def)
qed simp

lemma ingest_loop_drains:
  assumes "numbered cfg w" "no_overflow cfg safe" "from \<le> safe"
    and "\<And>a b. a \<le> b \<Longrightarrow> b \<le> safe \<Longrightarrow> \<exists>bds. fetch_chunk cfg w a b = Some (Inr bds)"
    and calm: "\<And>n. \<not> iw_cancel_chunk w n" "\<And>n. \<not> iw_cancel_send w n" "\<And>n. \<not> iw_closed w n"
  shows "\<exists>ig' sent. ingest_loop cfg w safe from ig = Some (ig', sent, Inr ()) \<and> map block_number sent = u64_range from safe"
  using assms(3)
proof (induction "unat safe + 1 - unat from" arbitrary: "from" ig rule: less_induct)
  case less
  let ?to = "min (from + ac_block_chunk_size cfg) safe"
  note c = chunk_bounds [OF assms(2) less.prems] and split = u64_range_chunk [OF assms(2) less.prems]
  obtain bds where f: "fetch_chunk cfg w from ?to = Some (Inr bds)" using assms(4) c(1,2) by blast
  then have nums: "map block_number bds = u64_range from ?to" using assms(1) unfolding numbered_def by blast
  have "\<exists>ig'. send_blocks w bds ig = (ig', bds, AllSent)" by (rule send_blocks_all) (simp_all add: calm)
  then obtain ig1 where s: "send_blocks w bds ig = (ig1, bds, AllSent)" by blast
  have loop: "ingest_loop cfg w safe from ig =
      Option.bind (ingest_loop cfg w safe (?to + 1) ig1) (\<lambda>(ig'', sent', res). Some (ig'', bds @ sent', res))"
    using less.prems f s calm by (simp add: ingest_loop.simps [of cfg w safe "from"])
  show ?case
  proof (cases "?to + 1 \<le> safe")
    case True
    obtain ig' sent where "ingest_loop cfg w safe (?to + 1) ig1 = Some (ig', sent, Inr ())"
      "map block_number sent = u64_range (?to + 1) safe" using less.hyps [OF c(4) True] by blast
    then show ?thesis using True nums split by (simp add: loop)
  next
    case False
    then have "ingest_loop cfg w safe (?to + 1) ig1 = Some (ig1, [], Inr ())" by (simp add: ingest_loop.simps)
    then show ?thesis using False nums split by (simp add: loop)
  qed
qed

lemma ingest_from_drains:
  assumes "honest_provider p chain" "iw_source w = evm_rpc_source p r" "available p safe"
    and calm: "\<And>n. \<not> iw_cancel_chunk w n" "\<And>n. \<not> iw_cancel_send w n" "\<And>n. \<not> iw_closed w n"
    and safe: "safe = current - ac_confirmation_blocks cfg" "ac_confirmation_blocks cfg \<le> current" "no_overflow cfg safe"
    and cal: "observe (iw_now w) current (ig_calibrator ig) \<noteq> None" and ahead: "cycle_start lp current ig \<le> safe"
  shows "\<exists>ig' sent. ingest_from cfg w lp current ig = Some (ig', sent, Inr ()) \<and>
    map block_number sent = u64_range (cycle_start lp current ig) safe \<and> ig_next_block ig' = safe + 1"
proof -
  obtain c where c: "observe (iw_now w) current (ig_calibrator ig) = Some c" using cal by blast
  let ?ig = "ig\<lparr>ig_calibrator := c\<rparr>"
  have start: "cycle_start lp current ?ig = cycle_start lp current ig" by (simp add: cycle_start_def)
  have num: "numbered cfg w" by (rule evm_numbered [OF assms(1,2)])
  have fetch: "\<exists>bds. fetch_chunk cfg w a b = Some (Inr bds)" if "b \<le> safe" for a b
    unfolding fetch_chunk_def assms(2) by (rule available_fetches [OF assms(3) that]) (use safe(3) in \<open>simp add: no_overflow_def\<close>)
  obtain ig' sent where loop: "ingest_loop cfg w safe (cycle_start lp current ig) ?ig = Some (ig', sent, Inr ())"
    "map block_number sent = u64_range (cycle_start lp current ig) safe"
    using ingest_loop_drains [OF num safe(3) ahead fetch calm] by blast
  have ne: "sent \<noteq> []" using loop(2) last_u64_range [OF ahead] by auto
  moreover have "block_number (last sent) = safe"
    using loop(2) last_u64_range [OF ahead] last_map [OF ne, of block_number] by simp
  moreover have "ig_next_block ig' = (if sent = [] then ig_next_block ?ig else block_number (last sent) + 1)"
    using ingest_loop_prefix [OF num safe(3) loop(1) ahead] by blast
  moreover have "saturating_sub current (ac_confirmation_blocks cfg) = safe" using safe(1,2) by (simp add: saturating_sub_def)
  moreover have "\<not> current < ac_confirmation_blocks cfg" "\<not> safe < cycle_start lp current ig" using safe(2) ahead by simp_all
  ultimately show ?thesis using loop by (simp add: ingest_from_def c start Let_def)
qed

section \<open>Main theorems\<close>

text \<open>C16. A quiet cycle reaches the head: when the node answers, nothing is cancelled and the channel is open, a cycle sends
  every block from where it starts up to the newest confirmed one, in order, and returns without an error; the chain may
  be as long as the 64-bit arithmetic allows.\<close>

theorem cycle_reaches_head:
  assumes "honest_provider p chain" "iw_source w = evm_rpc_source p r" "available p safe"
    and "\<And>n. \<not> iw_cancel_chunk w n" "\<And>n. \<not> iw_cancel_send w n" "\<And>n. \<not> iw_closed w n"
    and "safe = current - ac_confirmation_blocks cfg" "ac_confirmation_blocks cfg \<le> current" "no_overflow cfg safe"
    and "observe (iw_now w) current (ig_calibrator ig) \<noteq> None" and "cycle_start lp current ig \<le> safe"
  shows "\<exists>ig' sent. ingest_from cfg w lp current ig = Some (ig', sent, Inr ()) \<and>
    map block_number sent = u64_range (cycle_start lp current ig) safe \<and> ig_next_block ig' = safe + 1"
  using assms by (rule ingest_from_drains)

text \<open>What the cycles of a run may rely on: the persisted block exists and never runs ahead of the blocks sent.\<close>

fun follows :: "app_config \<Rightarrow> (db \<times> ingest_world) list \<Rightarrow> ingestor \<Rightarrow> bool" where
  "follows cfg [] ig \<longleftrightarrow> True"
| "follows cfg ((s, w) # cycles) ig \<longleftrightarrow>
     (ig_next_block ig \<noteq> 0 \<longrightarrow>
        (case snd (get_last_processed_block (ac_network_id cfg) s) of
           Inr (Some n) \<Rightarrow> n < ig_next_block ig | Inr None \<Rightarrow> False | Inl _ \<Rightarrow> True)) \<and>
     (case ingest_blocks cfg w ig s of Some (s', ig', sent, res) \<Rightarrow> follows cfg cycles ig' | None \<Rightarrow> True)"

definition cycle_honest :: "app_config \<Rightarrow> db \<times> ingest_world \<Rightarrow> bool" where
  "cycle_honest cfg c \<longleftrightarrow>
     numbered cfg (snd c) \<and>
     (case ds_get_current_block_number (iw_source (snd c)) of
        Inr current \<Rightarrow> no_overflow cfg (saturating_sub current (ac_confirmation_blocks cfg)) | Inl _ \<Rightarrow> True)"

lemma ingest_from_sends:
  assumes "numbered cfg w" "no_overflow cfg (saturating_sub current (ac_confirmation_blocks cfg))"
    and "ingest_from cfg w lp current ig = Some (ig', sent, res)"
  shows "(\<exists>k. map block_number sent = take k (u64_range (cycle_start lp current ig) (saturating_sub current (ac_confirmation_blocks cfg)))) \<and>
    ig_next_block ig' = (if sent = [] then ig_next_block ig else block_number (last sent) + 1)"
proof -
  let ?safe = "saturating_sub current (ac_confirmation_blocks cfg)"
  obtain c where c: "observe (iw_now w) current (ig_calibrator ig) = Some c"
    using assms(3) by (auto simp: ingest_from_def split: bind_splits)
  let ?ig = "ig\<lparr>ig_calibrator := c\<rparr>"
  have start: "cycle_start lp current ?ig = cycle_start lp current ig" by (simp add: cycle_start_def)
  show ?thesis
  proof (cases "current < ac_confirmation_blocks cfg \<or> cycle_start lp current ig > ?safe")
    case True
    then have "ig' = ?ig \<and> sent = []" using assms(3) by (auto simp: ingest_from_def c start Let_def split: if_splits)
    then show ?thesis by (auto intro: exI [of _ 0])
  next
    case False
    then have le: "cycle_start lp current ig \<le> ?safe" by (simp add: not_less)
    have "ingest_loop cfg w ?safe (cycle_start lp current ig) ?ig = Some (ig', sent, res)"
      using assms(3) False by (simp add: ingest_from_def c start Let_def)
    from ingest_loop_prefix [OF assms(1,2) this le] show ?thesis by simp
  qed
qed

lemma last_below:
  assumes "map block_number sent = take k (u64_range a safe)" "sent \<noteq> []" "no_overflow cfg safe"
  shows "block_number (last sent) + 1 \<noteq> 0"
proof -
  have "block_number (last sent) \<in> set (map block_number sent)" using assms(2) by simp
  then have "block_number (last sent) \<in> set (u64_range a safe)" unfolding assms(1) by (rule in_set_takeD)
  then have "unat (block_number (last sent)) \<le> unat safe" by (simp add: set_u64_range word_le_nat_alt)
  then have "unat (block_number (last sent)) + unat (1 :: u64) < 2 ^ 64" using assms(3) by (simp add: no_overflow_def)
  then have "unat (block_number (last sent) + 1) = unat (block_number (last sent)) + 1" by (simp add: unat_plus_no_overflow)
  then show ?thesis by auto
qed

lemma cycle_sends:
  assumes "cycle_honest cfg (s, w)" "follows cfg ((s, w) # cycles) ig" "ingest_blocks cfg w ig s = Some (s', ig', sent, res)"
  shows "consecutive (map block_number sent) \<and>
    ig_next_block ig' = (if sent = [] then ig_next_block ig else block_number (last sent) + 1) \<and>
    (sent \<noteq> [] \<longrightarrow> ig_next_block ig' \<noteq> 0) \<and>
    (sent \<noteq> [] \<longrightarrow> ig_next_block ig \<noteq> 0 \<longrightarrow> block_number (hd sent) = ig_next_block ig)"
proof (cases "\<exists>lp current. snd (get_last_processed_block (ac_network_id cfg) s) = Inr lp \<and> ds_get_current_block_number (iw_source w) = Inr current")
  case False
  then have "ig' = ig \<and> sent = []" using assms(3) by (auto simp: ingest_blocks_def split: prod.splits sum.splits)
  then show ?thesis by simp
next
  case True
  then obtain lp current where r: "snd (get_last_processed_block (ac_network_id cfg) s) = Inr lp"
    "ds_get_current_block_number (iw_source w) = Inr current" by blast
  let ?safe = "saturating_sub current (ac_confirmation_blocks cfg)"
  have h: "numbered cfg w" "no_overflow cfg ?safe" using assms(1) r(2) by (simp_all add: cycle_honest_def)
  have i: "ingest_from cfg w lp current ig = Some (ig', sent, res)"
    using assms(3) r by (auto simp: ingest_blocks_def split: prod.splits sum.splits)
  obtain k where k: "map block_number sent = take k (u64_range (cycle_start lp current ig) ?safe)"
    and next_block: "ig_next_block ig' = (if sent = [] then ig_next_block ig else block_number (last sent) + 1)"
    using ingest_from_sends [OF h i] by blast
  have "consecutive (map block_number sent)" unfolding k by (intro consecutive_take consecutive_range)
  moreover have "sent \<noteq> [] \<Longrightarrow> ig_next_block ig' \<noteq> 0" using last_below [OF k _ h(2)] next_block by simp
  moreover have "block_number (hd sent) = ig_next_block ig" if ne: "sent \<noteq> []" and nz: "ig_next_block ig \<noteq> 0"
  proof -
    obtain n where n: "lp = Some n" "n < ig_next_block ig" using assms(2) r(1) nz by (auto split: option.splits)
    then have "n + 1 \<le> ig_next_block ig" by (simp add: inc_le)
    then have start: "cycle_start lp current ig = ig_next_block ig" using n(1) by (simp add: cycle_start_def)
    have "take k (u64_range (ig_next_block ig) ?safe) \<noteq> []" using k ne start by (metis map_is_Nil_conv)
    then have "u64_range (ig_next_block ig) ?safe \<noteq> []" "k \<noteq> 0" by auto
    then have "hd (map block_number sent) = ig_next_block ig"
      unfolding k start using last_u64_range [of "ig_next_block ig" ?safe] u64_range_empty by (metis hd_take leI neq0_conv)
    then show ?thesis using ne by (simp add: hd_map)
  qed
  ultimately show ?thesis using next_block by blast
qed

text \<open>C12. Ingestion leaves no gap and repeats nothing: over any number of cycles, with failing requests, cancellations and a
  closed channel in between, the blocks sent downstream are numbered consecutively, as long as a last processed block is persisted
  and never runs ahead of what was sent.\<close>

theorem ingest_no_gaps:
  assumes "list_all (cycle_honest cfg) cycles" "follows cfg cycles ig" "ingestor_run cfg cycles ig = Some (ig', sent, delays)"
  shows "consecutive (map block_number sent) \<and> length delays = length cycles \<and>
    (ig_next_block ig \<noteq> 0 \<longrightarrow> sent \<noteq> [] \<longrightarrow> block_number (hd sent) = ig_next_block ig)"
  using assms
proof (induction cycles arbitrary: ig sent delays)
  case (Cons c cycles)
  obtain s w where c: "c = (s, w)" by (cases c)
  obtain s' ig1 s1 res where i: "ingest_blocks cfg w ig s = Some (s', ig1, s1, res)"
    using Cons.prems(3) unfolding c by (auto split: bind_splits)
  obtain s2 d2 where r: "ingestor_run cfg cycles ig1 = Some (ig', s2, d2)" "sent = s1 @ s2"
      "delays = next_poll_delay cfg (\<not> is_ok res) # d2"
    using Cons.prems(3) i unfolding c by (auto split: bind_splits)
  have f: "follows cfg cycles ig1" using Cons.prems(2) i unfolding c by simp
  have cs: "consecutive (map block_number s1) \<and>
    ig_next_block ig1 = (if s1 = [] then ig_next_block ig else block_number (last s1) + 1) \<and>
    (s1 \<noteq> [] \<longrightarrow> ig_next_block ig1 \<noteq> 0) \<and>
    (s1 \<noteq> [] \<longrightarrow> ig_next_block ig \<noteq> 0 \<longrightarrow> block_number (hd s1) = ig_next_block ig)"
    by (rule cycle_sends [OF _ Cons.prems(2) [unfolded c] i]) (use Cons.prems(1) c in simp)
  have "consecutive (map block_number s2) \<and> length d2 = length cycles \<and>
    (ig_next_block ig1 \<noteq> 0 \<longrightarrow> s2 \<noteq> [] \<longrightarrow> block_number (hd s2) = ig_next_block ig1)"
    by (rule Cons.IH [OF _ f r(1)]) (use Cons.prems(1) in simp)
  then show ?case using cs r(2,3)
    by (cases "s1 = []"; cases "s2 = []") (auto simp: consecutive_append hd_map last_map hd_append)
qed simp

section \<open>Witnesses\<close>

definition sample_world :: "rpc_provider \<Rightarrow> ingest_world" where
  "sample_world p = \<lparr>iw_source = evm_rpc_source p sample_registry, iw_order = rev, iw_needs_receipts = True, iw_now = 0,
     iw_cancel_chunk = (\<lambda>_. False), iw_cancel_send = (\<lambda>_. False), iw_closed = (\<lambda>_. False)\<rparr>"

lemma sample_provider_available: "available sample_provider safe"
  by (simp add: available_def sample_provider_def)

lemma sample_quiet_cycle:
  "\<exists>ig' sent. ingest_from sample_app_config (sample_world sample_provider) (Some 3) 10 (ingestor_new sample_app_config) = Some (ig', sent, Inr ()) \<and>
     map block_number sent = u64_range 4 6 \<and> ig_next_block ig' = 7"
  using ingest_from_drains [OF sample_provider_honest _ sample_provider_available, of "sample_world sample_provider" sample_registry 6 10
      sample_app_config "ingestor_new sample_app_config" "Some 3"]
  by (simp add: sample_world_def sample_app_config_def no_overflow_def observe_def ingestor_new_def calibrator_new_def cycle_start_def)

theorem cycle_reaches_head_witness:
  "\<exists>ig' sent. ingest_from sample_app_config (sample_world sample_provider) (Some 3) 10 (ingestor_new sample_app_config) = Some (ig', sent, Inr ()) \<and>
     map block_number sent = u64_range 4 6 \<and> ig_next_block ig' = 7"
  using cycle_reaches_head [OF sample_provider_honest _ sample_provider_available, of "sample_world sample_provider" sample_registry 6 10
      sample_app_config "ingestor_new sample_app_config" "Some 3"]
  by (simp add: sample_world_def sample_app_config_def no_overflow_def observe_def ingestor_new_def calibrator_new_def cycle_start_def)

definition sample_db_at :: "nat \<Rightarrow> db" where
  "sample_db_at n = empty_db\<lparr>db_processed := [(''mainnet'', int n)]\<rparr>"

lemma sample_last_processed:
  "get_last_processed_block ''mainnet'' (sample_db_at n) = (sample_db_at n\<lparr>db_queries := 1\<rparr>, Inr (Some (of_nat n)))"
  by (simp add: sample_db_at_def get_last_processed_block_def select_def exec_def bindS_def empty_db_def Let_def)

lemma sample_current: "ds_get_current_block_number (iw_source (sample_world p)) = map_err Provider (rp_block_number p)"
  by (simp add: sample_world_def evm_rpc_source_def)

lemma sample_network: "ac_network_id sample_app_config = ''mainnet''"
  by (simp add: sample_app_config_def)

lemma sample_first_cycle:
  "\<exists>ig' sent. ingest_blocks sample_app_config (sample_world sample_provider) (ingestor_new sample_app_config) (sample_db_at 3) =
     Some (sample_db_at 3\<lparr>db_queries := 1\<rparr>, ig', sent, Inr ()) \<and> map block_number sent = u64_range 4 6 \<and> ig_next_block ig' = 7"
  using sample_quiet_cycle sample_last_processed [of 3]
  by (auto simp: ingest_blocks_def sample_network sample_current sample_provider_def)

lemma sample_honest: "cycle_honest sample_app_config (s, sample_world (sample_provider\<lparr>rp_block_number := r\<rparr>))"
  if "r = Inr 10 \<or> r = Inl e"
proof -
  have "honest_provider (sample_provider\<lparr>rp_block_number := r\<rparr>) sample_chain"
    using sample_provider_honest by (simp add: honest_provider_def)
  then have "numbered sample_app_config (sample_world (sample_provider\<lparr>rp_block_number := r\<rparr>))"
    by (rule evm_numbered) (simp add: sample_world_def)
  then show ?thesis using that
    by (auto simp: cycle_honest_def sample_current no_overflow_def saturating_sub_def sample_app_config_def)
qed

lemma sample_provider_up: "sample_provider\<lparr>rp_block_number := Inr 10\<rparr> = sample_provider"
  by (simp add: sample_provider_def)

text \<open>A cycle that drains blocks 4 to 6, then one in which the node does not answer.\<close>

definition sample_cycles :: "(db \<times> ingest_world) list" where
  "sample_cycles =
     [(sample_db_at 3, sample_world sample_provider), (sample_db_at 6, sample_world (sample_provider\<lparr>rp_block_number := Inl ''down''\<rparr>))]"

theorem ingest_no_gaps_witness:
  "\<exists>ig' sent delays. ingestor_run sample_app_config sample_cycles (ingestor_new sample_app_config) = Some (ig', sent, delays) \<and>
     length sent = 3 \<and> consecutive (map block_number sent) \<and> length delays = 2"
proof -
  let ?cfg = sample_app_config and ?ig = "ingestor_new sample_app_config"
  obtain ig1 s1 where c1: "ingest_blocks ?cfg (sample_world sample_provider) ?ig (sample_db_at 3) =
      Some (sample_db_at 3\<lparr>db_queries := 1\<rparr>, ig1, s1, Inr ())" and n: "map block_number s1 = u64_range 4 6" "ig_next_block ig1 = 7"
    using sample_first_cycle by blast
  have c2: "ingest_blocks ?cfg (sample_world (sample_provider\<lparr>rp_block_number := Inl ''down''\<rparr>)) ig1 (sample_db_at 6) =
      Some (sample_db_at 6\<lparr>db_queries := 1\<rparr>, ig1, [], Inl (Provider ''down''))"
    using sample_last_processed [of 6] by (simp add: ingest_blocks_def sample_network sample_current)
  have run: "ingestor_run ?cfg sample_cycles ?ig = Some (ig1, s1, [2000, 10000])"
    using c1 c2 by (simp add: sample_cycles_def next_poll_delay_def live_poll_interval_def min_live_poll_interval_def sample_app_config_def)
  have h: "list_all (cycle_honest ?cfg) sample_cycles"
    using sample_honest [of "Inr 10"] sample_honest [of "Inl ''down''"] by (simp add: sample_cycles_def sample_provider_up)
  have f: "follows ?cfg sample_cycles ?ig"
    using c1 c2 n(2) sample_last_processed [of 6] by (simp add: sample_cycles_def sample_network ingestor_new_def)
  have "length s1 = length (u64_range 4 6)" unfolding n(1) [symmetric] by simp
  then have "length s1 = 3" by (simp add: u64_range_def)
  then show ?thesis using ingest_no_gaps [OF h f run] run by (simp add: sample_cycles_def)
qed

end
