(* ===== verification/Argus_Processor.thy ===== *)
theory Argus_Processor
  imports Argus_Filtering Argus_Ingest
begin

text \<open>
  The block processor, \<open>crates/argus-engine/src/block_processor.rs\<close>: raw blocks are buffered into
  batches, correlated (every transaction with its logs and its receipt) and sent to the filtering engine, after which
  the last processed block is persisted; and its composition with the ingestor.

  What the outside does during a batch is the snapshot of the monitor manager that is current when the batch runs, and
  whether the blocking task panics. The channel to the filtering engine is the number of sends it still accepts before its receiver
  goes away, \<open>None\<close> for a receiver that stays.
\<close>

section \<open>Correlating a block\<close>

text \<open>The two loops over the transactions, which remove from the log and receipt maps as they go.\<close>

fun correlate_all ::
  "evm_tx list \<Rightarrow> (b256 \<times> evm_log list) list \<Rightarrow> (b256 \<times> receipt) list \<Rightarrow> correlated_item list" where
  "correlate_all [] lm rm = []"
| "correlate_all (tx # txs) lm rm =
     (case take_list (tx_hash tx) lm of (lm', logs) \<Rightarrow>
        correlated_item_new tx logs (map_of rm (tx_hash tx)) # correlate_all txs lm' (AList.delete (tx_hash tx) rm))"

fun correlate_matchable ::
  "interest_registry \<Rightarrow> evm_tx list \<Rightarrow> (b256 \<times> evm_log list) list \<Rightarrow> (b256 \<times> receipt) list \<Rightarrow> correlated_item list" where
  "correlate_matchable r [] lm rm = []"
| "correlate_matchable r (tx # txs) lm rm =
     (case take_list (tx_hash tx) lm of (lm', logs) \<Rightarrow>
        if logs \<noteq> [] \<or> (case tx_to tx of Some a \<Rightarrow> a \<in> set (ir_calldata_addresses r) | None \<Rightarrow> False)
        then correlated_item_new tx logs (map_of rm (tx_hash tx)) # correlate_matchable r txs lm' (AList.delete (tx_hash tx) rm)
        else correlate_matchable r txs lm' rm)"

definition process_block :: "'ast monitor_asset_state \<Rightarrow> block_data \<Rightarrow> correlated_block" where
  "process_block st bd =
     \<lparr>cb_block_number = blk_number (bd_block bd),
      cb_items =
        (case blk_transactions (bd_block bd) of
           FullTxs txs \<Rightarrow>
             if as_has_transaction_only_monitors st then correlate_all txs (bd_logs bd) (bd_receipts bd)
             else correlate_matchable (as_interest_registry st) txs (bd_logs bd) (bd_receipts bd)
         | TxHashes _ \<Rightarrow> [])\<rparr>"

section \<open>Batches\<close>

record 'ast batch_world =
  bw_snapshot :: "'ast monitor_asset_state"
  bw_panic :: "string option"

definition process_blocks_batch :: "'ast batch_world \<Rightarrow> block_data list \<Rightarrow> string + correlated_block list" where
  "process_blocks_batch w blocks =
     (if blocks = [] then Inr []
      else
        (case bw_panic w of
           Some e \<Rightarrow> Inl e
         | None \<Rightarrow> Inr (map (process_block (bw_snapshot w)) blocks)))"

record processor =
  pr_buffer :: "block_data list"
  pr_db :: db
  pr_channel :: "nat option"
  pr_sent :: "correlated_block list"

text \<open>The sending loop: the channel afterwards, what was sent, and the last number sent, or \<open>None\<close> when the
  channel is closed and the function returns early.\<close>

fun send_correlated ::
  "correlated_block list \<Rightarrow> u64 option \<Rightarrow> nat option \<Rightarrow> nat option \<times> correlated_block list \<times> u64 option option" where
  "send_correlated [] last_processed ch = (ch, [], Some last_processed)"
| "send_correlated (cb # cbs) last_processed ch =
     (if ch = Some 0 then (ch, [], None)
      else
        (case send_correlated cbs (Some (cb_block_number cb)) (map_option (\<lambda>k. k - 1) ch) of
           (ch', sent, out) \<Rightarrow> (ch', cb # sent, out)))"

definition process_and_dispatch :: "app_config \<Rightarrow> 'ast batch_world \<Rightarrow> block_data list \<Rightarrow> processor \<Rightarrow> processor" where
  "process_and_dispatch cfg w blocks pr =
     (case process_blocks_batch w blocks of
        Inl e \<Rightarrow> pr
      | Inr cbs \<Rightarrow>
          (case send_correlated cbs None (pr_channel pr) of
             (ch, sent, out) \<Rightarrow>
               (let pr' = pr\<lparr>pr_channel := ch, pr_sent := pr_sent pr @ sent\<rparr>
                in case out of
                     Some (Some n) \<Rightarrow> pr'\<lparr>pr_db := fst (set_last_processed_block (ac_network_id cfg) n (pr_db pr'))\<rparr>
                   | _ \<Rightarrow> pr')))"

text \<open>The service loop: one received block, and the flush after cancellation. While the raw channel is closed the loop only waits
  for cancellation.\<close>

definition processor_receive :: "app_config \<Rightarrow> 'ast batch_world \<Rightarrow> block_data \<Rightarrow> processor \<Rightarrow> processor" where
  "processor_receive cfg w bd pr =
     (let buffer = pr_buffer pr @ [bd]
      in if length buffer \<ge> unat (ac_block_chunk_size cfg)
         then process_and_dispatch cfg w buffer (pr\<lparr>pr_buffer := []\<rparr>)
         else pr\<lparr>pr_buffer := buffer\<rparr>)"

definition processor_shutdown :: "app_config \<Rightarrow> 'ast batch_world \<Rightarrow> processor \<Rightarrow> processor" where
  "processor_shutdown cfg w pr =
     (if pr_buffer pr \<noteq> [] then process_and_dispatch cfg w (pr_buffer pr) (pr\<lparr>pr_buffer := []\<rparr>) else pr)"

fun processor_run :: "app_config \<Rightarrow> (block_data \<times> 'ast batch_world) list \<Rightarrow> 'ast batch_world \<Rightarrow> processor \<Rightarrow> processor" where
  "processor_run cfg [] final pr = processor_shutdown cfg final pr"
| "processor_run cfg ((bd, w) # evs) final pr = processor_run cfg evs final (processor_receive cfg w bd pr)"

section \<open>What a correlated block contains\<close>

definition item_of :: "block_data \<Rightarrow> evm_tx \<Rightarrow> correlated_item" where
  "item_of bd tx = \<lparr>ci_transaction = tx,
     ci_logs = (case map_of (bd_logs bd) (tx_hash tx) of Some ls \<Rightarrow> ls | None \<Rightarrow> []),
     ci_receipt = map_of (bd_receipts bd) (tx_hash tx)\<rparr>"

text \<open>What the processor keeps: everything if some monitor reads the transaction alone, otherwise the items with a log of
  interest or a call to an address watched for calls.\<close>

definition keeps_item :: "'ast monitor_asset_state \<Rightarrow> correlated_item \<Rightarrow> bool" where
  "keeps_item st item \<longleftrightarrow>
     as_has_transaction_only_monitors st \<or> ci_logs item \<noteq> [] \<or>
     is_calldata_interesting (as_interest_registry st) (tx_to (ci_transaction item))"

lemma map_of_delete_other:
  "distinct (map f (x # xs)) \<Longrightarrow> y \<in> set xs \<Longrightarrow> map_of (AList.delete (f x) m) (f y) = map_of m (f y)"
  by (metis (no_types, lifting) delete_conv' distinct.simps(2) fun_upd_other image_eqI list.set_map list.simps(9))

lemma correlate_spec:
  assumes "distinct (map tx_hash txs)"
    and "\<And>tx. tx \<in> set txs \<Longrightarrow> map_of lm (tx_hash tx) = map_of (bd_logs bd) (tx_hash tx)"
    and "\<And>tx. tx \<in> set txs \<Longrightarrow> map_of rm (tx_hash tx) = map_of (bd_receipts bd) (tx_hash tx)"
  shows "correlate_all txs lm rm = map (item_of bd) txs"
    and "correlate_matchable r txs lm rm =
      filter (\<lambda>item. ci_logs item \<noteq> [] \<or> is_calldata_interesting r (tx_to (ci_transaction item))) (map (item_of bd) txs)"
  using assms
proof (induction txs arbitrary: lm rm)
  case (Cons tx txs)
  { case 1
    have "correlated_item_new tx (case map_of lm (tx_hash tx) of Some v \<Rightarrow> v | None \<Rightarrow> []) (map_of rm (tx_hash tx)) = item_of bd tx"
      using 1(2,3) [of tx] by (simp add: correlated_item_new_def item_of_def)
    moreover have "correlate_all txs (AList.delete (tx_hash tx) lm) (AList.delete (tx_hash tx) rm) = map (item_of bd) txs"
      by (rule Cons.IH(1)) (use 1(1) in \<open>simp_all add: map_of_delete_other [OF 1(1)] 1(2,3)\<close>)
    ultimately show ?case by (simp add: take_list_def)
  next
    case 2
    have "correlated_item_new tx (case map_of lm (tx_hash tx) of Some v \<Rightarrow> v | None \<Rightarrow> []) (map_of rm (tx_hash tx)) = item_of bd tx"
      using 2(2,3) [of tx] by (simp add: correlated_item_new_def item_of_def)
    moreover have "correlate_matchable r txs (AList.delete (tx_hash tx) lm) rm' =
        filter (\<lambda>item. ci_logs item \<noteq> [] \<or> is_calldata_interesting r (tx_to (ci_transaction item))) (map (item_of bd) txs)"
      if "rm' = rm \<or> rm' = AList.delete (tx_hash tx) rm" for rm'
      by (rule Cons.IH(2)) (use 2(1) that in \<open>auto simp: map_of_delete_other [OF 2(1)] 2(2,3)\<close>)
    moreover have "ci_logs (item_of bd tx) = (case map_of lm (tx_hash tx) of Some v \<Rightarrow> v | None \<Rightarrow> [])"
      "ci_transaction (item_of bd tx) = tx" using 2(2) [of tx] by (simp_all add: item_of_def)
    ultimately show ?case by (simp add: take_list_def is_calldata_interesting_def) }
qed simp_all

text \<open>C22. A correlated block holds, in block order, every transaction with its own logs and receipt when some monitor reads
  the transaction alone; otherwise exactly the transactions that carry a log of interest or call a watched address.\<close>

theorem process_block_contents:
  assumes "blk_transactions (bd_block bd) = FullTxs txs" "distinct (map tx_hash txs)"
  shows "process_block st bd =
    \<lparr>cb_block_number = block_number bd, cb_items = filter (keeps_item st) (map (item_of bd) txs)\<rparr>"
  using correlate_spec [OF assms(2) refl refl] assms(1)
  by (simp add: process_block_def block_number_def keeps_item_def [abs_def])

text \<open>A skipped transaction has no log, so a snapshot without monitors of the transaction pass has nothing to say about it.\<close>

lemma dropped_items_silent:
  "\<not> keeps_item st item \<Longrightarrow> as_tx_aware_monitors st = [] \<Longrightarrow> evaluate_item fe st item = Inr []"
  by (simp add: keeps_item_def evaluate_item_def snapshot_monitors_def map_filter_simps evaluate_tx_aware_monitors_def
      evaluation_context_new_def)

section \<open>A batch\<close>

definition persisted :: "network_id \<Rightarrow> db \<Rightarrow> i64 option" where
  "persisted net s = map_of (db_processed s) net"

lemma set_last_persisted:
  "persisted net (fst (set_last_processed_block net n s)) \<in> {persisted net s, Some (uint n)} \<and>
   (persisted net (fst (set_last_processed_block net n s)) = persisted net s \<or> uint n \<le> i64_max)"
  by (auto simp: persisted_def set_last_processed_block_def modify_def exec_def Let_def split: option.splits)

lemma get_last_persisted:
  "get_last_processed_block net s = (s', Inr lp) \<Longrightarrow> lp = map_option word_of_int (persisted net s)"
  "persisted net (fst (get_last_processed_block net s)) = persisted net s"
  by (auto simp: persisted_def get_last_processed_block_def select_def exec_def Let_def bindS_def
      split: option.splits if_splits sum.splits prod.splits)

lemma send_correlated_spec:
  "send_correlated cbs last_processed ch = (ch', sent, out) \<Longrightarrow>
     (if case ch of Some k \<Rightarrow> k < length cbs | None \<Rightarrow> False
      then ch' = Some 0 \<and> out = None \<and> (\<exists>m. sent = take m cbs)
      else sent = cbs \<and> out = Some (if cbs = [] then last_processed else Some (cb_block_number (last cbs))))"
proof (induction cbs arbitrary: last_processed ch ch' sent out)
  case (Cons cb cbs)
  show ?case
  proof (cases "ch = Some 0")
    case False
    then obtain sent' where s: "send_correlated cbs (Some (cb_block_number cb)) (map_option (\<lambda>k. k - 1) ch) = (ch', sent', out)"
      "sent = cb # sent'" using Cons.prems by (auto split: prod.splits)
    show ?thesis using Cons.IH [OF s(1)] s(2) False
      by (cases ch) (auto split: if_splits intro: exI [of _ "Suc _"])
  qed (use Cons.prems in \<open>auto intro: exI [of _ 0]\<close>)
qed (auto split: option.splits)

section \<open>The pipeline of ingestor and processor\<close>

text \<open>The two services with the channel between them. An ingestion cycle reads the database once, at its start, so it is one step; a step
  of the processor takes one block from the channel. Other services write other tables. A restart, after a crash or a
  shutdown, keeps only the database; \<open>pr_sent\<close> is the history of what reached the filtering engine.\<close>

record pipeline =
  pl_ingestor :: ingestor
  pl_queue :: "block_data list"
  pl_processor :: processor

inductive pipe_step :: "app_config \<Rightarrow> 'ast batch_world set \<Rightarrow> pipeline \<Rightarrow> pipeline \<Rightarrow> bool" for cfg ws where
  ingest: "\<lbrakk>cycle_honest cfg (pr_db (pl_processor p), w);
      ingest_blocks cfg w (pl_ingestor p) (pr_db (pl_processor p)) = Some (s, ig, sent, res)\<rbrakk> \<Longrightarrow>
    pipe_step cfg ws p (p\<lparr>pl_ingestor := ig, pl_queue := pl_queue p @ sent, pl_processor := (pl_processor p)\<lparr>pr_db := s\<rparr>\<rparr>)"
| receive: "\<lbrakk>pl_queue p = bd # q; w \<in> ws\<rbrakk> \<Longrightarrow>
    pipe_step cfg ws p (p\<lparr>pl_queue := q, pl_processor := processor_receive cfg w bd (pl_processor p)\<rparr>)"
| shutdown: "w \<in> ws \<Longrightarrow>
    pipe_step cfg ws p (p\<lparr>pl_queue := [], pl_ingestor := ingestor_new cfg,
      pl_processor := (processor_shutdown cfg w (pl_processor p))\<lparr>pr_channel := ch\<rparr>\<rparr>)"
| crash: "pipe_step cfg ws p (p\<lparr>pl_queue := [], pl_ingestor := ingestor_new cfg,
      pl_processor := (pl_processor p)\<lparr>pr_buffer := [], pr_channel := ch\<rparr>\<rparr>)"
| other: "persisted (ac_network_id cfg) s = persisted (ac_network_id cfg) (pr_db (pl_processor p)) \<Longrightarrow>
    pipe_step cfg ws p (p\<lparr>pl_processor := (pl_processor p)\<lparr>pr_db := s\<rparr>\<rparr>)"

definition numbered_from :: "nat \<Rightarrow> block_data list \<Rightarrow> bool" where
  "numbered_from a bds \<longleftrightarrow> map (unat \<circ> block_number) bds = [a..<a + length bds]"

lemma numbered_from_Nil [simp]: "numbered_from a []"
  by (simp add: numbered_from_def)

lemma numbered_from_append [simp]:
  "numbered_from a (xs @ ys) \<longleftrightarrow> numbered_from a xs \<and> numbered_from (a + length xs) ys"
proof -
  have "[a..<a + length (xs @ ys)] = [a..<a + length xs] @ [a + length xs..<a + length xs + length ys]"
    using upt_add_eq_append [of a "a + length xs" "length ys"] by (simp add: add.assoc)
  then show ?thesis by (simp add: numbered_from_def)
qed

lemma numbered_from_last:
  assumes "numbered_from a bds" "bds \<noteq> []"
  shows "Suc (unat (block_number (last bds))) = a + length bds"
proof -
  have "last (map (unat \<circ> block_number) bds) = a + length bds - 1" using assms unfolding numbered_from_def by (simp add: last_upt)
  moreover have "last (map (unat \<circ> block_number) bds) = unat (block_number (last bds))" using assms(2) by (simp add: last_map)
  moreover have "0 < length bds" using assms(2) by simp
  ultimately show ?thesis by linarith
qed

definition sent_upto :: "nat \<Rightarrow> nat \<Rightarrow> processor \<Rightarrow> bool" where
  "sent_upto b n pr \<longleftrightarrow> {Suc b..n} \<subseteq> (unat \<circ> cb_block_number) ` set (pr_sent pr)"

text \<open>The blocks on their way: they continue what was delivered, and the ingestor goes on where they end.\<close>

definition in_flight :: "nat \<Rightarrow> nat \<Rightarrow> pipeline \<Rightarrow> bool" where
  "in_flight b q p \<longleftrightarrow>
     (\<exists>d. q \<le> d \<and> sent_upto b d (pl_processor p) \<and>
        (let flight = pr_buffer (pl_processor p) @ pl_queue p; n = ig_next_block (pl_ingestor p)
         in numbered_from (Suc d) flight \<and>
            (if n = 0 then flight = [] \<and> d = q else unat n = Suc d + length flight)))"

definition pipe_ok :: "app_config \<Rightarrow> nat \<Rightarrow> pipeline \<Rightarrow> bool" where
  "pipe_ok cfg b p \<longleftrightarrow>
     (\<exists>q. persisted (ac_network_id cfg) (pr_db (pl_processor p)) = Some (int q) \<and> int q \<le> i64_max \<and> b \<le> q \<and>
        sent_upto b q (pl_processor p) \<and> (pr_channel (pl_processor p) \<noteq> Some 0 \<longrightarrow> in_flight b q p))"

lemma sent_upto_mono: "sent_upto b n pr \<Longrightarrow> set (pr_sent pr) \<subseteq> set (pr_sent pr') \<Longrightarrow> sent_upto b n pr'"
  unfolding sent_upto_def by (meson image_mono order_trans)

lemma dispatch_ok:
  assumes "bw_panic w = None"
    and "persisted (ac_network_id cfg) (pr_db pr) = Some (int q)" "int q \<le> i64_max" "sent_upto b q pr"
    and "pr_channel pr \<noteq> Some 0 \<Longrightarrow>
      q \<le> d \<and> sent_upto b d pr \<and> numbered_from (Suc d) blocks"
  defines "pr' \<equiv> process_and_dispatch cfg w blocks pr"
  shows "\<exists>q'. persisted (ac_network_id cfg) (pr_db pr') = Some (int q') \<and> int q' \<le> i64_max \<and> q \<le> q' \<and> sent_upto b q' pr' \<and>
    (pr_channel pr' \<noteq> Some 0 \<longrightarrow> q' \<le> d + length blocks \<and> sent_upto b (d + length blocks) pr') \<and> pr_buffer pr' = pr_buffer pr"
proof (cases "blocks = []")
  case True
  then have "pr' = pr" by (simp add: pr'_def process_and_dispatch_def process_blocks_batch_def Let_def)
  then show ?thesis using assms(2-5) True by auto
next
  case False
  let ?cbs = "map (process_block (bw_snapshot w)) blocks"
  obtain ch sent out where s: "send_correlated ?cbs None (pr_channel pr) = (ch, sent, out)" using prod_cases3 by blast
  have pr': "pr' = (let pr1 = pr\<lparr>pr_channel := ch, pr_sent := pr_sent pr @ sent\<rparr>
      in case out of Some (Some n) \<Rightarrow> pr1\<lparr>pr_db := fst (set_last_processed_block (ac_network_id cfg) n (pr_db pr1))\<rparr> | _ \<Rightarrow> pr1)"
    using False assms(1) s by (simp add: pr'_def process_and_dispatch_def process_blocks_batch_def)
  have mono: "sent_upto b n pr \<Longrightarrow> sent_upto b n pr'" for n
    by (rule sent_upto_mono) (auto simp: pr' Let_def split: option.splits)
  note sp = send_correlated_spec [OF s]
  show ?thesis
  proof (cases "case pr_channel pr of Some k \<Rightarrow> k < length ?cbs | None \<Rightarrow> False")
    case True
    then have "ch = Some 0" "out = None" using sp by auto
    then show ?thesis using assms(2-4) mono by (auto simp: pr' Let_def)
  next
    case all: False
    then have sent: "sent = ?cbs" "out = Some (Some (cb_block_number (last ?cbs)))" using sp False by auto
    have open_ch: "pr_channel pr \<noteq> Some 0" using all False by (auto simp: not_less)
    have blocks: "numbered_from (Suc d) blocks" using assms(5) [OF open_ch] by blast
    have nums: "unat ` cb_block_number ` set ?cbs = {Suc d ..< Suc d + length blocks}"
    proof -
      have "unat ` cb_block_number ` set ?cbs = set (map (unat \<circ> block_number) blocks)"
        by (simp add: process_block_def block_number_def image_image comp_def)
      then show ?thesis using blocks unfolding numbered_from_def by (simp only: set_upt)
    qed
    have last: "unat (cb_block_number (last ?cbs)) = d + length blocks"
      using numbered_from_last [OF blocks False] False by (simp add: last_map process_block_def block_number_def)
    have "sent_upto b (d + length blocks) pr'"
    proof -
      have "n \<in> (unat \<circ> cb_block_number) ` set (pr_sent pr')" if "n \<in> {Suc b..d + length blocks}" for n
      proof (cases "n \<le> d")
        case True
        then show ?thesis using assms(5) [OF open_ch] mono that unfolding sent_upto_def by (meson atLeastAtMost_iff subsetD)
      next
        case False
        then have "n \<in> unat ` cb_block_number ` set ?cbs" unfolding nums using that by simp
        then show ?thesis by (auto simp: pr' Let_def sent image_image)
      qed
      then show ?thesis unfolding sent_upto_def by blast
    qed
    moreover have "persisted (ac_network_id cfg) (pr_db pr') \<in> {Some (int q), Some (int (d + length blocks))}"
      "persisted (ac_network_id cfg) (pr_db pr') = Some (int q) \<or> int (d + length blocks) \<le> i64_max"
      using set_last_persisted [of "ac_network_id cfg" "cb_block_number (last ?cbs)" "pr_db pr"] assms(2) last
      by (auto simp: pr' Let_def sent uint_nat)
    moreover have "q \<le> d" using assms(5) [OF open_ch] by blast
    moreover have "pr_buffer pr' = pr_buffer pr" by (simp add: pr' Let_def sent)
    ultimately consider "persisted (ac_network_id cfg) (pr_db pr') = Some (int q)"
      | "persisted (ac_network_id cfg) (pr_db pr') = Some (int (d + length blocks))" "int (d + length blocks) \<le> i64_max" by auto
    then show ?thesis using assms(3) mono [OF assms(4)] \<open>sent_upto b (d + length blocks) pr'\<close> \<open>q \<le> d\<close> \<open>pr_buffer pr' = pr_buffer pr\<close>
      by cases (auto intro: exI [of _ "d + length blocks"])
  qed
qed

lemma dispatch_closed: "pr_channel pr = Some 0 \<Longrightarrow> pr_channel (process_and_dispatch cfg w blocks pr) = Some 0"
  by (cases blocks) (auto simp: process_and_dispatch_def process_blocks_batch_def Let_def split: option.splits)

lemma take_upt_length: "xs = take k [i..<j] \<Longrightarrow> xs = [i..<i + length xs]"
  by (cases "i + k \<le> j"; cases "i \<le> j") (auto simp: take_upt)

text \<open>What a cycle adds, in numbers.\<close>

lemma cycle_numbers:
  assumes "cycle_honest cfg (s, w)" "ingest_blocks cfg w ig s = Some (s', ig', sent, res)"
    and "persisted (ac_network_id cfg) s = Some (int q)" "int q \<le> i64_max"
  defines "start \<equiv> max (Suc q) (unat (ig_next_block ig))"
  shows "persisted (ac_network_id cfg) s' = Some (int q) \<and> numbered_from start sent \<and>
    (if sent = [] then ig_next_block ig' = ig_next_block ig else unat (ig_next_block ig') = start + length sent)"
proof -
  obtain r where g: "get_last_processed_block (ac_network_id cfg) s = (s', r)"
    using assms(2) by (auto simp: ingest_blocks_def split: prod.splits sum.splits)
  then have same: "persisted (ac_network_id cfg) s' = Some (int q)"
    using get_last_persisted(2) [of "ac_network_id cfg" s] assms(3) by simp
  show ?thesis
  proof (cases "\<exists>lp current. r = Inr lp \<and> ds_get_current_block_number (iw_source w) = Inr current")
    case False
    then have "ig' = ig \<and> sent = []" using assms(2) g by (auto simp: ingest_blocks_def split: sum.splits)
    then show ?thesis using same by simp
  next
    case True
    then obtain lp current where r: "r = Inr lp" "ds_get_current_block_number (iw_source w) = Inr current" by blast
    let ?safe = "saturating_sub current (ac_confirmation_blocks cfg)"
    have h: "numbered cfg w" "no_overflow cfg ?safe" using assms(1) r(2) by (simp_all add: cycle_honest_def)
    have i: "ingest_from cfg w lp current ig = Some (ig', sent, res)" using assms(2) g r by (simp add: ingest_blocks_def)
    have lp: "lp = Some (of_nat q)" using get_last_persisted(1) [OF g [unfolded r(1)]] assms(3) by simp
    have "unat (of_nat q + 1 :: u64) = Suc q"
      using assms(4) by (simp add: i64_max_def unat_word_ariths unat_of_nat)
    then have start: "unat (cycle_start lp current ig) = start"
      by (simp add: cycle_start_def lp start_def max_def word_le_nat_alt)
    obtain k where k: "map block_number sent = take k (u64_range (cycle_start lp current ig) ?safe)"
      and next_block: "ig_next_block ig' = (if sent = [] then ig_next_block ig else block_number (last sent) + 1)"
      using ingest_from_sends [OF h i] by blast
    have "map unat (map block_number sent) = take k [start..<Suc (unat ?safe)]"
      unfolding k by (simp add: take_map [symmetric] start)
    then have nums: "numbered_from start sent"
      unfolding numbered_from_def by (metis length_map map_map take_upt_length)
    have "unat (ig_next_block ig') = start + length sent" if ne: "sent \<noteq> []"
    proof -
      have "block_number (last sent) + 1 \<noteq> 0" by (rule last_below [OF k ne h(2)])
      then have "unat (block_number (last sent) + 1) = Suc (unat (block_number (last sent)))"
        using unatSuc [of "block_number (last sent)"] by (simp add: add.commute)
      then show ?thesis using numbered_from_last [OF nums ne] next_block ne by simp
    qed
    then show ?thesis using same nums next_block by simp
  qed
qed

lemma ingest_in_flight:
  assumes "in_flight b q p"
    and "numbered_from (max (Suc q) (unat (ig_next_block (pl_ingestor p)))) sent \<and>
      (if sent = [] then ig_next_block ig = ig_next_block (pl_ingestor p)
       else unat (ig_next_block ig) = max (Suc q) (unat (ig_next_block (pl_ingestor p))) + length sent)"
  shows "in_flight b q (p\<lparr>pl_ingestor := ig, pl_queue := pl_queue p @ sent, pl_processor := (pl_processor p)\<lparr>pr_db := s\<rparr>\<rparr>)"
proof -
  let ?F = "pr_buffer (pl_processor p) @ pl_queue p" and ?n = "ig_next_block (pl_ingestor p)"
  obtain d where d: "q \<le> d" "sent_upto b d (pl_processor p)" "numbered_from (Suc d) ?F"
    "if ?n = 0 then ?F = [] \<and> d = q else unat ?n = Suc d + length ?F"
    using assms(1) unfolding in_flight_def Let_def by blast
  have start: "max (Suc q) (unat ?n) = Suc d + length ?F" using d(1,4) by (cases "?n = 0") auto
  have "numbered_from (Suc d) (?F @ sent)" using assms(2) d(3) unfolding start by (simp add: add.assoc)
  moreover have "if ig_next_block ig = 0 then ?F @ sent = [] \<and> d = q else unat (ig_next_block ig) = Suc d + length (?F @ sent)"
    using assms(2) d(4) unfolding start by (cases "sent = []") auto
  ultimately show ?thesis using d(1,2) unfolding in_flight_def Let_def sent_upto_def
    by (intro exI [of _ d]) (simp split: if_splits)
qed

lemma receive_ok:
  assumes "bw_panic w = None" "pl_queue p = bd # rest"
    and q: "persisted (ac_network_id cfg) (pr_db (pl_processor p)) = Some (int q)" "int q \<le> i64_max" "b \<le> q"
      "sent_upto b q (pl_processor p)" "pr_channel (pl_processor p) \<noteq> Some 0 \<Longrightarrow> in_flight b q p"
  shows "pipe_ok cfg b (p\<lparr>pl_queue := rest, pl_processor := processor_receive cfg w bd (pl_processor p)\<rparr>)"
proof (cases "unat (ac_block_chunk_size cfg) \<le> length (pr_buffer (pl_processor p) @ [bd])")
  case False
  then have r: "processor_receive cfg w bd (pl_processor p) = (pl_processor p)\<lparr>pr_buffer := pr_buffer (pl_processor p) @ [bd]\<rparr>"
    by (simp add: processor_receive_def)
  have "in_flight b q (p\<lparr>pl_queue := rest, pl_processor := processor_receive cfg w bd (pl_processor p)\<rparr>)"
    if "pr_channel (pl_processor p) \<noteq> Some 0"
    using q(5) [OF that] assms(2) by (simp add: r in_flight_def sent_upto_def del: numbered_from_append)
  then show ?thesis using q(1-4) unfolding pipe_ok_def r by (auto simp: sent_upto_def)
next
  case True
  let ?pr = "(pl_processor p)\<lparr>pr_buffer := []\<rparr>" and ?blocks = "pr_buffer (pl_processor p) @ [bd]"
  let ?pr' = "process_and_dispatch cfg w ?blocks ?pr"
  have r: "processor_receive cfg w bd (pl_processor p) = ?pr'" using True by (simp add: processor_receive_def)
  have F: "pr_buffer (pl_processor p) @ pl_queue p = ?blocks @ rest" using assms(2) by simp
  obtain d where d: "pr_channel ?pr \<noteq> Some 0 \<Longrightarrow> q \<le> d \<and> sent_upto b d ?pr \<and> numbered_from (Suc d) ?blocks \<and>
      numbered_from (Suc (d + length ?blocks)) rest \<and> unat (ig_next_block (pl_ingestor p)) = Suc (d + length ?blocks) + length rest"
  proof (cases "pr_channel ?pr = Some 0")
    case False
    then have "in_flight b q p" using q(5) by simp
    then obtain d where d: "q \<le> d" "sent_upto b d (pl_processor p)" "numbered_from (Suc d) (?blocks @ rest)"
      "if ig_next_block (pl_ingestor p) = 0 then ?blocks @ rest = [] \<and> d = q
       else unat (ig_next_block (pl_ingestor p)) = Suc d + length (?blocks @ rest)"
      unfolding in_flight_def Let_def F by blast
    have "numbered_from (Suc d) ?blocks \<and> numbered_from (Suc d + length ?blocks) rest"
      using d(3) unfolding numbered_from_append [of _ ?blocks rest] .
    then show ?thesis using d(1,2,4) by (intro that [of d]) (simp add: sent_upto_def split: if_splits)
  qed (rule that [of 0], simp)
  have "\<exists>q'. persisted (ac_network_id cfg) (pr_db ?pr') = Some (int q') \<and> int q' \<le> i64_max \<and> q \<le> q' \<and> sent_upto b q' ?pr' \<and>
    (pr_channel ?pr' \<noteq> Some 0 \<longrightarrow> q' \<le> d + length ?blocks \<and> sent_upto b (d + length ?blocks) ?pr') \<and> pr_buffer ?pr' = pr_buffer ?pr"
    by (rule dispatch_ok [OF assms(1)]) (use q d in \<open>simp_all add: sent_upto_def\<close>)
  then obtain q' where q': "persisted (ac_network_id cfg) (pr_db ?pr') = Some (int q')" "int q' \<le> i64_max" "q \<le> q'" "sent_upto b q' ?pr'"
    "pr_channel ?pr' \<noteq> Some 0 \<Longrightarrow> q' \<le> d + length ?blocks \<and> sent_upto b (d + length ?blocks) ?pr'" "pr_buffer ?pr' = []" by auto
  have "in_flight b q' (p\<lparr>pl_queue := rest, pl_processor := ?pr'\<rparr>)" if open_ch: "pr_channel ?pr' \<noteq> Some 0"
  proof -
    have "pr_channel ?pr \<noteq> Some 0" using open_ch dispatch_closed by metis
    note d = d [OF this]
    have "ig_next_block (pl_ingestor p) \<noteq> 0" using d by auto
    then show ?thesis using d q'(5) [OF open_ch] q'(6) unfolding in_flight_def Let_def
      by (intro exI [of _ "d + length ?blocks"]) simp
  qed
  then show ?thesis using q' q(3) unfolding r pipe_ok_def by (intro exI [of _ q']) simp
qed

lemma shutdown_ok:
  assumes "bw_panic w = None"
    and q: "persisted (ac_network_id cfg) (pr_db (pl_processor p)) = Some (int q)" "int q \<le> i64_max" "b \<le> q"
      "sent_upto b q (pl_processor p)" "pr_channel (pl_processor p) \<noteq> Some 0 \<Longrightarrow> in_flight b q p"
  shows "pipe_ok cfg b (p\<lparr>pl_queue := [], pl_ingestor := ingestor_new cfg,
      pl_processor := (processor_shutdown cfg w (pl_processor p))\<lparr>pr_channel := ch\<rparr>\<rparr>)"
proof -
  let ?pr = "(pl_processor p)\<lparr>pr_buffer := []\<rparr>" and ?blocks = "pr_buffer (pl_processor p)"
  let ?pr' = "process_and_dispatch cfg w ?blocks ?pr"
  have "\<exists>d. pr_channel ?pr \<noteq> Some 0 \<longrightarrow> q \<le> d \<and> sent_upto b d ?pr \<and> numbered_from (Suc d) ?blocks"
    using q(5) unfolding in_flight_def Let_def by (auto simp: sent_upto_def)
  then obtain d where d: "pr_channel ?pr \<noteq> Some 0 \<Longrightarrow> q \<le> d \<and> sent_upto b d ?pr \<and> numbered_from (Suc d) ?blocks" by blast
  have "\<exists>q'. persisted (ac_network_id cfg) (pr_db ?pr') = Some (int q') \<and> int q' \<le> i64_max \<and> q \<le> q' \<and> sent_upto b q' ?pr' \<and>
    (pr_channel ?pr' \<noteq> Some 0 \<longrightarrow> q' \<le> d + length ?blocks \<and> sent_upto b (d + length ?blocks) ?pr') \<and> pr_buffer ?pr' = pr_buffer ?pr"
    by (rule dispatch_ok [OF assms(1)]) (use q d in \<open>simp_all add: sent_upto_def\<close>)
  then obtain q' where q': "persisted (ac_network_id cfg) (pr_db ?pr') = Some (int q')" "int q' \<le> i64_max" "q \<le> q'" "sent_upto b q' ?pr'"
    "pr_buffer ?pr' = []" by auto
  have fresh: "pipe_ok cfg b (p\<lparr>pl_queue := [], pl_ingestor := ingestor_new cfg, pl_processor := pr\<lparr>pr_channel := ch\<rparr>\<rparr>)"
    if "persisted (ac_network_id cfg) (pr_db pr) = Some (int n)" "int n \<le> i64_max" "b \<le> n" "sent_upto b n pr" "pr_buffer pr = []" for pr n
    using that unfolding pipe_ok_def in_flight_def Let_def by (intro exI [of _ n]) (simp add: sent_upto_def ingestor_new_def)
  show ?thesis
  proof (cases "?blocks = []")
    case True
    then show ?thesis using fresh [OF q(1-4)] by (simp add: processor_shutdown_def)
  next
    case False
    then show ?thesis using fresh [OF q'(1,2) _ q'(4,5)] q(3) q'(3) by (simp add: processor_shutdown_def)
  qed
qed

lemma pipe_step_ok:
  assumes "pipe_step cfg ws p p'" "\<And>w. w \<in> ws \<Longrightarrow> bw_panic w = None" "pipe_ok cfg b p"
  shows "pipe_ok cfg b p'"
proof -
  let ?pr = "pl_processor p"
  obtain q where q: "persisted (ac_network_id cfg) (pr_db ?pr) = Some (int q)" "int q \<le> i64_max" "b \<le> q" "sent_upto b q ?pr"
      "pr_channel ?pr \<noteq> Some 0 \<Longrightarrow> in_flight b q p"
    using assms(3) unfolding pipe_ok_def by blast
  show ?thesis using assms(1)
  proof cases
    case (other s)
    then show ?thesis using q by (auto simp: pipe_ok_def in_flight_def sent_upto_def Let_def)
  next
    case (crash ch)
    then show ?thesis using q by (auto simp: pipe_ok_def in_flight_def sent_upto_def ingestor_new_def Let_def)
  next
    case (ingest w s ig sent res)
    note c = cycle_numbers [OF ingest(2,3) q(1,2)]
    have "in_flight b q p'" if open_ch: "pr_channel ?pr \<noteq> Some 0"
      unfolding ingest(1) by (rule ingest_in_flight [OF q(5) [OF open_ch] conjunct2 [OF c]])
    then show ?thesis using q c ingest(1) by (auto simp: pipe_ok_def sent_upto_def)
  next
    case (receive bd rest w)
    show ?thesis unfolding receive(1) by (rule receive_ok [OF assms(2) [OF receive(3)] receive(2) q])
  next
    case (shutdown w ch)
    show ?thesis unfolding shutdown(1) by (rule shutdown_ok [OF assms(2) [OF shutdown(2)] q])
  qed
qed

text \<open>C3. No block is skipped, across crashes and restarts: whatever the interleaving of ingestion cycles (with their failures),
  received blocks, clean shutdowns, crashes, database faults and writes of other services, every block from the one after the block persisted
  at the beginning up to the block persisted now has been handed to the filtering engine, and the persisted number is not below its start;
  provided no correlation task panics.\<close>

theorem persisted_blocks_filtered:
  assumes "(pipe_step cfg ws)\<^sup>*\<^sup>* p p'" "\<And>w. w \<in> ws \<Longrightarrow> bw_panic w = None"
    and "persisted (ac_network_id cfg) (pr_db (pl_processor p)) = Some (int b)" "int b \<le> i64_max"
    and "pl_ingestor p = ingestor_new cfg" "pl_queue p = []" "pr_buffer (pl_processor p) = []"
  shows "\<exists>q. persisted (ac_network_id cfg) (pr_db (pl_processor p')) = Some (int q) \<and> b \<le> q \<and>
    {Suc b..q} \<subseteq> (unat \<circ> cb_block_number) ` set (pr_sent (pl_processor p'))"
proof -
  have "pipe_ok cfg b p"
    using assms(3-7) unfolding pipe_ok_def in_flight_def Let_def sent_upto_def by (intro exI [of _ b]) (simp add: ingestor_new_def)
  with assms(1) have "pipe_ok cfg b p'"
    by (induction rule: rtranclp_induct) (use assms(2) in \<open>auto intro: pipe_step_ok\<close>)
  then show ?thesis unfolding pipe_ok_def sent_upto_def by blast
qed

text \<open>A run without panics and with a reader that stays hands over every block, in the order received.\<close>

lemma dispatch_open:
  assumes "pr_channel pr = None" "bw_panic w = None"
  shows "pr_channel (process_and_dispatch cfg w blocks pr) = None \<and> pr_buffer (process_and_dispatch cfg w blocks pr) = pr_buffer pr \<and>
    pr_sent (process_and_dispatch cfg w blocks pr) = pr_sent pr @ map (process_block (bw_snapshot w)) blocks"
proof -
  have "send_correlated cbs lp None = (None, cbs, Some (if cbs = [] then lp else Some (cb_block_number (last cbs))))" for cbs lp
    by (induction cbs arbitrary: lp) auto
  then show ?thesis using assms by (auto simp: process_and_dispatch_def process_blocks_batch_def Let_def)
qed

lemma processor_run_order:
  assumes "pr_channel pr = None" "list_all (\<lambda>w. bw_panic w = None) (final # map snd evs)"
  shows "map cb_block_number (pr_sent (processor_run cfg evs final pr)) =
    map cb_block_number (pr_sent pr) @ map block_number (pr_buffer pr @ map fst evs)"
  using assms
proof (induction evs arbitrary: pr)
  case Nil
  have num: "cb_block_number (process_block st bd) = block_number bd" for st :: "'a monitor_asset_state" and bd
    by (simp add: process_block_def block_number_def)
  show ?case using Nil dispatch_open [of "pr\<lparr>pr_buffer := []\<rparr>" final cfg "pr_buffer pr"]
    by (simp add: processor_shutdown_def num comp_def)
next
  case (Cons e evs)
  obtain bd w where e: "e = (bd, w)" by (cases e)
  have num: "cb_block_number (process_block st bd) = block_number bd" for st :: "'a monitor_asset_state" and bd
    by (simp add: process_block_def block_number_def)
  let ?pr = "processor_receive cfg w bd pr"
  have "pr_channel ?pr = None \<and> map cb_block_number (pr_sent ?pr) @ map block_number (pr_buffer ?pr) =
      map cb_block_number (pr_sent pr) @ map block_number (pr_buffer pr @ [bd])"
    using Cons.prems dispatch_open [of "pr\<lparr>pr_buffer := []\<rparr>" w cfg "pr_buffer pr @ [bd]"]
    by (simp add: processor_receive_def Let_def e num comp_def)
  then show ?case using Cons.IH [of ?pr] Cons.prems by (simp add: e)
qed

text \<open>A batch whose task panics is gone: it has left the buffer and nothing was sent.\<close>

lemma panicked_batch_dropped:
  "bw_panic w = Some e \<Longrightarrow> unat (ac_block_chunk_size cfg) \<le> Suc (length (pr_buffer pr)) \<Longrightarrow>
     processor_receive cfg w bd pr = pr\<lparr>pr_buffer := []\<rparr>"
  by (simp add: processor_receive_def process_and_dispatch_def process_blocks_batch_def Let_def)

section \<open>Witnesses\<close>

definition hybrid_snapshot :: "string monitor_asset_state" where
  "hybrid_snapshot = \<lparr>as_monitors_by_id =
       [(2, (sample_cm tx_monitor False)\<lparr>cm_caps := \<lparr>cap_tx = True, cap_log = True, cap_call = False\<rparr>\<rparr>)],
     as_tx_aware_monitors = [2], as_log_aware_monitors = [2], as_interest_registry = empty_registry,
     as_requires_receipts = False, as_has_transaction_only_monitors = False\<rparr>"

text \<open>A monitor that reads the log and the transaction would match a transaction without logs, but the processor drops it.\<close>

lemma hybrid_transaction_skipped:
  fixes item :: correlated_item
  defines "item \<equiv> sample_item\<lparr>ci_logs := []\<rparr>"
  shows "\<not> keeps_item hybrid_snapshot item" "\<exists>m ms. evaluate_item sample_filter hybrid_snapshot item = Inr (m # ms)"
proof -
  show "\<not> keeps_item hybrid_snapshot item"
    by (simp add: keeps_item_def item_def hybrid_snapshot_def is_calldata_interesting_def empty_registry_def split: option.splits)
  let ?cm = "(sample_cm tx_monitor False)\<lparr>cm_caps := \<lparr>cap_tx = True, cap_log = True, cap_call = False\<rparr>\<rparr>"
  have mons: "snapshot_monitors hybrid_snapshot [2] = [?cm]" by (simp add: snapshot_monitors_def hybrid_snapshot_def map_filter_simps)
  have "spec_tx_hits sample_filter item [?cm] = Inr [?cm]"
    by (simp add: spec_tx_hits_def spec_tx_verdict_def sample_cm_def sample_filter_def eval_ast_bool_secure_def sample_engine_def tx_monitor_def)
  then have "spec_evaluate sample_filter hybrid_snapshot item = Inr (spec_tx_matches sample_filter item ?cm)"
    using mons by (simp add: spec_evaluate_def hybrid_snapshot_def spec_log_hits_def item_def map_filter_simps)
  moreover have "log_keys_unique item" by (simp add: item_def log_keys_unique_def)
  ultimately show "\<exists>m ms. evaluate_item sample_filter hybrid_snapshot item = Inr (m # ms)"
    using evaluate_item_refines [OF sample_filter_ok(1), of item hybrid_snapshot]
    by (cases "evaluate_item sample_filter hybrid_snapshot item")
       (auto simp: spec_tx_matches_def sample_cm_def tx_monitor_def list_all2_Cons2)
qed

theorem process_block_contents_witness:
  "process_block sample_snapshot (from_raw_data (sample_block 4\<lparr>blk_transactions := FullTxs [sample_tx]\<rparr>) [] [sample_log]) =
     \<lparr>cb_block_number = 4, cb_items = [sample_item]\<rparr>"
  using process_block_contents [of "from_raw_data (sample_block 4\<lparr>blk_transactions := FullTxs [sample_tx]\<rparr>) [] [sample_log]" "[sample_tx]"
      sample_snapshot]
  by (simp add: from_raw_data_def keeps_item_def sample_snapshot_def block_number_def sample_block_def item_of_def sample_tx_def
      sample_log_def entry_update_def sample_item_def)

definition sample_pipeline :: pipeline where
  "sample_pipeline = \<lparr>pl_ingestor = ingestor_new sample_app_config, pl_queue = [],
     pl_processor = \<lparr>pr_buffer = [], pr_db = sample_db_at 3, pr_channel = None, pr_sent = []\<rparr>\<rparr>"

theorem persisted_blocks_filtered_witness:
  "\<exists>p. (pipe_step sample_app_config {\<lparr>bw_snapshot = sample_snapshot, bw_panic = None\<rparr>})\<^sup>*\<^sup>* sample_pipeline p \<and>
     persisted ''mainnet'' (pr_db (pl_processor p)) = Some 4 \<and> {4..4} \<subseteq> (unat \<circ> cb_block_number) ` set (pr_sent (pl_processor p))"
proof -
  let ?cfg = sample_app_config and ?w = "\<lparr>bw_snapshot = sample_snapshot, bw_panic = None\<rparr>"
  obtain ig sent where c: "ingest_blocks ?cfg (sample_world sample_provider) (ingestor_new ?cfg) (sample_db_at 3) =
      Some (sample_db_at 3\<lparr>db_queries := 1\<rparr>, ig, sent, Inr ())" "map block_number sent = u64_range 4 6"
    using sample_first_cycle by blast
  then obtain bd rest where bd: "sent = bd # rest" "block_number bd = 4" by (cases sent) (auto simp: u64_range_def)
  define p1 where "p1 = sample_pipeline\<lparr>pl_ingestor := ig, pl_queue := [] @ sent,
    pl_processor := (pl_processor sample_pipeline)\<lparr>pr_db := sample_db_at 3\<lparr>db_queries := 1\<rparr>\<rparr>\<rparr>"
  define p2 where "p2 = p1\<lparr>pl_queue := rest, pl_processor := processor_receive ?cfg ?w bd (pl_processor p1)\<rparr>"
  have "pipe_step ?cfg {?w} sample_pipeline p1"
    using pipe_step.ingest [of ?cfg sample_pipeline "sample_world sample_provider" _ ig sent "Inr ()" "{?w}"] c(1)
      sample_honest [of "Inr 10"] by (simp add: p1_def sample_pipeline_def sample_provider_up)
  moreover have "pipe_step ?cfg {?w} p1 p2" unfolding p2_def by (rule pipe_step.receive) (simp_all add: p1_def bd)
  ultimately have steps: "(pipe_step ?cfg {?w})\<^sup>*\<^sup>* sample_pipeline p2" by simp
  have "\<exists>q. persisted (ac_network_id ?cfg) (pr_db (pl_processor p2)) = Some (int q) \<and> 3 \<le> q \<and>
      {Suc 3..q} \<subseteq> (unat \<circ> cb_block_number) ` set (pr_sent (pl_processor p2))"
    by (rule persisted_blocks_filtered [OF steps])
       (simp_all add: sample_pipeline_def sample_network persisted_def sample_db_at_def i64_max_def)
  moreover have "persisted ''mainnet'' (pr_db (pl_processor p2)) = Some 4"
    using bd(2) by (simp add: p2_def p1_def sample_pipeline_def processor_receive_def process_and_dispatch_def process_blocks_batch_def
        process_block_def block_number_def sample_app_config_def set_last_processed_block_def i64_max_def modify_def exec_def
        persisted_def sample_db_at_def empty_db_def Let_def)
  ultimately show ?thesis using steps by (intro exI [of _ p2]) (simp add: sample_network)
qed

end
