(* ===== verification/Argus_Validator.thy ===== *)
theory Argus_Validator
  imports Argus_Monitor Argus_Store
begin

text \<open>
  Validation of monitors and actions before they are stored: \<open>crates/argus-monitor/src/validator.rs\<close>,
  \<open>persistence_validator.rs\<close> and \<open>crates/argus-api/src/action/validator.rs\<close>.

  The script compiler's cache is threaded through as state. The template engine, address parsing, the URL parser and the JSON form of
  an action come from other crates and are fields of the validator. \<open>None\<close> is the panic of the
  \<open>expect\<close> in template validation, which is shown never to happen.
\<close>

section \<open>Errors and the validator\<close>

datatype monitor_validation_error =
    MonitorRequiresAddress string
  | MonitorRequiresAbi string string
  | InvalidAddress string string
  | InvalidNetwork string network_id network_id
  | UnknownAction string string
  | ScriptError string script_validation_error
  | InvalidCalldataConfig string string
  | InvalidActionTemplate string string string string

record 'ast monitor_validator =
  mv_network_id :: network_id
  mv_actions :: "action_config list"
  mv_engine :: "'ast script_engine"
  mv_abi_service :: abi_service
  mv_parse_address :: "string \<Rightarrow> address option"
  mv_render :: "string \<Rightarrow> json \<Rightarrow> string + string"
  mv_enc_action :: "action_config \<Rightarrow> json"
  mv_codec :: json_codec
  mv_rhai_lib :: rhai_lib

definition validate_network :: "'ast monitor_validator \<Rightarrow> monitor_config \<Rightarrow> monitor_validation_error + unit" where
  "validate_network v m =
     (if mc_network m \<noteq> mv_network_id v then Inl (InvalidNetwork (mc_name m) (mv_network_id v) (mc_network m)) else Inr ())"

section \<open>Actions, address and ABI\<close>

definition action_exists :: "'ast monitor_validator \<Rightarrow> string \<Rightarrow> bool" where
  "action_exists v name = list_ex (\<lambda>a. ac_name a = name) (mv_actions v)"

definition find_action :: "'ast monitor_validator \<Rightarrow> string \<Rightarrow> action_config option" where
  "find_action v name = find (\<lambda>a. ac_name a = name) (mv_actions v)"

definition validate_actions :: "'ast monitor_validator \<Rightarrow> monitor_config \<Rightarrow> monitor_validation_error + unit" where
  "validate_actions v m =
     (if mc_actions m = [] then Inr ()
      else
        (case find (\<lambda>a. \<not> action_exists v a) (mc_actions m) of
           Some a \<Rightarrow> Inl (UnknownAction (mc_name m) a)
         | None \<Rightarrow> Inr ()))"

definition parse_and_validate_address ::
  "'ast monitor_validator \<Rightarrow> monitor_config \<Rightarrow> monitor_validation_error + address option \<times> bool" where
  "parse_and_validate_address v m =
     (case mc_address m of
        None \<Rightarrow> Inr (None, False)
      | Some s \<Rightarrow>
          if eq_ignore_ascii_case s ''all'' then Inr (None, True)
          else mapR (\<lambda>a. (Some a, False)) (ok_or (InvalidAddress (mc_name m) s) (mv_parse_address v s)))"

definition get_monitor_abi_json :: "'ast monitor_validator \<Rightarrow> monitor_config \<Rightarrow> address option \<Rightarrow> json_abi option" where
  "get_monitor_abi_json v m addr =
     (case mc_abi_name m of
        Some n \<Rightarrow> get_abi_by_name (mv_abi_service v) n
      | None \<Rightarrow>
          (case addr of
             Some a \<Rightarrow> map_option cc_abi (get_cached_abi (mv_abi_service v) a)
           | None \<Rightarrow> None))"

definition validate_script_and_abi_rules ::
  "monitor_config \<Rightarrow> 'ast script_validation_result \<Rightarrow> bool \<Rightarrow> bool \<Rightarrow> monitor_validation_error + unit" where
  "validate_script_and_abi_rules m res is_global abi_was_retrieved =
     (if \<not> sa_accesses_log_variable (sr_ast_analysis res) then Inr ()
      else if is_global then
        (case mc_abi_name m of
           None \<Rightarrow> Inl (MonitorRequiresAbi (mc_name m) ''ABI is required for global log monitoring (address: all) to decode logs.'')
         | Some n \<Rightarrow>
             if \<not> abi_was_retrieved
             then Inl (MonitorRequiresAbi (mc_name m) (''ABI could not be retrieved for global log monitor: '' @ n))
             else Inr ())
      else
        (case mc_address m of
           None \<Rightarrow> Inl (MonitorRequiresAddress (mc_name m))
         | Some a \<Rightarrow>
             (case mc_abi_name m of
                None \<Rightarrow> Inl (MonitorRequiresAbi (mc_name m) ''ABI is required for contract-specific log monitoring to decode logs.'')
              | Some n \<Rightarrow>
                  if \<not> abi_was_retrieved
                  then Inl (MonitorRequiresAbi (mc_name m) (''ABI could not be retrieved for address: '' @ n @ a))
                  else Inr ())))"

definition validate_calldata :: "monitor_config \<Rightarrow> monitor_validation_error + unit" where
  "validate_calldata m =
     (if mc_abi_name m = None then Inl (InvalidCalldataConfig (mc_name m) ''no ABI is specified'')
      else
        (case mc_address m of
           Some s \<Rightarrow>
             if eq_ignore_ascii_case s ''all'' then Inl (InvalidCalldataConfig (mc_name m) ''global monitor'') else Inr ()
         | None \<Rightarrow> Inl (InvalidCalldataConfig (mc_name m) ''no contract address is specified'')))"

section \<open>Templates\<close>

definition create_dummy_value_for_type :: "string \<Rightarrow> json" where
  "create_dummy_value_for_type t =
     (if t = ''address'' then JString ''0x0000000000000000000000000000000000000000''
      else if starts_with t ''uint'' \<or> starts_with t ''int'' then JString ''1000000000000000000''
      else if t = ''bool'' then JBool True
      else if starts_with t ''bytes'' then JString ''0x000000''
      else if t = ''string'' then JString ''dummy_string''
      else if str_contains t ''['' then JArray []
      else JString ''dummy_value'')"

text \<open>\<open>entry(name).or_insert(value)\<close> for every input: the first parameter of a name decides.\<close>

definition or_insert :: "'k \<Rightarrow> 'v \<Rightarrow> ('k \<times> 'v) list \<Rightarrow> ('k \<times> 'v) list" where
  "or_insert k v m = (if map_of m k = None then m @ [(k, v)] else m)"

definition dummy_params :: "abi_param list \<Rightarrow> (string \<times> json) list" where
  "dummy_params ps = fold (\<lambda>p. or_insert (ap_name p) (create_dummy_value_for_type (ap_ty p))) ps []"

definition extract_event_parameters :: "json_abi \<Rightarrow> (string \<times> json) list" where
  "extract_event_parameters abi = dummy_params (concat (map ev_inputs (ja_events abi)))"

definition extract_function_inputs :: "json_abi \<Rightarrow> (string \<times> json) list" where
  "extract_function_inputs abi = dummy_params (concat (map fn_inputs (ja_functions abi)))"

text \<open>The transaction of the dummy context, with the defaults of \<open>TransactionBuilder\<close>.\<close>

definition dummy_transaction :: evm_tx where
  "dummy_transaction = \<lparr>tx_hash = 0, tx_to = Some 0, tx_from = 0, tx_input = [], tx_value = 1000000000000000000, tx_gas = 21000,
     tx_gas_price = None, tx_nonce = 0, tx_block_hash = None, tx_block_number = None, tx_transaction_index = None,
     tx_max_fee_per_gas = 2000000000, tx_max_priority_fee_per_gas = Some 1000000000, tx_chain_id = Some 1,
     tx_transaction_type = Eip1559\<rparr>"

definition generate_dummy_context :: "'ast monitor_validator \<Rightarrow> monitor_config \<Rightarrow> json_abi option \<Rightarrow> json" where
  "generate_dummy_context v m abi =
     (let log_params = (case abi of Some a \<Rightarrow> extract_event_parameters a | None \<Rightarrow> []);
          call_params = (case abi of Some a \<Rightarrow> extract_function_inputs a | None \<Rightarrow> []);
          details = \<lparr>ld_address = 0, ld_log_index = 0, ld_name = ''DummyLog'', ld_params = JObject log_params\<rparr>;
          tx = build_transaction_details_payload (mv_rhai_lib v) dummy_transaction None;
          call = JObject [(''name'', JString ''DummyFunction''), (''params'', JObject call_params)];
          b = match_builder_new 123 (mc_name m) ''Dummy action'' 1234567890 0
      in monitor_match_to_json (mv_codec v)
           (build (enc_hash (mv_codec v)) (set_decoded_call (log_match b details tx) (Some call))))"

definition create_policy_aware_context :: "action_config \<Rightarrow> json \<Rightarrow> json" where
  "create_policy_aware_context action base =
     (case base of
        JObject context \<Rightarrow>
          (case ac_policy action of
             Some (Aggregation _) \<Rightarrow> JObject (AList.update ''matches'' (JArray []) context)
           | _ \<Rightarrow> JObject context)
      | _ \<Rightarrow> base)"

definition is_template_string :: "string \<Rightarrow> bool" where
  "is_template_string s \<longleftrightarrow> str_contains s ''{{'' \<and> str_contains s ''}}''"

fun extract_templates :: "json \<Rightarrow> string list" where
  "extract_templates (JString s) = (if is_template_string s then [s] else [])"
| "extract_templates (JObject kvs) = concat (map (\<lambda>kv. extract_templates (snd kv)) kvs)"
| "extract_templates (JArray vs) = concat (map extract_templates vs)"
| "extract_templates _ = []"

definition validate_single_action_template ::
  "'ast monitor_validator \<Rightarrow> monitor_config \<Rightarrow> json \<Rightarrow> string \<Rightarrow> (monitor_validation_error + unit) option" where
  "validate_single_action_template v m context name =
     map_option (\<lambda>action.
       mapR (\<lambda>_. ()) (traverse (\<lambda>t.
         map_err (\<lambda>e. InvalidActionTemplate (mc_name m) name t e) (mv_render v t (create_policy_aware_context action context)))
         (extract_templates (mv_enc_action v action))))
       (find_action v name)"

fun validate_templates_of ::
  "'ast monitor_validator \<Rightarrow> monitor_config \<Rightarrow> json \<Rightarrow> string list \<Rightarrow> (monitor_validation_error + unit) option" where
  "validate_templates_of v m context [] = Some (Inr ())"
| "validate_templates_of v m context (a # as) =
     Option.bind (validate_single_action_template v m context a) (\<lambda>r.
       case r of Inl e \<Rightarrow> Some (Inl e) | Inr _ \<Rightarrow> validate_templates_of v m context as)"

definition validate_templates ::
  "'ast monitor_validator \<Rightarrow> monitor_config \<Rightarrow> json_abi option \<Rightarrow> (monitor_validation_error + unit) option" where
  "validate_templates v m abi = validate_templates_of v m (generate_dummy_context v m abi) (mc_actions m)"

section \<open>The coordinator\<close>

definition monitor_validate ::
  "'ast monitor_validator \<Rightarrow> monitor_config \<Rightarrow> 'ast script_cache \<Rightarrow> ('ast script_cache \<times> (monitor_validation_error + unit)) option" where
  "monitor_validate v m cache =
     (case bindR (validate_network v m) (\<lambda>_. bindR (validate_actions v m) (\<lambda>_. parse_and_validate_address v m)) of
        Inl e \<Rightarrow> Some (cache, Inl e)
      | Inr (addr, is_global) \<Rightarrow>
          (let abi = get_monitor_abi_json v m addr
           in case validate_script (mv_engine v) (mc_filter_script m) abi cache of
                (c, Inl e) \<Rightarrow> Some (c, Inl (ScriptError (mc_name m) e))
              | (c, Inr res) \<Rightarrow>
                  (case bindR (validate_script_and_abi_rules m res is_global (abi \<noteq> None)) (\<lambda>_.
                          if sa_accesses_call_variable (sr_ast_analysis res) then validate_calldata m else Inr ()) of
                     Inl e \<Rightarrow> Some (c, Inl e)
                   | Inr _ \<Rightarrow> map_option (Pair c) (validate_templates v m abi))))"

section \<open>Validation against the store\<close>

datatype monitor_persistence_error =
    BusinessLogic monitor_validation_error
  | MonitorPersistence persistence_error
  | MonitorNameConflict string

text \<open>The checks that both entry points share, up to the name check, and the business rules after it.\<close>

definition validate_for_create ::
  "'ast monitor_validator \<Rightarrow> monitor_config \<Rightarrow> 'ast script_cache \<Rightarrow> db \<Rightarrow>
     (db \<times> 'ast script_cache \<times> (monitor_persistence_error + unit)) option" where
  "validate_for_create v m cache s =
     (if mc_network m \<noteq> mv_network_id v
      then Some (s, cache, Inl (BusinessLogic (InvalidNetwork (mc_name m) (mv_network_id v) (mc_network m))))
      else
        (case get_monitors (mv_network_id v) s of
           (t, Inl e) \<Rightarrow> Some (t, cache, Inl (MonitorPersistence e))
         | (t, Inr existing) \<Rightarrow>
             if list_ex (\<lambda>x. mon_name x = mc_name m) existing then Some (t, cache, Inl (MonitorNameConflict (mc_name m)))
             else map_option (\<lambda>(c, r). (t, c, map_err BusinessLogic r)) (monitor_validate v m cache)))"

definition validate_for_update ::
  "'ast monitor_validator \<Rightarrow> string \<Rightarrow> monitor_config \<Rightarrow> 'ast script_cache \<Rightarrow> db \<Rightarrow>
     (db \<times> 'ast script_cache \<times> (monitor_persistence_error + unit)) option" where
  "validate_for_update v monitor_id m cache s =
     (if mc_network m \<noteq> mv_network_id v
      then Some (s, cache, Inl (BusinessLogic (InvalidNetwork (mc_name m) (mv_network_id v) (mc_network m))))
      else
        (case get_monitors (mv_network_id v) s of
           (t, Inl e) \<Rightarrow> Some (t, cache, Inl (MonitorPersistence e))
         | (t, Inr existing) \<Rightarrow>
             if (case find (\<lambda>x. mon_name x = mc_name m) existing of Some x \<Rightarrow> show_int (mon_id x) \<noteq> monitor_id | None \<Rightarrow> False)
             then Some (t, cache, Inl (MonitorNameConflict (mc_name m)))
             else map_option (\<lambda>(c, r). (t, c, map_err BusinessLogic r)) (monitor_validate v m cache)))"

datatype action_validation_error =
    Configuration action_type_config_error
  | ActionPersistence persistence_error
  | ActionNameConflict string

definition action_validate_for_create ::
  "store_env \<Rightarrow> (url \<Rightarrow> string option) \<Rightarrow> network_id \<Rightarrow> action_config \<Rightarrow> (db, action_validation_error, unit) op" where
  "action_validate_for_create env url_domain net a s =
     (case validate_action_type url_domain (ac_config a) of
        Inl e \<Rightarrow> (s, Inl (Configuration e))
      | Inr _ \<Rightarrow>
          (case get_action_by_name env net (ac_name a) s of
             (t, Inl e) \<Rightarrow> (t, Inl (ActionPersistence e))
           | (t, Inr (Some _)) \<Rightarrow> (t, Inl (ActionNameConflict (ac_name a)))
           | (t, Inr None) \<Rightarrow> (t, Inr ())))"

definition action_validate_for_update ::
  "store_env \<Rightarrow> (url \<Rightarrow> string option) \<Rightarrow> network_id \<Rightarrow> action_config \<Rightarrow> (db, action_validation_error, unit) op" where
  "action_validate_for_update env url_domain net a s =
     (case validate_action_type url_domain (ac_config a) of
        Inl e \<Rightarrow> (s, Inl (Configuration e))
      | Inr _ \<Rightarrow>
          (case ac_id a of
             None \<Rightarrow> (s, Inl (ActionPersistence (InvalidInput ''Action ID is required for update'')))
           | Some i \<Rightarrow>
               (case get_action_by_id env net i s of
                  (t, Inl e) \<Rightarrow> (t, Inl (ActionPersistence e))
                | (t, Inr None) \<Rightarrow> (t, Inl (ActionPersistence NotFound))
                | (t, Inr (Some _)) \<Rightarrow>
                    (case get_action_by_name env net (ac_name a) t of
                       (u, Inl e) \<Rightarrow> (u, Inl (ActionPersistence e))
                     | (u, Inr (Some x)) \<Rightarrow>
                         if ac_id x \<noteq> ac_id a then (u, Inl (ActionNameConflict (ac_name a))) else (u, Inr ())
                     | (u, Inr None) \<Rightarrow> (u, Inr ())))))"

section \<open>What validation accepts\<close>

definition monitor_abi :: "'ast monitor_validator \<Rightarrow> monitor_config \<Rightarrow> json_abi option" where
  "monitor_abi v m = get_monitor_abi_json v m (Option.bind (mc_address m) (\<lambda>s.
     if eq_ignore_ascii_case s ''all'' then None else mv_parse_address v s))"

definition address_ok :: "'ast monitor_validator \<Rightarrow> monitor_config \<Rightarrow> bool" where
  "address_ok v m \<longleftrightarrow>
     (case mc_address m of None \<Rightarrow> True | Some s \<Rightarrow> eq_ignore_ascii_case s ''all'' \<or> mv_parse_address v s \<noteq> None)"

definition has_concrete_address :: "monitor_config \<Rightarrow> bool" where
  "has_concrete_address m \<longleftrightarrow> (case mc_address m of Some s \<Rightarrow> \<not> eq_ignore_ascii_case s ''all'' | None \<Rightarrow> False)"

text \<open>Every template of every action renders over the dummy context.\<close>

definition templates_render :: "'ast monitor_validator \<Rightarrow> monitor_config \<Rightarrow> bool" where
  "templates_render v m \<longleftrightarrow>
     list_all (\<lambda>name. case find_action v name of
         Some a \<Rightarrow> list_all (\<lambda>t. is_ok (mv_render v t (create_policy_aware_context a (generate_dummy_context v m (monitor_abi v m)))))
                     (extract_templates (mv_enc_action v a))
       | None \<Rightarrow> False) (mc_actions m)"

lemma find_action_exists: "action_exists v name \<longleftrightarrow> find_action v name \<noteq> None"
  by (auto simp: action_exists_def find_action_def find_None_iff list_ex_iff)

lemma validate_actions_ok: "validate_actions v m = Inr () \<longleftrightarrow> list_all (action_exists v) (mc_actions m)"
  by (auto simp: validate_actions_def find_None_iff list_all_iff split: option.splits) (metis find_None_iff option.distinct(1))

lemma parse_address_ok:
  "parse_and_validate_address v m = Inr (addr, is_global) \<longleftrightarrow>
     address_ok v m \<and> is_global = (mc_address m \<noteq> None \<and> \<not> has_concrete_address m) \<and>
     addr = Option.bind (mc_address m) (\<lambda>s. if eq_ignore_ascii_case s ''all'' then None else mv_parse_address v s)"
  by (auto simp: parse_and_validate_address_def address_ok_def has_concrete_address_def mapR_def ok_or_def split: option.splits)

lemma parse_address_total: "address_ok v m \<Longrightarrow> is_ok (parse_and_validate_address v m)"
  by (auto simp: parse_and_validate_address_def address_ok_def split: option.splits)

lemma rules_ok:
  "validate_script_and_abi_rules m res (mc_address m \<noteq> None \<and> \<not> has_concrete_address m) got = Inr () \<longleftrightarrow>
     (sa_accesses_log_variable (sr_ast_analysis res) \<longrightarrow> mc_address m \<noteq> None \<and> mc_abi_name m \<noteq> None \<and> got)"
  by (auto simp: validate_script_and_abi_rules_def has_concrete_address_def split: option.splits)

lemma calldata_ok: "validate_calldata m = Inr () \<longleftrightarrow> mc_abi_name m \<noteq> None \<and> has_concrete_address m"
  by (auto simp: validate_calldata_def has_concrete_address_def split: option.splits)

lemma traverse_unit_ok: "mapR (\<lambda>_. ()) (traverse f xs) = Inr () \<longleftrightarrow> list_all (is_ok \<circ> f) xs"
  by (induction xs) (auto split: sum.splits)

lemma single_template_ok:
  assumes "find_action v name = Some a"
  obtains r where "validate_single_action_template v m context name = Some r"
    "r = Inr () \<longleftrightarrow> list_all (\<lambda>t. is_ok (mv_render v t (create_policy_aware_context a context))) (extract_templates (mv_enc_action v a))"
proof -
  let ?f = "\<lambda>t. map_err (InvalidActionTemplate (mc_name m) name t) (mv_render v t (create_policy_aware_context a context))"
  have "is_ok (map_err f r) = is_ok r" for f :: "string \<Rightarrow> monitor_validation_error" and r :: "string + string" by (cases r) simp_all
  then have "list_all (is_ok \<circ> ?f) ts = list_all (\<lambda>t. is_ok (mv_render v t (create_policy_aware_context a context))) ts" for ts
    by (simp add: comp_def)
  then show thesis using that traverse_unit_ok [of ?f "extract_templates (mv_enc_action v a)"]
    by (simp add: validate_single_action_template_def assms)
qed

lemma templates_of_ok:
  "list_all (action_exists v) names \<Longrightarrow> \<exists>r. validate_templates_of v m context names = Some r \<and>
     (r = Inr () \<longleftrightarrow>
        list_all (\<lambda>name. case find_action v name of
            Some a \<Rightarrow> list_all (\<lambda>t. is_ok (mv_render v t (create_policy_aware_context a context))) (extract_templates (mv_enc_action v a))
          | None \<Rightarrow> False) names)"
proof (induction names)
  case (Cons name names)
  then obtain a where a: "find_action v name = Some a" by (auto simp: find_action_exists)
  obtain r where r: "validate_single_action_template v m context name = Some r"
    "r = Inr () \<longleftrightarrow> list_all (\<lambda>t. is_ok (mv_render v t (create_policy_aware_context a context))) (extract_templates (mv_enc_action v a))"
    using single_template_ok [OF a] by blast
  show ?case using Cons r a by (cases r) auto
qed simp

text \<open>The result does not depend on a sound cache.\<close>

lemma validate_script_cache:
  assumes "collision_free eng S" "cache_sound eng S cache" "script \<in> S"
  shows "snd (validate_script eng script abi cache) = snd (validate_script eng script abi [])"
    and "cache_sound eng S (fst (validate_script eng script abi cache))"
proof -
  have "snd (analyze_script eng script cache) = snd (analyze_script eng script [])"
    using analyze_script_sound(1) [OF assms] analyze_script_sound(1) [OF assms(1) cache_sound_empty assms(3)] by simp
  then show "snd (validate_script eng script abi cache) = snd (validate_script eng script abi [])"
    by (auto simp: validate_script_def split: prod.splits sum.splits)
  show "cache_sound eng S (fst (validate_script eng script abi cache))"
    using analyze_script_sound(2) [OF assms] by (auto simp: validate_script_def split: prod.splits sum.splits)
qed

lemma monitor_validate_cache:
  assumes "monitor_validate v m cache = Some (c, r)"
  shows "c = cache \<or> c = fst (validate_script (mv_engine v) (mc_filter_script m) (monitor_abi v m) cache)"
proof (cases "bindR (validate_network v m) (\<lambda>_. bindR (validate_actions v m) (\<lambda>_. parse_and_validate_address v m))")
  case (Inr p)
  obtain addr g where p: "p = (addr, g)" by (cases p)
  have "parse_and_validate_address v m = Inr (addr, g)" using Inr p by (auto simp: result_simps)
  then have "get_monitor_abi_json v m addr = monitor_abi v m" using parse_address_ok [THEN iffD1] by (fastforce simp: monitor_abi_def)
  then show ?thesis using assms Inr p
    by (auto simp: monitor_validate_def Let_def split: prod.splits sum.splits)
qed (use assms in \<open>simp add: monitor_validate_def\<close>)

lemma monitor_validate_iff:
  "\<exists>c r. monitor_validate v m cache = Some (c, r) \<and>
     (r = Inr () \<longleftrightarrow>
        mc_network m = mv_network_id v \<and> list_all (action_exists v) (mc_actions m) \<and> address_ok v m \<and>
        (case snd (validate_script (mv_engine v) (mc_filter_script m) (monitor_abi v m) cache) of
           Inr res \<Rightarrow>
             (\<not> sa_accesses_log_variable (sr_ast_analysis res) \<or>
                mc_address m \<noteq> None \<and> mc_abi_name m \<noteq> None \<and> monitor_abi v m \<noteq> None) \<and>
             (\<not> sa_accesses_call_variable (sr_ast_analysis res) \<or> mc_abi_name m \<noteq> None \<and> has_concrete_address m)
         | Inl _ \<Rightarrow> False) \<and>
        templates_render v m)"
proof (cases "bindR (validate_network v m) (\<lambda>_. bindR (validate_actions v m) (\<lambda>_. parse_and_validate_address v m))")
  case (Inl e)
  then have "\<not> (mc_network m = mv_network_id v \<and> list_all (action_exists v) (mc_actions m) \<and> address_ok v m)"
    using parse_address_total [of v m] validate_actions_ok [of v m]
    by (auto simp: validate_network_def result_simps)
  then show ?thesis using Inl by (auto simp: monitor_validate_def)
next
  case (Inr p)
  obtain addr g where p: "p = (addr, g)" by (cases p)
  have pre: "mc_network m = mv_network_id v" "list_all (action_exists v) (mc_actions m)" "parse_and_validate_address v m = Inr (addr, g)"
    using Inr p validate_actions_ok [of v m] by (auto simp: validate_network_def result_simps split: if_splits)
  note addr = parse_address_ok [THEN iffD1, OF pre(3)]
  have abi: "get_monitor_abi_json v m addr = monitor_abi v m" using addr by (simp add: monitor_abi_def)
  obtain c r where s: "validate_script (mv_engine v) (mc_filter_script m) (monitor_abi v m) cache = (c, r)" by fastforce
  obtain t where tmpl: "validate_templates v m (monitor_abi v m) = Some t" "t = Inr () \<longleftrightarrow> templates_render v m"
    using templates_of_ok [OF pre(2), of m "generate_dummy_context v m (monitor_abi v m)"]
    unfolding validate_templates_def templates_render_def by blast
  show ?thesis
  proof (cases r)
    case (Inl e)
    then show ?thesis using Inr p s abi by (simp add: monitor_validate_def)
  next
    case res: (Inr res)
    let ?rules = "bindR (validate_script_and_abi_rules m res g (monitor_abi v m \<noteq> None)) (\<lambda>_.
        if sa_accesses_call_variable (sr_ast_analysis res) then validate_calldata m else Inr ())"
    have run: "monitor_validate v m cache = (case ?rules of Inl e \<Rightarrow> Some (c, Inl e) | Inr _ \<Rightarrow> Some (c, t))"
      using Inr p s abi res tmpl(1) by (auto simp: monitor_validate_def Let_def split: sum.splits)
    have "?rules = Inr () \<longleftrightarrow>
       (\<not> sa_accesses_log_variable (sr_ast_analysis res) \<or> mc_address m \<noteq> None \<and> mc_abi_name m \<noteq> None \<and> monitor_abi v m \<noteq> None) \<and>
       (\<not> sa_accesses_call_variable (sr_ast_analysis res) \<or> mc_abi_name m \<noteq> None \<and> has_concrete_address m)"
      using rules_ok [of m res "monitor_abi v m \<noteq> None"] calldata_ok [of m] addr by (simp add: result_simps)
    then show ?thesis using run s res pre(1,2) addr tmpl(2) by (cases ?rules) auto
  qed
qed

definition variables_supported :: "'ast monitor_validator \<Rightarrow> monitor_config \<Rightarrow> 'ast script_analysis \<Rightarrow> bool" where
  "variables_supported v m a =
     ((if sa_accesses_log_variable a then mc_address m \<noteq> None \<and> mc_abi_name m \<noteq> None \<and> monitor_abi v m \<noteq> None else True) \<and>
      (if sa_accesses_call_variable a then mc_abi_name m \<noteq> None \<and> has_concrete_address m else True))"

text \<open>C35. Validation of a monitor always returns, whatever sound cache of compiled scripts it finds, and leaves a sound cache. It accepts exactly
  the monitors of this network whose actions all exist, whose address is absent, the word all or well formed, whose script validates against its
  ABI, which have an address and a known ABI if the script reads the log, a concrete address and an ABI name if it reads the call, and
  whose templates all render. So an ABI name that the service does not know is accepted when the script does not read the log, although
  the user guide says that a specified ABI must exist.\<close>

theorem monitor_validate_accepts:
  assumes "collision_free (mv_engine v) S" "cache_sound (mv_engine v) S cache" "mc_filter_script m \<in> S"
  shows "\<exists>c r. monitor_validate v m cache = Some (c, r) \<and> cache_sound (mv_engine v) S c \<and>
     (r = Inr () \<longleftrightarrow>
        mc_network m = mv_network_id v \<and> list_all (action_exists v) (mc_actions m) \<and> address_ok v m \<and>
        (case snd (validate_script (mv_engine v) (mc_filter_script m) (monitor_abi v m) []) of
           Inr res \<Rightarrow> variables_supported v m (sr_ast_analysis res)
         | Inl _ \<Rightarrow> False) \<and>
        templates_render v m)"
proof -
  note same = validate_script_cache [OF assms, of "monitor_abi v m"]
  have supported: "((\<not> sa_accesses_log_variable (sr_ast_analysis res) \<or> mc_address m \<noteq> None \<and> mc_abi_name m \<noteq> None \<and> monitor_abi v m \<noteq> None) \<and>
      (\<not> sa_accesses_call_variable (sr_ast_analysis res) \<or> mc_abi_name m \<noteq> None \<and> has_concrete_address m)) =
    variables_supported v m (sr_ast_analysis res)" for res
    by (simp add: variables_supported_def)
  obtain c r where r: "monitor_validate v m cache = Some (c, r)"
    "r = Inr () \<longleftrightarrow> mc_network m = mv_network_id v \<and> list_all (action_exists v) (mc_actions m) \<and> address_ok v m \<and>
      (case snd (validate_script (mv_engine v) (mc_filter_script m) (monitor_abi v m) []) of
         Inr res \<Rightarrow> variables_supported v m (sr_ast_analysis res)
       | Inl _ \<Rightarrow> False) \<and> templates_render v m"
    using monitor_validate_iff [of v m cache] unfolding same(1) supported by (elim exE conjE) (rule that)
  then show ?thesis using monitor_validate_cache [OF r(1)] same(2) assms(2) by auto
qed

text \<open>An unknown ABI passes when the script reads no log.\<close>

lemma unknown_abi_accepted:
  assumes "mc_abi_name m = Some n" "get_abi_by_name (mv_abi_service v) n = None" "mc_network m = mv_network_id v" "mc_actions m = []" "address_ok v m"
    and "snd (validate_script (mv_engine v) (mc_filter_script m) None cache) = Inr res"
    and "\<not> sa_accesses_log_variable (sr_ast_analysis res)" "\<not> sa_accesses_call_variable (sr_ast_analysis res)"
  shows "\<exists>c. monitor_validate v m cache = Some (c, Inr ())"
proof -
  have "monitor_abi v m = None" using assms(1,2) by (simp add: monitor_abi_def get_monitor_abi_json_def)
  then show ?thesis using monitor_validate_iff [of v m cache] assms by (auto simp: templates_render_def)
qed

text \<open>An accepted monitor whose script reads the log names an ABI that the service knows.\<close>

lemma accepted_log_script_abi:
  assumes "monitor_validate v m cache = Some (c, Inr ())"
    and "snd (validate_script (mv_engine v) (mc_filter_script m) (monitor_abi v m) cache) = Inr res" "sa_accesses_log_variable (sr_ast_analysis res)"
  obtains n where "mc_abi_name m = Some n" "get_abi_by_name (mv_abi_service v) n \<noteq> None"
  using monitor_validate_iff [of v m cache] assms by (auto simp: monitor_abi_def get_monitor_abi_json_def)

definition abi_stored :: "db \<Rightarrow> monitor_config \<Rightarrow> bool" where
  "abi_stored s m \<longleftrightarrow> (case mc_abi_name m of None \<Rightarrow> True | Some n \<Rightarrow> map_of (db_abis s) n \<noteq> None)"

text \<open>C36. What becomes of a monitor accepted for creation, on a store that answers and holds the ABIs of the service: its network and name
  do not clash, and if it names no ABI or one that the store holds, inserting it succeeds and it reads back as the last monitor of its network. That is so
  whenever its script reads the log. An accepted monitor whose script does not read the log may name an ABI that does not exist; then the
  insertion is refused with a foreign key error and the monitors stay as they are.\<close>

theorem validated_monitor_stored:
  assumes acc: "validate_for_create v m cache s = Some (t, c, Inr ())" and "faultless s"
    and known: "\<And>n. get_abi_by_name (mv_abi_service v) n \<noteq> None \<Longrightarrow> map_of (db_abis s) n \<noteq> None"
  shows "(if abi_stored s m
      then \<exists>u ms i. add_monitors env (mv_network_id v) [m] t = (u, Inr ()) \<and> snd (get_monitors (mv_network_id v) u) = Inr (ms @ [i]) \<and>
        mon_name i = mc_name m \<and> mon_actions i = mc_actions m \<and> mon_filter_script i = mc_filter_script m \<and> mon_status i = mc_status m
      else \<exists>u. add_monitors env (mv_network_id v) [m] t = (u, Inl (OperationFailed ''FOREIGN KEY constraint failed'')) \<and>
        db_monitors u = db_monitors s) \<and>
    (\<forall>res. snd (validate_script (mv_engine v) (mc_filter_script m) (monitor_abi v m) cache) = Inr res \<longrightarrow>
       sa_accesses_log_variable (sr_ast_analysis res) \<longrightarrow> abi_stored s m)"
proof -
  let ?net = "mv_network_id v" and ?mine = "\<lambda>r. mr_network r = mv_network_id v"
  have no_error: "r = Inr ()" if "map_err BusinessLogic r = Inr ()" for r :: "monitor_validation_error + unit" using that by (cases r) simp_all
  obtain existing where net: "mc_network m = ?net" and g: "get_monitors ?net s = (t, Inr existing)"
    and fresh: "\<not> list_ex (\<lambda>x. mon_name x = mc_name m) existing" and valid: "monitor_validate v m cache = Some (c, Inr ())"
    using acc by (auto simp: validate_for_create_def dest!: no_error split: if_splits prod.splits sum.splits)
  have t: "t = s\<lparr>db_queries := Suc (db_queries s)\<rparr>" and rows: "traverse monitor_of_row (filter ?mine (db_monitors s)) = Inr existing"
    using g by (auto simp: get_monitors_def result_simps select_Inr)
  have name: "mon_name x = mr_name r" if "monitor_of_row r = Inr x" for r x
    using that by (auto simp: monitor_of_row_def result_simps)
  have no_row: "\<not> (\<exists>r \<in> set (db_monitors s). mr_network r = mc_network m \<and> mr_name r = mc_name m)"
  proof
    assume "\<exists>r \<in> set (db_monitors s). mr_network r = mc_network m \<and> mr_name r = mc_name m"
    then obtain r where r: "r \<in> set (filter ?mine (db_monitors s))" "mr_name r = mc_name m" using net by auto
    then obtain x where "x \<in> set existing" "monitor_of_row r = Inr x" using traverse_Inr_imp [OF rows r(1)] by blast
    then show False using fresh name r(2) by (auto simp: list_ex_iff)
  qed
  have stored: "\<exists>u ms i. add_monitors env ?net [m] t = (u, Inr ()) \<and> snd (get_monitors ?net u) = Inr (ms @ [i]) \<and>
      mon_name i = mc_name m \<and> mon_actions i = mc_actions m \<and> mon_filter_script i = mc_filter_script m \<and> mon_status i = mc_status m"
    if abi: "abi_stored s m"
  proof -
    define r where "r = \<lparr>mr_monitor_id = next_rowid env (db_monitors_seq s), mr_name = mc_name m, mr_network = mc_network m,
       mr_address = mc_address m, mr_abi_name = mc_abi_name m, mr_filter_script = mc_filter_script m,
       mr_actions = actions_to_json (mc_actions m), mr_created_at = db_clock s, mr_updated_at = db_clock s, mr_status = mc_status m\<rparr>"
    define u where "u = s\<lparr>db_monitors := db_monitors s @ [r], db_monitors_seq := mr_monitor_id r, db_queries := db_queries s + 4\<rparr>"
    have ins: "insert_monitor env m (s\<lparr>db_queries := n\<rparr>) =
        (s\<lparr>db_monitors := db_monitors s @ [r], db_monitors_seq := mr_monitor_id r, db_queries := n\<rparr>, Inr ())" for n
      using no_row abi by (simp add: insert_monitor_def r_def Let_def abi_stored_def split: option.splits)
    have "add_monitors env ?net [m] t = (u, Inr ())"
      using net assms(2) by (simp add: add_monitors_def transaction_Inr t exec_def ins u_def Let_def faultless_def)
    moreover obtain i where i: "monitor_of_row r = Inr i" "mon_name i = mc_name m" "mon_actions i = mc_actions m"
      "mon_filter_script i = mc_filter_script m" "mon_status i = mc_status m"
      by (simp add: monitor_of_row_def row_actions_def r_def)
    moreover have "snd (get_monitors ?net u) = Inr (existing @ [i])"
    proof -
      have "traverse monitor_of_row (filter ?mine (db_monitors s) @ [r]) = Inr (existing @ [i])"
        unfolding traverse_Inr_iff using rows [unfolded traverse_Inr_iff] i(1) by (intro list_all2_appendI) simp_all
      then show ?thesis using assms(2) net
        by (simp add: get_monitors_def select_def exec_def u_def r_def Let_def faultless_def bindS_def)
    qed
    ultimately show ?thesis by blast
  qed
  have refused: "\<exists>u. add_monitors env ?net [m] t = (u, Inl (OperationFailed ''FOREIGN KEY constraint failed'')) \<and> db_monitors u = db_monitors s"
    if missing: "\<not> abi_stored s m"
  proof -
    obtain n where n: "mc_abi_name m = Some n" "map_of (db_abis s) n = None" using missing by (auto simp: abi_stored_def split: option.splits)
    have ins: "insert_monitor env m (s\<lparr>db_queries := k\<rparr>) = (s\<lparr>db_queries := k\<rparr>, Inl ''FOREIGN KEY constraint failed'')" for k
      using no_row n by (simp add: insert_monitor_def)
    show ?thesis using net assms(2)
      by (simp add: add_monitors_def transaction_def modify_def exec_def t ins rollback_def bindS_def Let_def faultless_def)
  qed
  have "abi_stored s m" if reads: "snd (validate_script (mv_engine v) (mc_filter_script m) (monitor_abi v m) cache) = Inr res"
    "sa_accesses_log_variable (sr_ast_analysis res)" for res
  proof -
    obtain n where "mc_abi_name m = Some n" "get_abi_by_name (mv_abi_service v) n \<noteq> None" by (rule accepted_log_script_abi [OF valid reads])
    then show ?thesis using known [of n] by (simp add: abi_stored_def)
  qed
  then show ?thesis using stored refused by (cases "abi_stored s m") (simp_all only: if_True if_False, blast+)
qed

section \<open>The dummy context\<close>

text \<open>The context of template validation always has a log and a decoded call, also for monitors that only ever produce
  transaction matches, whose payload has no log.\<close>

lemma dummy_context_has_log:
  "json_get ''log'' (generate_dummy_context v m abi) \<noteq> None"
  "mm_match_data x = TxMatch d \<Longrightarrow> json_get ''log'' (monitor_match_to_json c x) = None"
  by (simp_all add: generate_dummy_context_def monitor_match_to_json_def build_def set_decoded_call_def log_match_def with_match_data_def
      match_data_fields_def Let_def split: option.splits)

text \<open>The dummy value of an array of integers is that of an integer.\<close>

lemma dummy_integer_array: "create_dummy_value_for_type ''uint256[]'' = create_dummy_value_for_type ''uint256''"
  by (simp add: create_dummy_value_for_type_def)

section \<open>Witnesses\<close>

definition sample_validator :: "string monitor_validator" where
  "sample_validator = \<lparr>mv_network_id = ''mainnet'', mv_actions = [], mv_engine = sample_engine\<lparr>eng_analyze := (\<lambda>a. \<lparr>ar_accessed_variables = [], ar_local_variables = [], ar_string_comparisons = []\<rparr>)\<rparr>,
     mv_abi_service = abi_service_new,
     mv_parse_address = (\<lambda>_. None), mv_render = (\<lambda>t _. Inr t), mv_enc_action = (\<lambda>_. JNull), mv_codec = hex_codec,
     mv_rhai_lib = \<lparr>rl_checksum = (\<lambda>a. show_hex (unat a)), rl_show_address = (\<lambda>a. show_hex (unat a)),
       rl_show_hash = enc_hash hex_codec, rl_hex_encode = (\<lambda>bs. concat (map (show_hex \<circ> unat) bs)),
       rl_u256_to_bigint = (\<lambda>n. DBigInt (int n)), rl_i256_to_bigint = DBigInt\<rparr>\<rparr>"

definition sample_new_monitor :: monitor_config where
  "sample_new_monitor = monitor_from_config ''large'' ''mainnet'' None None ''true'' []"

lemma sample_accepted: "\<exists>c. monitor_validate sample_validator sample_new_monitor [] = Some (c, Inr ())"
  by (simp add: monitor_validate_def sample_validator_def sample_new_monitor_def monitor_from_config_def validate_network_def
      validate_actions_def parse_and_validate_address_def get_monitor_abi_json_def validate_script_def analyze_script_def
      analyze_fresh_def sample_engine_def validate_analysis_def validate_return_type_def validate_script_and_abi_rules_def
      validate_templates_def accesses_root_def Let_def)

theorem validated_monitor_stored_witness:
  "\<exists>u ms i. add_monitors sample_env ''mainnet'' [sample_new_monitor] (empty_db\<lparr>db_queries := 1\<rparr>) = (u, Inr ()) \<and>
     snd (get_monitors ''mainnet'' u) = Inr (ms @ [i]) \<and> mon_name i = ''large''"
proof -
  obtain c where c: "monitor_validate sample_validator sample_new_monitor [] = Some (c, Inr ())" using sample_accepted by blast
  have net: "mc_network sample_new_monitor = ''mainnet''" "mv_network_id sample_validator = ''mainnet''"
    "mc_name sample_new_monitor = ''large''" "mc_abi_name sample_new_monitor = None"
    by (simp_all add: sample_new_monitor_def monitor_from_config_def sample_validator_def)
  have ok: "validate_for_create sample_validator sample_new_monitor [] empty_db = Some (empty_db\<lparr>db_queries := 1\<rparr>, c, Inr ())"
    using c net by (simp add: validate_for_create_def get_monitors_def select_def exec_def empty_db_def bindS_def)
  have "\<exists>u ms i. add_monitors sample_env (mv_network_id sample_validator) [sample_new_monitor] (empty_db\<lparr>db_queries := 1\<rparr>) = (u, Inr ()) \<and>
      snd (get_monitors (mv_network_id sample_validator) u) = Inr (ms @ [i]) \<and> mon_name i = mc_name sample_new_monitor \<and>
      mon_actions i = mc_actions sample_new_monitor \<and> mon_filter_script i = mc_filter_script sample_new_monitor \<and>
      mon_status i = mc_status sample_new_monitor"
    using validated_monitor_stored [OF ok empty_db_faultless, of sample_env]
    by (simp add: net sample_validator_def abi_service_new_def get_abi_by_name_def abi_stored_def)
  then show ?thesis unfolding net by blast
qed

theorem monitor_validate_accepts_witness:
  "\<exists>c. monitor_validate sample_validator sample_new_monitor [] = Some (c, Inr ()) \<and> cache_sound (mv_engine sample_validator) {''true''} c"
proof -
  obtain c where c: "monitor_validate sample_validator sample_new_monitor [] = Some (c, Inr ())" using sample_accepted by blast
  have "collision_free (mv_engine sample_validator) {''true''}" "mc_filter_script sample_new_monitor \<in> {''true''}"
    by (simp_all add: collision_free_def sample_new_monitor_def monitor_from_config_def)
  with monitor_validate_accepts [of sample_validator "{''true''}" "[]" sample_new_monitor] c show ?thesis
    by (simp add: cache_sound_empty)
qed

text \<open>The same monitor with an ABI that does not exist is accepted and cannot be stored.\<close>

lemma unknown_abi_not_stored:
  defines "m \<equiv> sample_new_monitor\<lparr>mc_abi_name := Some ''missing''\<rparr>"
  shows "\<exists>c u. validate_for_create sample_validator m [] empty_db = Some (empty_db\<lparr>db_queries := 1\<rparr>, c, Inr ()) \<and>
    add_monitors sample_env ''mainnet'' [m] (empty_db\<lparr>db_queries := 1\<rparr>) = (u, Inl (OperationFailed ''FOREIGN KEY constraint failed''))"
proof -
  have "\<exists>c. monitor_validate sample_validator m [] = Some (c, Inr ())"
    by (simp add: m_def monitor_validate_def sample_validator_def sample_new_monitor_def monitor_from_config_def validate_network_def
        validate_actions_def parse_and_validate_address_def get_monitor_abi_json_def validate_script_def analyze_script_def abi_service_new_def
        get_abi_by_name_def analyze_fresh_def sample_engine_def validate_analysis_def validate_return_type_def validate_script_and_abi_rules_def
        validate_templates_def accesses_root_def Let_def)
  then obtain c where "monitor_validate sample_validator m [] = Some (c, Inr ())" by blast
  then have "validate_for_create sample_validator m [] empty_db = Some (empty_db\<lparr>db_queries := 1\<rparr>, c, Inr ())"
    by (simp add: validate_for_create_def get_monitors_def select_def exec_def empty_db_def bindS_def m_def sample_new_monitor_def
        monitor_from_config_def sample_validator_def)
  moreover have "\<exists>u. add_monitors sample_env ''mainnet'' [m] (empty_db\<lparr>db_queries := 1\<rparr>) = (u, Inl (OperationFailed ''FOREIGN KEY constraint failed''))"
    by (simp add: m_def sample_new_monitor_def monitor_from_config_def add_monitors_def transaction_def modify_def exec_def
        insert_monitor_def rollback_def bindS_def Let_def empty_db_def)
  ultimately show ?thesis by blast
qed

end
