(* ===== verification/Argus_Context.thy ===== *)
theory Argus_Context
  imports Argus_Validator Argus_Config
begin

text \<open>
  Start-up, \<open>src/src/context\<close> and \<open>src/src/loader\<close>: the YAML loader with its expansion of environment
  variables, the synchronisation of ABI files, the initial block state and the loading of actions, monitors and
  ABIs. Their order in \<open>AppContextBuilder::build\<close> is in \<open>Argus_Startup\<close>.

  The file system and the environment are the record \<open>loader_env\<close>; the YAML parser, the ABI parser and the
  services that only wrap connections are parameters. Error texts
  keep what the code writes itself; the rendered cause is dropped.
\<close>

section \<open>The loader\<close>

datatype loader_error = IoError string | ParseError string | UnsupportedFormat | MissingEnvVar string

record loader_env =
  le_read :: "string \<Rightarrow> string + string"
  le_var :: "string \<Rightarrow> string option"

text \<open>\<open>Path::file_name\<close>, \<open>extension\<close> and \<open>file_stem\<close>: the part after the last slash, split at the last dot
  unless that dot is its first character.\<close>

definition file_name :: "string \<Rightarrow> string" where
  "file_name path = rev (takeWhile (\<lambda>c. c \<noteq> CHR ''/'') (rev path))"

definition split_last_dot :: "string \<Rightarrow> (string \<times> string) option" where
  "split_last_dot s =
     (let ext = rev (takeWhile (\<lambda>c. c \<noteq> CHR ''.'') (rev s));
          stem = take (length s - length ext - 1) s
      in if CHR ''.'' \<notin> set s \<or> stem = [] then None else Some (stem, ext))"

definition path_extension :: "string \<Rightarrow> string option" where
  "path_extension path = map_option snd (split_last_dot (file_name path))"

definition file_stem :: "string \<Rightarrow> string" where
  "file_stem path = (case split_last_dot (file_name path) of Some (stem, _) \<Rightarrow> stem | None \<Rightarrow> file_name path)"

definition is_yaml_file :: "string \<Rightarrow> bool" where
  "is_yaml_file path \<longleftrightarrow> path_extension path \<in> {Some ''yaml'', Some ''yml''}"

definition is_key_char :: "char \<Rightarrow> bool" where
  "is_key_char c \<longleftrightarrow>
     (of_char c :: nat) \<in> {65..90} \<or> (of_char c :: nat) \<in> {48..57} \<or> c = CHR ''_''"

text \<open>A match of the pattern at the head of the text: the key and what follows the closing brace.\<close>

definition match_var :: "string \<Rightarrow> (string \<times> string) option" where
  "match_var s =
     (case s of
        a # b # rest \<Rightarrow>
          (let key = takeWhile is_key_char rest
           in if a = CHR ''$'' \<and> b = CHR ''{'' \<and> key \<noteq> [] \<and> starts_with (dropWhile is_key_char rest) ''}''
              then Some (key, tl (dropWhile is_key_char rest)) else None)
      | _ \<Rightarrow> None)"

lemma match_var_shorter [termination_simp]: "match_var s = Some (key, rest) \<Longrightarrow> length rest < length s"
  by (auto simp: match_var_def Let_def split: list.splits if_splits) (metis diff_le_self le_trans length_dropWhile_le less_SucI less_Suc_eq_le)

fun expand_env_vars :: "(string \<Rightarrow> string option) \<Rightarrow> string \<Rightarrow> loader_error + string" where
  "expand_env_vars var s =
     (case match_var s of
        Some (key, rest) \<Rightarrow>
          (case var key of
             None \<Rightarrow> Inl (MissingEnvVar key)
           | Some v \<Rightarrow> mapR ((@) v) (expand_env_vars var rest))
      | None \<Rightarrow> (case s of [] \<Rightarrow> Inr [] | c # cs \<Rightarrow> mapR ((#) c) (expand_env_vars var cs)))"

declare expand_env_vars.simps [simp del]

definition config_load :: "loader_env \<Rightarrow> (string \<Rightarrow> string \<Rightarrow> string + 'a list) \<Rightarrow> string \<Rightarrow> string \<Rightarrow> loader_error + 'a list" where
  "config_load env parse path key =
     (if \<not> is_yaml_file path then Inl UnsupportedFormat
      else
        bindR (map_err IoError (le_read env path)) (\<lambda>s.
        bindR (expand_env_vars (le_var env) s) (\<lambda>expanded. map_err ParseError (parse expanded key))))"

definition load_config ::
  "loader_env \<Rightarrow> (string \<Rightarrow> string \<Rightarrow> string + 'a list) \<Rightarrow> (loader_error \<Rightarrow> 'e) \<Rightarrow> ('a \<Rightarrow> 'e + unit) \<Rightarrow> string \<Rightarrow> string \<Rightarrow> 'e + 'a list" where
  "load_config env parse from_loader validate path key =
     bindR (map_err from_loader (config_load env parse path key)) (\<lambda>items.
       mapR (\<lambda>_. items) (traverse validate items))"

section \<open>Errors and services\<close>

datatype initialization_error =
    MonitorLoad string
  | ActionLoad string
  | AbiLoad string
  | BlockStateInitialization string
  | AlertManagerInitialization string

datatype action_config_error = ActionLoader loader_error | ActionValidation action_type_config_error

record 'ast context_env =
  cx_loader :: loader_env
  cx_store :: store_env
  cx_parse_actions :: "string \<Rightarrow> string \<Rightarrow> string + action_config list"
  cx_parse_monitors :: "string \<Rightarrow> string \<Rightarrow> string + monitor_config list"
  cx_url_domain :: "url \<Rightarrow> string option"
  cx_parse_abi :: "string \<Rightarrow> json_abi option"
  cx_engine :: "'ast script_engine"
  cx_registry :: "abi_service \<Rightarrow> registry_env"
  cx_validator :: "abi_service \<Rightarrow> action_config list \<Rightarrow> 'ast monitor_validator"
  cx_abi_lib :: abi_lib
  cx_parse_address :: "string \<Rightarrow> address option"

definition init_err :: "(string \<Rightarrow> initialization_error) \<Rightarrow> string \<Rightarrow> 'a dbop \<Rightarrow> (db, initialization_error, 'a) op" where
  "init_err k msg m s = map_prod id (map_err (\<lambda>_. k msg)) (m s)"

section \<open>Block state\<close>

definition start_block :: "app_config \<Rightarrow> u64 \<Rightarrow> u64" where
  "start_block cfg latest =
     min (case ac_initial_start_block cfg of
            Latest \<Rightarrow> latest | Absolute n \<Rightarrow> n | Offset d \<Rightarrow> saturating_add_signed latest d)
         (saturating_sub latest (ac_confirmation_blocks cfg))"

definition initialize_block_state :: "app_config \<Rightarrow> string + u64 \<Rightarrow> (db, initialization_error, unit) op" where
  "initialize_block_state cfg node =
     bindS (init_err BlockStateInitialization ''Failed to fetch latest processed block from DB''
              (get_last_processed_block (ac_network_id cfg))) (\<lambda>latest_block.
       if latest_block \<noteq> None then retS ()
       else
         bindS (liftS (map_err (\<lambda>_. BlockStateInitialization ''Failed to fetch latest block number from provider'') node)) (\<lambda>latest.
           init_err BlockStateInitialization ''Failed to set latest processed block in DB''
             (set_last_processed_block (ac_network_id cfg) (saturating_sub (start_block cfg latest) 1))))"

section \<open>Actions and monitors\<close>

definition load_actions_from_file :: "'ast context_env \<Rightarrow> app_config \<Rightarrow> (db, initialization_error, unit) op" where
  "load_actions_from_file env cfg =
     bindS (init_err ActionLoad ''Failed to fetch existing actions from DB'' (get_actions (cx_store env) (ac_network_id cfg))) (\<lambda>existing.
       if existing \<noteq> [] then retS ()
       else
         bindS (liftS (map_err (\<lambda>_. ActionLoad ''Failed to load actions from file'')
                  (load_config (cx_loader env) (cx_parse_actions env) ActionLoader
                     (\<lambda>a. map_err ActionValidation (validate_action_type (cx_url_domain env) (ac_config a)))
                     (ac_action_config_path cfg) ''actions''))) (\<lambda>actions.
         bindS (init_err ActionLoad ''Failed to clear existing actions in DB'' (clear_actions (ac_network_id cfg))) (\<lambda>_.
           foldS (\<lambda>a. init_err ActionLoad ''Failed to add action to DB''
             (bindS (create_action (cx_store env) (ac_network_id cfg) a) (\<lambda>_. retS ()))) actions)))"

text \<open>Validation of the monitors of the file, with the compiler's cache; \<open>None\<close> is a panic of the validator.\<close>

fun validate_all ::
  "'ast monitor_validator \<Rightarrow> monitor_config list \<Rightarrow> 'ast script_cache \<Rightarrow> ('ast script_cache \<times> (initialization_error + unit)) option" where
  "validate_all v [] cache = Some (cache, Inr ())"
| "validate_all v (m # ms) cache =
     Option.bind (monitor_validate v m cache) (\<lambda>(c, r).
       case r of
         Inl _ \<Rightarrow> Some (c, Inl (MonitorLoad (''Monitor validation failed for '' @ mc_name m)))
       | Inr _ \<Rightarrow> validate_all v ms c)"

definition load_monitors_from_file ::
  "'ast context_env \<Rightarrow> app_config \<Rightarrow> abi_service \<Rightarrow> 'ast script_cache \<Rightarrow> db \<Rightarrow> (db \<times> 'ast script_cache \<times> (initialization_error + unit)) option" where
  "load_monitors_from_file env cfg sv cache s =
     (case init_err MonitorLoad ''Failed to fetch existing monitors from DB'' (get_monitors (ac_network_id cfg)) s of
        (s, Inl e) \<Rightarrow> Some (s, cache, Inl e)
      | (s, Inr existing) \<Rightarrow>
          if existing \<noteq> [] then Some (s, cache, Inr ())
          else
            (case load_config (cx_loader env) (cx_parse_monitors env) id (\<lambda>_. Inr ()) (ac_monitor_config_path cfg) ''monitors'' of
               Inl _ \<Rightarrow> Some (s, cache, Inl (MonitorLoad ''Failed to load monitors from file''))
             | Inr monitors \<Rightarrow>
                 (case init_err MonitorLoad ''Failed to fetch actions for monitor validation'' (get_actions (cx_store env) (ac_network_id cfg)) s of
                    (s, Inl e) \<Rightarrow> Some (s, cache, Inl e)
                  | (s, Inr actions) \<Rightarrow>
                      Option.bind (validate_all (cx_validator env sv actions) monitors cache) (\<lambda>(c, r).
                        case r of
                          Inl e \<Rightarrow> Some (s, c, Inl e)
                        | Inr _ \<Rightarrow>
                            (case bindS (init_err MonitorLoad ''Failed to clear existing monitors in DB'' (clear_monitors (ac_network_id cfg))) (\<lambda>_.
                                    init_err MonitorLoad ''Failed to add monitors to DB''
                                      (add_monitors (cx_store env) (ac_network_id cfg) monitors)) s of
                               (s, r) \<Rightarrow> Some (s, c, r))))))"

section \<open>ABIs\<close>

record dir_entry =
  de_path :: string
  de_is_file :: bool

text \<open>The ABI directory: absent, unreadable, or its entries, each of which may fail.\<close>

definition sync_entry :: "loader_env \<Rightarrow> dir_entry \<Rightarrow> (db, initialization_error, unit) op" where
  "sync_entry env e =
     (if de_is_file e \<and> path_extension (de_path e) = Some ''json'' then
        bindS (init_err AbiLoad (''Failed to check if ABI exists in database: '' @ file_stem (de_path e)) (get_abi (file_stem (de_path e)))) (\<lambda>found.
          if found \<noteq> None then retS ()
          else
            bindS (liftS (map_err (\<lambda>_. AbiLoad (''Failed to read ABI file '' @ de_path e)) (le_read env (de_path e)))) (\<lambda>content.
              init_err AbiLoad (''Failed to sync ABI to database: '' @ file_stem (de_path e)) (create_abi (file_stem (de_path e)) content)))
      else retS ())"

definition sync_abis_from_filesystem ::
  "loader_env \<Rightarrow> (string + (string + dir_entry) list) option \<Rightarrow> (db, initialization_error, unit) op" where
  "sync_abis_from_filesystem env dir =
     (case dir of
        None \<Rightarrow> retS ()
      | Some (Inl _) \<Rightarrow> errS (AbiLoad ''Failed to scan ABI directory'')
      | Some (Inr entries) \<Rightarrow>
          foldS (\<lambda>e. case e of Inl _ \<Rightarrow> errS (AbiLoad ''Failed to read ABI directory entry'') | Inr d \<Rightarrow> sync_entry env d) entries)"

datatype abi_repository_error = AbiParseError string | DatabaseError persistence_error

definition abi_repository_new :: "(string \<Rightarrow> json_abi option) \<Rightarrow> (db, abi_repository_error, (string \<times> json_abi) list) op" where
  "abi_repository_new parse_abi s =
     (case get_all_abis s of
        (t, Inl e) \<Rightarrow> (t, Inl (DatabaseError e))
      | (t, Inr records) \<Rightarrow>
          (t, mapR collect_map (traverse (\<lambda>(name, text). mapR (Pair name) (ok_or (AbiParseError name) (parse_abi text))) records)))"

definition link_monitor_abi ::
  "abi_lib \<Rightarrow> (string \<Rightarrow> address option) \<Rightarrow> monitor \<Rightarrow> abi_service \<Rightarrow> (abi_service \<times> (initialization_error + unit)) option" where
  "link_monitor_abi lib parse_address m sv =
     (case (mon_address m, mon_abi_name m) of
        (Some addr, Some abi) \<Rightarrow>
          if eq_ignore_ascii_case addr ''all'' then
            map_option (\<lambda>r. case r of
                Inl _ \<Rightarrow> (sv, Inl (AbiLoad (''Failed to add global ABI '' @ abi)))
              | Inr sv' \<Rightarrow> (sv', Inr ())) (add_global_abi lib abi sv)
          else
            (case parse_address addr of
               None \<Rightarrow> Some (sv, Inl (AbiLoad (''Failed to parse address for monitor '' @ mon_name m)))
             | Some a \<Rightarrow>
                 map_option (\<lambda>r. case r of
                     Inl _ \<Rightarrow> (sv, Inl (AbiLoad (''Failed to link ABI '' @ abi)))
                   | Inr sv' \<Rightarrow> (sv', Inr ())) (link_abi lib a abi sv))
      | _ \<Rightarrow> Some (sv, Inr ()))"

fun link_monitor_abis ::
  "abi_lib \<Rightarrow> (string \<Rightarrow> address option) \<Rightarrow> monitor list \<Rightarrow> abi_service \<Rightarrow> (abi_service \<times> (initialization_error + unit)) option" where
  "link_monitor_abis lib parse_address [] sv = Some (sv, Inr ())"
| "link_monitor_abis lib parse_address (m # ms) sv =
     Option.bind (link_monitor_abi lib parse_address m sv) (\<lambda>(sv', r).
       case r of Inl e \<Rightarrow> Some (sv', Inl e) | Inr _ \<Rightarrow> link_monitor_abis lib parse_address ms sv')"

definition load_abis_from_monitors ::
  "'ast context_env \<Rightarrow> app_config \<Rightarrow> abi_service \<Rightarrow> db \<Rightarrow> (db \<times> abi_service \<times> (initialization_error + unit)) option" where
  "load_abis_from_monitors env cfg sv s =
     (case init_err AbiLoad ''Failed to fetch monitors for ABI loading'' (get_monitors (ac_network_id cfg)) s of
        (t, Inl e) \<Rightarrow> Some (t, sv, Inl e)
      | (t, Inr monitors) \<Rightarrow> map_option (Pair t) (link_monitor_abis (cx_abi_lib env) (cx_parse_address env) monitors sv))"

section \<open>Errors, provider and store\<close>

datatype app_context_error =
    ContextConfig string
  | Persistence persistence_error
  | AbiRepository abi_repository_error
  | ContextProvider string
  | Initialization initialization_error

text \<open>The stack of layers over the RPC transports: the fallback layer uses all of them at once.\<close>

record provider_stack =
  ps_transports :: "string list"
  ps_active_transports :: nat
  ps_retry :: rpc_retry_config

definition create_provider :: "string list \<Rightarrow> rpc_retry_config \<Rightarrow> app_context_error + provider_stack" where
  "create_provider urls retry =
     (if urls = [] then Inl (ContextProvider ''RPC URL list cannot be empty'')
      else Inr \<lparr>ps_transports = urls, ps_active_transports = length urls, ps_retry = retry\<rparr>)"

definition apply_overrides :: "initial_start_block option \<Rightarrow> string option \<Rightarrow> app_config \<Rightarrow> app_config" where
  "apply_overrides from_block url cfg =
     (let cfg1 = (case from_block of Some b \<Rightarrow> cfg\<lparr>ac_initial_start_block := b\<rparr> | None \<Rightarrow> cfg)
      in case url of Some u \<Rightarrow> cfg1\<lparr>ac_database_url := u\<rparr> | None \<Rightarrow> cfg1)"

text \<open>The steps that only touch the database, then those that also fill the services.\<close>

definition prepare_store ::
  "'ast context_env \<Rightarrow> app_config \<Rightarrow> (string + (string + dir_entry) list) option \<Rightarrow> (db, app_context_error, abi_service) op" where
  "prepare_store env cfg dir s =
     (case sync_abis_from_filesystem (cx_loader env) dir s of
        (s, Inl e) \<Rightarrow> (s, Inl (Initialization e))
      | (s, Inr _) \<Rightarrow>
          (case abi_repository_new (cx_parse_abi env) s of
             (s, Inl e) \<Rightarrow> (s, Inl (Initialization (AbiLoad ''Failed to initialize ABI repository from database'')))
           | (s, Inr abis) \<Rightarrow> (s, Inr (from_named_abis abis))))"

section \<open>Environment variables\<close>

text \<open>Text without the pattern is left alone; a value is inserted as it is and not expanded again.\<close>

lemma expand_env_vars_plain: "CHR ''$'' \<notin> set s \<Longrightarrow> expand_env_vars var s = Inr s"
proof (induction s)
  case (Cons c s)
  then have "match_var (c # s) = None" by (auto simp: match_var_def split: list.splits)
  then show ?case using Cons by (simp add: expand_env_vars.simps [of var "c # s"])
qed (simp add: expand_env_vars.simps match_var_def)

lemma expand_env_vars_hit:
  assumes "list_all is_key_char key" "key \<noteq> []" "var key = Some v"
  shows "expand_env_vars var (''${'' @ key @ ''}'' @ rest) = mapR ((@) v) (expand_env_vars var rest)"
proof -
  have "\<not> is_key_char CHR ''}''" by (simp add: is_key_char_def)
  then have "takeWhile is_key_char (key @ ''}'' @ rest) = key" "dropWhile is_key_char (key @ ''}'' @ rest) = ''}'' @ rest"
    using assms(1) by (simp_all add: list_all_iff takeWhile_append2 dropWhile_append2)
  then have "match_var (''${'' @ key @ ''}'' @ rest) = Some (key, rest)" using assms(2) by (simp add: match_var_def)
  then show ?thesis using assms(3) by (subst expand_env_vars.simps) simp
qed

section \<open>Where monitoring starts\<close>

lemma get_last_faultless:
  "faultless s \<Longrightarrow> snd (get_last_processed_block net s) =
     (case map_of (db_processed s) net of
        None \<Rightarrow> Inr None
      | Some n \<Rightarrow> if 0 \<le> n then Inr (Some (word_of_int n)) else Inl (OperationFailed ''out of range integral type conversion attempted''))"
  by (auto simp: get_last_processed_block_def select_def exec_def bindS_def Let_def faultless_def split: option.splits)

lemma get_last_fst: "fst (get_last_processed_block net s) = s\<lparr>db_queries := Suc (db_queries s)\<rparr>"
  by (auto simp: get_last_processed_block_def fst_bindS select_def exec_def Let_def split: option.splits prod.splits sum.splits)

text \<open>C37. The block state of a first start: nothing is changed when a last processed block is already stored; otherwise the block before the
  configured start is stored, so the first block ingested is the start block, or block 1 when that is block 0, and it is never beyond
  the confirmed head.\<close>

theorem start_block_confirmed:
  assumes "faultless s" "node = Inr latest" "uint latest \<le> i64_max"
  shows "case snd (get_last_processed_block (ac_network_id cfg) s) of
      Inl _ \<Rightarrow> \<exists>t e. initialize_block_state cfg node s = (t, Inl e)
    | Inr (Some n) \<Rightarrow> initialize_block_state cfg node s = (s\<lparr>db_queries := Suc (db_queries s)\<rparr>, Inr ())
    | Inr None \<Rightarrow>
        \<exists>t n. initialize_block_state cfg node s = (t, Inr ()) \<and> snd (get_last_processed_block (ac_network_id cfg) t) = Inr (Some n) \<and>
          unat (n + 1) = max 1 (unat (start_block cfg latest)) \<and> start_block cfg latest \<le> saturating_sub latest (ac_confirmation_blocks cfg)"
proof -
  let ?net = "ac_network_id cfg" and ?s = "s\<lparr>db_queries := Suc (db_queries s)\<rparr>"
  obtain r where g: "get_last_processed_block ?net s = (?s, r)" using get_last_fst [of ?net s] by (metis prod.collapse)
  define n where "n = saturating_sub (start_block cfg latest) 1"
  have le: "start_block cfg latest \<le> saturating_sub latest (ac_confirmation_blocks cfg)" by (simp add: start_block_def)
  show ?thesis
  proof (cases "r = Inr None")
    case True
    have "unat (start_block cfg latest) \<le> unat latest" using le by (simp add: word_le_nat_alt)
    then have "n \<le> latest" by (simp add: word_le_nat_alt n_def)
    then have small: "uint n \<le> i64_max" using assms(3) unfolding word_le_def by linarith
    let ?t = "?s\<lparr>db_processed := AList.update ?net (uint n) (db_processed s), db_queries := Suc (Suc (db_queries s))\<rparr>"
    have set: "set_last_processed_block ?net n ?s = (?t, Inr ())"
      using assms(1) small unfolding set_last_processed_block_def by (auto simp: modify_Inr faultless_def not_less)
    have get: "snd (get_last_processed_block ?net ?t) = Inr (Some n)"
      using get_last_faultless [of ?t ?net] assms(1) by (simp add: faultless_def update_conv')
    have "initialize_block_state cfg node s = (?t, Inr ())"
      using g True set assms(2) unfolding n_def by (simp add: initialize_block_state_def bindS_def init_err_def)
    moreover have "unat (n + 1) = max 1 (unat (start_block cfg latest))"
    proof -
      have "uint n \<le> 9223372036854775807" using small by (simp add: i64_max_def)
      then have "unat n \<le> 9223372036854775807" unfolding uint_nat by linarith
      then have "unat n + unat (1 :: u64) < 2 ^ 64" by simp
      then have "unat (n + 1) = unat n + 1" by (simp add: unat_plus_no_overflow)
      then show ?thesis by (simp add: n_def)
    qed
    moreover note get
    ultimately show ?thesis using g True le by auto
  next
    case False
    then show ?thesis using g
      by (cases r) (auto simp: initialize_block_state_def bindS_def init_err_def split: option.splits)
  qed
qed

section \<open>ABIs of the stored monitors\<close>

lemma linked_iff:
  "(case z of Inl _ \<Rightarrow> (sv, Inl b) | Inr x \<Rightarrow> (x, Inr ())) = (sv', r) \<longleftrightarrow>
     (\<exists>e. z = Inl e \<and> sv' = sv \<and> r = Inl b) \<or> (z = Inr sv' \<and> r = Inr ())"
  by (cases z) auto

lemma link_monitor_abi_keeps:
  assumes "link_monitor_abi lib pa m sv = Some (sv', r)"
  shows "is_monitored sv a \<Longrightarrow> is_monitored sv' a" "has_global_abi sv n \<Longrightarrow> has_global_abi sv' n"
  using assms
  by (auto simp: linked_iff link_monitor_abi_def link_abi_def add_global_abi_def is_monitored_def has_global_abi_def update_conv'
      split: option.splits if_splits sum.split_asm)

lemma link_monitor_abi_links:
  assumes "link_monitor_abi lib pa m sv = Some (sv', Inr ())" "mon_address m = Some addr" "mon_abi_name m = Some abi"
  shows "if eq_ignore_ascii_case addr ''all'' then has_global_abi sv' abi else \<exists>a. pa addr = Some a \<and> is_monitored sv' a"
  using assms
  by (auto simp: linked_iff link_monitor_abi_def link_abi_def add_global_abi_def is_monitored_def has_global_abi_def update_conv'
      split: option.splits if_splits sum.split_asm)

lemma link_monitor_abis_links:
  assumes "link_monitor_abis lib pa ms sv = Some (sv', Inr ())" 
  shows "(\<forall>a. is_monitored sv a \<longrightarrow> is_monitored sv' a) \<and> (\<forall>n. has_global_abi sv n \<longrightarrow> has_global_abi sv' n) \<and>
    (\<forall>m \<in> set ms. \<forall>addr abi. mon_address m = Some addr \<longrightarrow> mon_abi_name m = Some abi \<longrightarrow>
      (if eq_ignore_ascii_case addr ''all'' then has_global_abi sv' abi else \<exists>a. pa addr = Some a \<and> is_monitored sv' a))"
  using assms
proof (induction ms arbitrary: sv)
  case (Cons m ms)
  obtain sv1 where l: "link_monitor_abi lib pa m sv = Some (sv1, Inr ())" "link_monitor_abis lib pa ms sv1 = Some (sv', Inr ())"
    using Cons.prems by (auto split: bind_splits sum.splits)
  note IH = Cons.IH [OF l(2)]
  show ?case
  proof (intro conjI allI ballI impI)
    fix a assume "is_monitored sv a" then show "is_monitored sv' a" using IH link_monitor_abi_keeps(1) [OF l(1)] by blast
  next
    fix n assume "has_global_abi sv n" then show "has_global_abi sv' n" using IH link_monitor_abi_keeps(2) [OF l(1)] by blast
  next
    fix x addr abi assume x: "x \<in> set (m # ms)" "mon_address x = Some addr" "mon_abi_name x = Some abi"
    show "if eq_ignore_ascii_case addr ''all'' then has_global_abi sv' abi else \<exists>a. pa addr = Some a \<and> is_monitored sv' a"
    proof (cases "x \<in> set ms")
      case False
      then have "x = m" using x(1) by simp
      then have "if eq_ignore_ascii_case addr ''all'' then has_global_abi sv1 abi else \<exists>a. pa addr = Some a \<and> is_monitored sv1 a"
        using link_monitor_abi_links [OF l(1)] x(2,3) by blast
      then show ?thesis using IH by (auto split: if_splits)
    qed (use IH x in blast)
  qed
qed simp

text \<open>A start that succeeds can decode: every monitor of the snapshot's network that names an address and an ABI has that address
  linked in the ABI service, and every global one has its ABI in the global index.\<close>

lemma startup_links_abis:
  assumes "load_abis_from_monitors env cfg sv s = Some (t, sv', Inr ())" "snd (get_monitors (ac_network_id cfg) s) = Inr ms"
    and "m \<in> set ms" "mon_address m = Some addr" "mon_abi_name m = Some abi"
  shows "if eq_ignore_ascii_case addr ''all'' then has_global_abi sv' abi
    else \<exists>a. cx_parse_address env addr = Some a \<and> is_monitored sv' a"
proof -
  have "link_monitor_abis (cx_abi_lib env) (cx_parse_address env) ms sv = Some (sv', Inr ())"
    using assms(1,2) by (cases "get_monitors (ac_network_id cfg) s") (auto simp: load_abis_from_monitors_def init_err_def)
  from link_monitor_abis_links [OF this] assms(3-5) show ?thesis by blast
qed

section \<open>Witnesses\<close>

theorem start_block_confirmed_witness:
  "\<exists>t n. initialize_block_state (sample_app_config\<lparr>ac_initial_start_block := Absolute 12\<rparr>) (Inr 20) empty_db = (t, Inr ()) \<and>
     snd (get_last_processed_block ''mainnet'' t) = Inr (Some n) \<and> unat (n + 1) = 12"
proof -
  let ?cfg = "sample_app_config\<lparr>ac_initial_start_block := Absolute 12\<rparr>"
  have cfg: "ac_network_id ?cfg = ''mainnet''" "start_block ?cfg 20 = 12"
    by (simp_all add: sample_app_config_def start_block_def saturating_sub_def)
  have none: "snd (get_last_processed_block ''mainnet'' empty_db) = Inr None"
    using get_last_faultless [OF empty_db_faultless] by (simp add: empty_db_def)
  show ?thesis
    using start_block_confirmed [OF empty_db_faultless refl, of 20 ?cfg] unfolding cfg none by (auto simp: i64_max_def)
qed

definition sample_context_env :: "string context_env" where
  "sample_context_env = \<lparr>cx_loader = \<lparr>le_read = (\<lambda>_. Inr []), le_var = (\<lambda>_. None)\<rparr>, cx_store = sample_env,
     cx_parse_actions = (\<lambda>_ _. Inr []), cx_parse_monitors = (\<lambda>_ _. Inr []), cx_url_domain = (\<lambda>_. None),
     cx_parse_abi = (\<lambda>_. Some transfer_abi), cx_engine = sample_engine, cx_registry = (\<lambda>sv. sample_registry_env\<lparr>re_abi_service := sv\<rparr>),
     cx_validator = (\<lambda>sv as. sample_validator\<lparr>mv_abi_service := sv, mv_actions := as\<rparr>), cx_abi_lib = sample_lib,
     cx_parse_address = (\<lambda>s. if s = ''0x9'' then Some 9 else None)\<rparr>"

definition sample_linked_db :: db where
  "sample_linked_db = empty_db\<lparr>db_abis := [(''erc20'', ''[]'')],
     db_monitors := [\<lparr>mr_monitor_id = 1, mr_name = ''m'', mr_network = ''mainnet'', mr_address = Some ''0x9'',
       mr_abi_name = Some ''erc20'', mr_filter_script = ''true'', mr_actions = actions_to_json [],
       mr_created_at = 0, mr_updated_at = 0, mr_status = Active\<rparr>]\<rparr>"

lemma startup_links_abis_example:
  "\<exists>t sv. load_abis_from_monitors sample_context_env sample_app_config (from_named_abis [(''erc20'', transfer_abi)]) sample_linked_db =
     Some (t, sv, Inr ()) \<and> is_monitored sv 9"
proof -
  let ?env = sample_context_env and ?cfg = sample_app_config and ?sv = "from_named_abis [(''erc20'', transfer_abi)]"
  let ?m = "\<lparr>mon_id = 1, mon_name = ''m'', mon_network = ''mainnet'', mon_address = Some ''0x9'', mon_abi_name = Some ''erc20'',
    mon_filter_script = ''true'', mon_actions = [], mon_created_at = 0, mon_updated_at = 0, mon_status = Active\<rparr>"
  have na: "\<not> eq_ignore_ascii_case ''0x9'' ''all''" by code_simp
  have net: "ac_network_id ?cfg = ''mainnet''" by (simp add: sample_app_config_def)
  have get: "get_monitors ''mainnet'' sample_linked_db = (sample_linked_db\<lparr>db_queries := 1\<rparr>, Inr [?m])"
    by (simp add: get_monitors_def select_def exec_def bindS_def sample_linked_db_def empty_db_def monitor_of_row_def row_actions_def)
  obtain sv where "link_monitor_abis (cx_abi_lib ?env) (cx_parse_address ?env) [?m] ?sv = Some (sv, Inr ())"
    by (simp add: link_monitor_abi_def na sample_context_env_def link_abi_def lookup_named_abi_def get_abi_by_name_def from_named_abis_def
        abi_service_new_def register_abi_def cached_contract_from_def transfer_abi_def parse_input_types_def)
  then have load: "load_abis_from_monitors ?env ?cfg ?sv sample_linked_db = Some (sample_linked_db\<lparr>db_queries := 1\<rparr>, sv, Inr ())"
    by (simp add: load_abis_from_monitors_def init_err_def net get)
  have "if eq_ignore_ascii_case ''0x9'' ''all'' then has_global_abi sv ''erc20''
      else \<exists>a. cx_parse_address ?env ''0x9'' = Some a \<and> is_monitored sv a"
    by (rule startup_links_abis [OF load, of "[?m]" ?m]) (simp_all add: net get)
  then have "is_monitored sv 9" by (simp add: na sample_context_env_def)
  then show ?thesis using load by blast
qed

text \<open>An ABI text that does not parse stops every later start: the repository is built from all stored texts.\<close>

lemma unparsable_abi_stops_start:
  assumes "faultless s" "(name, text) \<in> set (db_abis s)" "parse_abi text = None"
  shows "\<exists>t n. abi_repository_new parse_abi s = (t, Inl (AbiParseError n))"
proof -
  have "\<exists>n. traverse (\<lambda>(name, text). mapR (Pair name) (ok_or (AbiParseError name) (parse_abi text))) rs = Inl (AbiParseError n)"
    if "(name, text) \<in> set rs" for rs
    using that
  proof (induction rs)
    case (Cons r rs)
    then show ?case using assms(3) by (cases "parse_abi (snd r)") (auto split: prod.splits)
  qed simp
  then obtain n where "traverse (\<lambda>(name, text). mapR (Pair name) (ok_or (AbiParseError name) (parse_abi text))) (db_abis s) = Inl (AbiParseError n)"
    using assms(2) by blast
  then show ?thesis using assms(1) by (simp add: abi_repository_new_def get_all_abis_def select_def exec_def faultless_def Let_def)
qed

end
