(* ===== verification/Argus_Api.thy ===== *)
theory Argus_Api
  imports Argus_Validator Argus_Config
begin

text \<open>
  The HTTP API, \<open>crates/argus-api/src/http_server\<close>: the handlers over the repository and the validators, the
  authentication middleware, the conversion of errors into responses and the routing table.

  A handler takes the state to the state after it and its result. The notification of configuration changes is a counter and a flag that says
  whether a receiver is left. Parsing of requests and rendering of responses belong to the web framework; the version and
  the uptime of the status page are its arguments. \<open>None\<close> is a panic.
\<close>

section \<open>State, errors and responses\<close>

record 'ast api_state =
  api_config :: app_config
  api_db :: db
  api_cache :: "'ast script_cache"
  api_notified :: nat

record 'ast api_env =
  ae_store :: store_env
  ae_validator :: "'ast monitor_validator"
  ae_url_domain :: "url \<Rightarrow> string option"
  ae_json_text :: "string \<Rightarrow> string + string"
  ae_receiver :: bool
  ae_latest_block :: "u64 \<times> u64"
  ae_version :: string
  ae_uptime :: u64

datatype api_error =
    Unauthorized
  | ApiNotFound string
  | UnprocessableEntity string
  | Conflict string
  | ActionInUse "string list"
  | ApiAbiInUse "string list"
  | InternalServerError string

datatype api_body =
    BMonitors "monitor list"
  | BMonitor monitor
  | BStatusText string
  | BActions "action_config list"
  | BAction action_config
  | BAbis "string list"
  | BAbi string string
  | BStatus string network_id u64 u64 u64
  | BEmpty

definition api_error_of_persistence :: "persistence_error \<Rightarrow> api_error" where
  "api_error_of_persistence e =
     (case e of
        NotFound \<Rightarrow> ApiNotFound ''Resource not found''
      | AbiInUse ms \<Rightarrow> ApiAbiInUse ms
      | _ \<Rightarrow> InternalServerError ''persistence error'')"

definition api_error_of_action :: "action_validation_error \<Rightarrow> api_error" where
  "api_error_of_action e =
     (case e of
        Configuration _ \<Rightarrow> UnprocessableEntity ''invalid action configuration''
      | ActionNameConflict name \<Rightarrow> Conflict (''Action with name '' @ quote name @ '' already exists.'')
      | ActionPersistence NotFound \<Rightarrow> ApiNotFound ''Action not found''
      | ActionPersistence _ \<Rightarrow> InternalServerError ''persistence error'')"

definition api_error_of_monitor :: "monitor_persistence_error \<Rightarrow> api_error" where
  "api_error_of_monitor e =
     (case e of
        BusinessLogic _ \<Rightarrow> UnprocessableEntity ''invalid monitor''
      | MonitorPersistence p \<Rightarrow> api_error_of_persistence p
      | MonitorNameConflict name \<Rightarrow> Conflict (''Monitor with name '' @ quote name @ '' already exists.''))"

definition status_of_error :: "api_error \<Rightarrow> nat" where
  "status_of_error e =
     (case e of
        Unauthorized \<Rightarrow> 401 | InternalServerError _ \<Rightarrow> 500 | ApiNotFound _ \<Rightarrow> 404 | UnprocessableEntity _ \<Rightarrow> 422
      | Conflict _ \<Rightarrow> 409 | ActionInUse _ \<Rightarrow> 409 | ApiAbiInUse _ \<Rightarrow> 409)"

section \<open>Handlers\<close>

type_synonym ('ast, 'a) handler = "('ast api_state, api_error, 'a) op"

definition db_op :: "'a dbop \<Rightarrow> ('ast, 'a) handler" where
  "db_op m st = (case m (api_db st) of (s, r) \<Rightarrow> (st\<lparr>api_db := s\<rparr>, map_err api_error_of_persistence r))"

definition api_net :: "'ast api_state \<Rightarrow> network_id" where
  "api_net st = ac_network_id (api_config st)"

text \<open>\<open>config_tx.send(()).ok()\<close>, and the variant of the monitor handlers that reports a missing receiver.\<close>

definition notify :: "'ast api_env \<Rightarrow> ('ast, unit) handler" where
  "notify env st = (if ae_receiver env then st\<lparr>api_notified := Suc (api_notified st)\<rparr> else st, Inr ())"

definition notify_or_fail :: "'ast api_env \<Rightarrow> ('ast, unit) handler" where
  "notify_or_fail env st =
     (if ae_receiver env then (st\<lparr>api_notified := Suc (api_notified st)\<rparr>, Inr ())
      else (st, Inl (InternalServerError ''Failed to notify configuration change'')))"

definition api_get_monitors :: "('ast, nat \<times> api_body) handler" where
  "api_get_monitors st = bindS (db_op (Argus_Store.get_monitors (api_net st))) (\<lambda>ms. retS (200, BMonitors ms)) st"

definition api_get_monitor_details :: "string \<Rightarrow> ('ast, nat \<times> api_body) handler" where
  "api_get_monitor_details i st =
     bindS (db_op (get_monitor_by_id (api_net st) i)) (\<lambda>m.
       case m of Some x \<Rightarrow> retS (200, BMonitor x) | None \<Rightarrow> errS (ApiNotFound ''Monitor not found'')) st"

definition api_update_monitor :: "'ast api_env \<Rightarrow> string \<Rightarrow> monitor_config \<Rightarrow> 'ast api_state \<Rightarrow> ('ast api_state \<times> (api_error + nat \<times> api_body)) option" where
  "api_update_monitor env i m st =
     map_option (\<lambda>(s, c, r).
       case r of
         Inl e \<Rightarrow> (st\<lparr>api_db := s, api_cache := c\<rparr>, Inl (api_error_of_monitor e))
       | Inr _ \<Rightarrow>
           bindS (db_op (update_monitor (ae_store env) (api_net st) i m)) (\<lambda>_.
           bindS (notify_or_fail env) (\<lambda>_. retS (200, BStatusText ''Monitors update triggered''))) (st\<lparr>api_db := s, api_cache := c\<rparr>))
       (validate_for_update (ae_validator env) i m (api_cache st) (api_db st))"

definition api_create_monitor :: "'ast api_env \<Rightarrow> monitor_config \<Rightarrow> 'ast api_state \<Rightarrow> ('ast api_state \<times> (api_error + nat \<times> api_body)) option" where
  "api_create_monitor env m st =
     map_option (\<lambda>(s, c, r).
       case r of
         Inl e \<Rightarrow> (st\<lparr>api_db := s, api_cache := c\<rparr>, Inl (api_error_of_monitor e))
       | Inr _ \<Rightarrow>
           bindS (db_op (add_monitors (ae_store env) (api_net st) [m])) (\<lambda>_.
           bindS (notify_or_fail env) (\<lambda>_. retS (201, BStatusText ''Monitor creation triggered''))) (st\<lparr>api_db := s, api_cache := c\<rparr>))
       (validate_for_create (ae_validator env) m (api_cache st) (api_db st))"

definition api_delete_monitor :: "'ast api_env \<Rightarrow> string \<Rightarrow> ('ast, nat \<times> api_body) handler" where
  "api_delete_monitor env i st =
     bindS (db_op (delete_monitor (ae_store env) (api_net st) i)) (\<lambda>_.
     bindS (notify_or_fail env) (\<lambda>_. retS (204, BStatusText ''Monitor deletion triggered''))) st"

definition api_update_monitor_status :: "'ast api_env \<Rightarrow> string \<Rightarrow> monitor_status \<Rightarrow> ('ast, nat \<times> api_body) handler" where
  "api_update_monitor_status env i status st =
     bindS (db_op (update_monitor_status (ae_store env) (api_net st) i status)) (\<lambda>_.
     bindS (notify_or_fail env) (\<lambda>_. retS (200, BStatusText ''Monitor status update triggered''))) st"

definition api_upload_abi :: "'ast api_env \<Rightarrow> string \<Rightarrow> string \<Rightarrow> ('ast, nat \<times> api_body) handler" where
  "api_upload_abi env name abi st =
     (case ae_json_text env abi of
        Inl e \<Rightarrow> (st, Inl (UnprocessableEntity (''Invalid ABI JSON: '' @ e)))
      | Inr text \<Rightarrow>
          bindS (db_op (get_abi name)) (\<lambda>found.
            if found \<noteq> None then errS (Conflict (''ABI with name '' @ quote name @ '' already exists.''))
            else bindS (db_op (create_abi name text)) (\<lambda>_. retS (201, BAbi name text))) st)"

definition api_get_abi_by_name :: "string \<Rightarrow> ('ast, nat \<times> api_body) handler" where
  "api_get_abi_by_name name =
     bindS (db_op (get_abi name)) (\<lambda>found.
       case found of Some text \<Rightarrow> retS (200, BAbi name text) | None \<Rightarrow> errS (ApiNotFound ''ABI not found''))"

definition api_list_abis :: "('ast, nat \<times> api_body) handler" where
  "api_list_abis = bindS (db_op list_abis) (\<lambda>names. retS (200, BAbis names))"

definition api_delete_abi :: "string \<Rightarrow> ('ast, nat \<times> api_body) handler" where
  "api_delete_abi name = bindS (db_op (delete_abi name)) (\<lambda>_. retS (204, BEmpty))"

definition api_get_actions :: "'ast api_env \<Rightarrow> ('ast, nat \<times> api_body) handler" where
  "api_get_actions env st = bindS (db_op (get_actions (ae_store env) (api_net st))) (\<lambda>xs. retS (200, BActions xs)) st"

definition api_get_action_details :: "'ast api_env \<Rightarrow> i64 \<Rightarrow> ('ast, nat \<times> api_body) handler" where
  "api_get_action_details env i st =
     bindS (db_op (get_action_by_id (ae_store env) (api_net st) i)) (\<lambda>a.
       case a of Some x \<Rightarrow> retS (200, BAction x) | None \<Rightarrow> errS (ApiNotFound ''Action not found'')) st"

definition action_check :: "(db, action_validation_error, unit) op \<Rightarrow> ('ast, unit) handler" where
  "action_check m st = (case m (api_db st) of (s, r) \<Rightarrow> (st\<lparr>api_db := s\<rparr>, map_err api_error_of_action r))"

definition api_create_action :: "'ast api_env \<Rightarrow> action_config \<Rightarrow> ('ast, nat \<times> api_body) handler" where
  "api_create_action env a st =
     bindS (action_check (action_validate_for_create (ae_store env) (ae_url_domain env) (api_net st) a)) (\<lambda>_.
     bindS (db_op (create_action (ae_store env) (api_net st) a)) (\<lambda>x.
     bindS (notify env) (\<lambda>_. retS (201, BAction x)))) st"

definition api_update_action :: "'ast api_env \<Rightarrow> i64 \<Rightarrow> action_config \<Rightarrow> ('ast, nat \<times> api_body) handler" where
  "api_update_action env i a0 st =
     (let a = a0\<lparr>ac_id := Some i\<rparr>
      in bindS (action_check (action_validate_for_update (ae_store env) (ae_url_domain env) (api_net st) a)) (\<lambda>_.
         bindS (db_op (update_action (ae_store env) (api_net st) a)) (\<lambda>x.
         bindS (notify env) (\<lambda>_. retS (200, BAction x)))) st)"

definition api_delete_action :: "'ast api_env \<Rightarrow> i64 \<Rightarrow> ('ast, nat \<times> api_body) handler" where
  "api_delete_action env i st =
     bindS (db_op (get_monitors_by_action_id (ae_store env) (api_net st) i)) (\<lambda>ms.
       if ms \<noteq> [] then errS (ActionInUse (map mc_name ms))
       else
         bindS (db_op (delete_action (api_net st) i)) (\<lambda>_.
         bindS (notify env) (\<lambda>_. retS (204, BEmpty)))) st"

definition api_status :: "'ast api_env \<Rightarrow> ('ast, nat \<times> api_body) handler" where
  "api_status env st =
     (st, Inr (200, BStatus (ae_version env) (api_net st) (ae_uptime env) (fst (ae_latest_block env)) (snd (ae_latest_block env))))"

section \<open>Authentication and routing\<close>

definition auth :: "app_config \<Rightarrow> string option \<Rightarrow> (api_error + unit) option" where
  "auth cfg header =
     (case Option.bind header (\<lambda>h. strip_prefix h ''Bearer '') of
        None \<Rightarrow> Some (Inl Unauthorized)
      | Some token \<Rightarrow>
          (case sc_api_key (ac_server cfg) of
             None \<Rightarrow> None
           | Some key \<Rightarrow> Some (if token = key then Inr () else Inl Unauthorized)))"

datatype api_request =
    Health
  | Status
  | CreateMonitor monitor_config
  | GetMonitors
  | GetMonitor string
  | DeleteMonitor string
  | UpdateMonitor string monitor_config
  | UpdateMonitorStatus string monitor_status
  | UploadAbi string string
  | ListAbis
  | GetAbi string
  | DeleteAbi string
  | GetActions
  | GetAction i64
  | CreateAction action_config
  | UpdateAction i64 action_config
  | DeleteAction i64

text \<open>The routes that carry the authentication layer.\<close>

definition needs_auth :: "api_request \<Rightarrow> bool" where
  "needs_auth req =
     (case req of
        CreateMonitor _ \<Rightarrow> True | DeleteMonitor _ \<Rightarrow> True | UpdateMonitor _ _ \<Rightarrow> True | UpdateMonitorStatus _ _ \<Rightarrow> True
      | UploadAbi _ _ \<Rightarrow> True | DeleteAbi _ \<Rightarrow> True | CreateAction _ \<Rightarrow> True | UpdateAction _ _ \<Rightarrow> True | DeleteAction _ \<Rightarrow> True
      | _ \<Rightarrow> False)"

definition route :: "'ast api_env \<Rightarrow> api_request \<Rightarrow> 'ast api_state \<Rightarrow> ('ast api_state \<times> (api_error + nat \<times> api_body)) option" where
  "route env req st =
     (case req of
        Health \<Rightarrow> Some (st, Inr (200, BStatusText ''ok''))
      | Status \<Rightarrow> Some (api_status env st)
      | CreateMonitor m \<Rightarrow> api_create_monitor env m st
      | GetMonitors \<Rightarrow> Some (api_get_monitors st)
      | GetMonitor i \<Rightarrow> Some (api_get_monitor_details i st)
      | DeleteMonitor i \<Rightarrow> Some (api_delete_monitor env i st)
      | UpdateMonitor i m \<Rightarrow> api_update_monitor env i m st
      | UpdateMonitorStatus i status \<Rightarrow> Some (api_update_monitor_status env i status st)
      | UploadAbi name abi \<Rightarrow> Some (api_upload_abi env name abi st)
      | ListAbis \<Rightarrow> Some (api_list_abis st)
      | GetAbi name \<Rightarrow> Some (api_get_abi_by_name name st)
      | DeleteAbi name \<Rightarrow> Some (api_delete_abi name st)
      | GetActions \<Rightarrow> Some (api_get_actions env st)
      | GetAction i \<Rightarrow> Some (api_get_action_details env i st)
      | CreateAction a \<Rightarrow> Some (api_create_action env a st)
      | UpdateAction i a \<Rightarrow> Some (api_update_action env i a st)
      | DeleteAction i \<Rightarrow> Some (api_delete_action env i st))"

definition serve ::
  "'ast api_env \<Rightarrow> string option \<Rightarrow> api_request \<Rightarrow> 'ast api_state \<Rightarrow> ('ast api_state \<times> (api_error + nat \<times> api_body)) option" where
  "serve env header req st =
     (if needs_auth req then
        Option.bind (auth (api_config st) header) (\<lambda>r.
          case r of Inl e \<Rightarrow> Some (st, Inl e) | Inr _ \<Rightarrow> route env req st)
      else route env req st)"

section \<open>Who may change what\<close>

definition same_store :: "'ast api_state \<Rightarrow> 'ast api_state \<Rightarrow> bool" where
  "same_store st st' \<longleftrightarrow> same_tables (api_db st) (api_db st') \<and> api_notified st' = api_notified st"

lemma fst_db_then:
  "(\<And>x st. fst (f x st) = st) \<Longrightarrow> fst (bindS (db_op m) f st) = st\<lparr>api_db := fst (m (api_db st))\<rparr>"
  by (auto simp: fst_bindS db_op_def split: prod.splits sum.splits)

lemma fst_option [simp]: "fst ((case x of Some y \<Rightarrow> retS (f y) | None \<Rightarrow> errS e) st) = st"
  by (cases x) simp_all

lemma reads_keep_store:
  "same_store st (fst (api_get_monitors st))" "same_store st (fst (api_get_monitor_details i st))"
  "same_store st (fst (api_list_abis st))" "same_store st (fst (api_get_abi_by_name name st))"
  "same_store st (fst (api_get_actions env st))" "same_store st (fst (api_get_action_details env j st))" "same_store st (fst (api_status env st))"
  by (simp_all add: api_get_monitors_def api_get_monitor_details_def api_list_abis_def api_get_abi_by_name_def api_get_actions_def
      api_get_action_details_def api_status_def fst_db_then same_store_def read_only)

text \<open>C14. Nothing changes without the key: whatever the request and the authorization header, if the header does not carry exactly the
  configured key the tables and the configuration signal are as before; a request on a guarded route is then answered with 401.\<close>

theorem api_needs_key:
  assumes "serve env header req st = Some (st', r)" "\<And>key. sc_api_key (ac_server (api_config st)) = Some key \<Longrightarrow> header \<noteq> Some (''Bearer '' @ key)"
  shows "same_store st st' \<and> (needs_auth req \<longrightarrow> st' = st \<and> (\<exists>e. r = Inl e \<and> status_of_error e = 401))"
proof -
  have strip: "strip_prefix h p = Some t \<longleftrightarrow> h = p @ t" for h p t
    by (induction h p rule: strip_prefix.induct) auto
  show ?thesis
  proof (cases "needs_auth req")
    case True
    then obtain e where "st' = st" "r = Inl e" "e = Unauthorized"
      using assms by (auto simp: serve_def auth_def strip split: bind_splits option.splits sum.splits if_splits)
    then show ?thesis using True by (simp add: same_store_def status_of_error_def)
  next
    case False
    then show ?thesis using assms(1) reads_keep_store [of st]
      by (auto simp: serve_def route_def needs_auth_def same_store_def split: api_request.splits) (metis fst_conv)+
  qed
qed

section \<open>The tables stay consistent\<close>

lemma handler_keeps:
  assumes "\<And>st. P st \<Longrightarrow> P (fst (m st))" "\<And>x st. P st \<Longrightarrow> P (fst (f x st))" "P st"
  shows "P (fst (bindS m f st))"
  using assms by (auto simp: fst_bindS split: prod.splits sum.splits) (metis fst_conv)+

lemma db_op_ok: "(\<And>s. db_ok s \<Longrightarrow> db_ok (fst (m s))) \<Longrightarrow> db_ok (api_db st) \<Longrightarrow> db_ok (api_db (fst (db_op m st)))"
  by (auto simp: db_op_def split: prod.splits) (metis fst_conv)

lemma read_ok: "(\<And>s. same_tables s (fst (m s))) \<Longrightarrow> db_ok s \<Longrightarrow> db_ok (fst (m s))"
  using same_tables_ok by blast

lemma validator_reads:
  "validate_for_create v m cache s = Some (t, c, r) \<Longrightarrow> same_tables s t"
  "validate_for_update v i m cache s = Some (t, c, r) \<Longrightarrow> same_tables s t"
  using read_only(2) [of s "mv_network_id v"]
  by (auto simp: validate_for_create_def validate_for_update_def split: if_splits prod.splits sum.splits)

lemma action_check_ok:
  "db_ok (api_db st) \<Longrightarrow> db_ok (api_db (fst (action_check (action_validate_for_create env d n a) st)))"
  "db_ok (api_db st) \<Longrightarrow> db_ok (api_db (fst (action_check (action_validate_for_update env d n a) st)))"
proof -
  have by_name: "same_tables s (fst (get_action_by_name env n x s))" for s x
    by (simp add: get_action_by_name_def fst_bindS select_def exec_def Let_def split: option.splits)
  have "same_tables s (fst (action_validate_for_create env d n a s))" for s
    using by_name [of s "ac_name a"] by (auto simp: action_validate_for_create_def split: sum.splits prod.splits option.splits)
  then show "db_ok (api_db st) \<Longrightarrow> db_ok (api_db (fst (action_check (action_validate_for_create env d n a) st)))"
    using same_tables_ok by (auto simp: action_check_def split: prod.splits) (metis fst_conv)
  have "same_tables s (fst (action_validate_for_update env d n a s))" for s
  proof (cases "validate_action_type d (ac_config a)"; cases "ac_id a")
    fix u i assume v: "validate_action_type d (ac_config a) = Inr u" "ac_id a = Some i"
    obtain t r where t: "get_action_by_id env n i s = (t, r)" by fastforce
    obtain t' r' where t': "get_action_by_name env n (ac_name a) t = (t', r')" by fastforce
    have "same_tables s t" "same_tables s t'"
      using read_only(7) [of s env n i] by_name [of t "ac_name a"] t t' by (auto intro: same_tables_trans)
    then show ?thesis using v t t' by (auto simp: action_validate_for_update_def split: sum.splits option.splits)
  qed (auto simp: action_validate_for_update_def)
  then show "db_ok (api_db st) \<Longrightarrow> db_ok (api_db (fst (action_check (action_validate_for_update env d n a) st)))"
    using same_tables_ok by (auto simp: action_check_def split: prod.splits) (metis fst_conv)
qed

lemma notify_ok: "db_ok (api_db st) \<Longrightarrow> db_ok (api_db (fst (notify env st)))"
  "db_ok (api_db st) \<Longrightarrow> db_ok (api_db (fst (notify_or_fail env st)))"
  by (simp_all add: notify_def notify_or_fail_def)

lemma by_action_reads: "same_tables s (fst (get_monitors_by_action_id env n i s))"
  using read_only(7) [of s env n i]
  by (auto simp: get_monitors_by_action_id_def fst_bindS select_def exec_def Let_def split: option.splits prod.splits sum.splits
      intro: same_tables_trans)

lemmas handler_ok = handler_keeps [where P = "\<lambda>st. db_ok (api_db st)"] db_op_ok notify_ok action_check_ok

lemma writes_ok:
  assumes "db_ok (api_db st)"
  shows "db_ok (api_db (fst (api_delete_monitor env i st)))" "db_ok (api_db (fst (api_update_monitor_status env i status st)))"
    "db_ok (api_db (fst (api_upload_abi env name abi st)))" "db_ok (api_db (fst (api_delete_abi name st)))"
    "db_ok (api_db (fst (api_create_action env a st)))" "db_ok (api_db (fst (api_update_action env j a st)))"
    "db_ok (api_db (fst (api_delete_action env j st)))"
proof -
  show "db_ok (api_db (fst (api_delete_monitor env i st)))"
    unfolding api_delete_monitor_def by (auto intro!: handler_ok delete_monitor_ok assms)
  show "db_ok (api_db (fst (api_update_monitor_status env i status st)))"
    unfolding api_update_monitor_status_def by (auto intro!: handler_ok update_monitor_status_ok assms)
  show "db_ok (api_db (fst (api_upload_abi env name abi st)))"
    unfolding api_upload_abi_def using assms
    by (auto intro!: handler_ok create_abi_ok read_ok [of "get_abi name"] read_only split: sum.splits)
  show "db_ok (api_db (fst (api_delete_abi name st)))"
    unfolding api_delete_abi_def by (auto intro!: handler_ok delete_abi_ok assms)
  show "db_ok (api_db (fst (api_create_action env a st)))"
    unfolding api_create_action_def by (auto intro!: handler_ok create_action_ok assms)
  show "db_ok (api_db (fst (api_update_action env j a st)))"
    unfolding api_update_action_def Let_def by (auto intro!: handler_ok update_action_ok assms)
  show "db_ok (api_db (fst (api_delete_action env j st)))"
    unfolding api_delete_action_def using assms
    by (auto intro!: handler_ok delete_action_ok read_ok [of "get_monitors_by_action_id _ _ _"] by_action_reads)
qed

lemma monitor_writes_ok:
  "api_create_monitor env m st = Some (st', r) \<Longrightarrow> db_ok (api_db st) \<Longrightarrow> db_ok (api_db st')"
  "api_update_monitor env i m st = Some (st', r) \<Longrightarrow> db_ok (api_db st) \<Longrightarrow> db_ok (api_db st')"
proof -
  have add: "db_ok (api_db st0) \<Longrightarrow> db_ok (api_db (fst (bindS (db_op (add_monitors e n ms)) (\<lambda>_. bindS (notify_or_fail env) (\<lambda>_. retS x)) st0)))"
    for st0 e n ms and x :: "nat \<times> api_body" by (auto intro!: handler_ok add_monitors_ok)
  have upd: "db_ok (api_db st0) \<Longrightarrow> db_ok (api_db (fst (bindS (db_op (update_monitor e n i m)) (\<lambda>_. bindS (notify_or_fail env) (\<lambda>_. retS x)) st0)))"
    for st0 e n and x :: "nat \<times> api_body" by (auto intro!: handler_ok update_monitor_ok)
  { assume run: "api_create_monitor env m st = Some (st', r)" and ok: "db_ok (api_db st)"
    obtain t c v where v: "validate_for_create (ae_validator env) m (api_cache st) (api_db st) = Some (t, c, v)"
      using run by (auto simp: api_create_monitor_def)
    have "db_ok t" using validator_reads(1) [OF v] same_tables_ok ok by blast
    then have after: "db_ok (api_db (st\<lparr>api_db := t, api_cache := c\<rparr>))" by simp
    show "db_ok (api_db st')"
    proof (cases v)
      case (Inl e)
      then show ?thesis using run after by (auto simp: api_create_monitor_def v)
    next
      case (Inr u)
      then show ?thesis using run add [OF after]
        by (simp add: api_create_monitor_def v) (metis fst_conv)
    qed }
  { assume run: "api_update_monitor env i m st = Some (st', r)" and ok: "db_ok (api_db st)"
    obtain t c v where v: "validate_for_update (ae_validator env) i m (api_cache st) (api_db st) = Some (t, c, v)"
      using run by (auto simp: api_update_monitor_def)
    have "db_ok t" using validator_reads(2) [OF v] same_tables_ok ok by blast
    then have after: "db_ok (api_db (st\<lparr>api_db := t, api_cache := c\<rparr>))" by simp
    show "db_ok (api_db st')"
    proof (cases v)
      case (Inl e)
      then show ?thesis using run after by (auto simp: api_update_monitor_def v)
    next
      case (Inr u)
      then show ?thesis using run upd [OF after]
        by (simp add: api_update_monitor_def v) (metis fst_conv)
    qed }
qed

text \<open>C27. No request damages the store: whatever the request, the header and the answers of the validators, and wherever statements fail
  inside a handler, the tables are consistent after it when they were before.\<close>

theorem serve_db_ok:
  assumes "serve env header req st = Some (st', r)" "db_ok (api_db st)"
  shows "db_ok (api_db st')"
proof -
  have "route env req st = Some (st', r) \<or> st' = st"
    using assms(1) by (auto simp: serve_def split: if_splits bind_splits sum.splits)
  then show ?thesis
  proof
    assume "route env req st = Some (st', r)"
    then show ?thesis using writes_ok [OF assms(2)] monitor_writes_ok [OF _ assms(2)] reads_keep_store [of st] same_tables_ok assms(2)
      by (cases req) (auto simp: route_def same_store_def, (metis fst_conv)+)
  qed (use assms(2) in simp)
qed

section \<open>Instances\<close>

definition sample_api_env :: "string api_env" where
  "sample_api_env = \<lparr>ae_store = sample_env, ae_validator = sample_validator, ae_url_domain = (\<lambda>_. None), ae_json_text = Inr, ae_receiver = True,
     ae_latest_block = (0, 0), ae_version = ''0.1.0'', ae_uptime = 0\<rparr>"

definition sample_api_state :: "string api_state" where
  "sample_api_state = \<lparr>api_config = sample_app_config\<lparr>ac_server := (ac_server sample_app_config)\<lparr>sc_api_key := Some ''key''\<rparr>\<rparr>, api_db = empty_db,
     api_cache = [], api_notified = 0\<rparr>"

lemma wrong_key_rejected:
  "serve sample_api_env (Some ''Bearer wrong'') (DeleteAction 1) sample_api_state = Some (sample_api_state, Inl Unauthorized)"
  by (simp add: serve_def needs_auth_def auth_def sample_api_state_def)

theorem api_needs_key_witness:
  "same_store sample_api_state sample_api_state \<and> needs_auth (DeleteAction 1) \<and> (\<exists>e. Inl Unauthorized = (Inl e :: api_error + nat \<times> api_body) \<and> status_of_error e = 401)"
  using api_needs_key [OF wrong_key_rejected] by (auto simp: sample_api_state_def needs_auth_def)

lemma right_key_accepted:
  "serve sample_api_env (Some ''Bearer key'') (UploadAbi ''erc20'' ''[]'') sample_api_state
     = Some (api_upload_abi sample_api_env ''erc20'' ''[]'' sample_api_state)"
  by (simp add: serve_def route_def needs_auth_def auth_def sample_api_state_def)

theorem serve_db_ok_witness:
  "db_ok (api_db (fst (api_upload_abi sample_api_env ''erc20'' ''[]'' sample_api_state)))"
proof -
  obtain st' r where run: "api_upload_abi sample_api_env ''erc20'' ''[]'' sample_api_state = (st', r)" by fastforce
  have "db_ok (api_db sample_api_state)" by (simp add: sample_api_state_def empty_db_ok)
  then show ?thesis using serve_db_ok [OF right_key_accepted [unfolded run]] run by simp
qed

end
