(* ===== verification/Argus_AlertTasks.thy ===== *)
theory Argus_AlertTasks
  imports Argus_Alerts
begin

text \<open>
  The tasks that share an alert manager, \<open>argus-engine/src/alert_manager.rs\<close>, as the supervisor and the commands
  spawn them: any number of tasks that handle batches of matches, and any number of tasks that look for expired windows.

  A step is what a task does between two points where another can come in: taking the lock of an action, reading the clock,
  one critical section on an entry of a \<open>DashMap\<close>, one transaction of the store, releasing the lock. An
  iteration over a \<open>DashMap\<close> takes one entry a step, in any order; entries that appear while it runs may or may not be
  visited. A \<open>DashMap\<close> really holds the lock of a shard for all its entries, so the code has fewer interleavings
  than the model. The outbox processor appears as a step that takes entries out of the outbox, the supervisor as a
  step that aborts a task where it awaits.
\<close>

section \<open>Tasks\<close>

text \<open>A task in \<open>process_matches_batch\<close>: where it is with the head of the matches that are left. From \<open>Locked\<close>
  to \<open>Dispatching\<close> it holds the guard of the head's action.\<close>

datatype processor_point = Idle | Running | Locked | Timed timestamp | Dispatching

record processor_task =
  pt_point :: processor_point
  pt_matches :: "monitor_match list"
  pt_immediate :: "action_payload list"

definition idle_processor :: processor_task where
  "idle_processor = \<lparr>pt_point = Idle, pt_matches = [], pt_immediate = []\<rparr>"

text \<open>A task in \<open>check_and_dispatch_expired_windows\<close>. An iteration carries the keys present when it began and the ones
  it has visited.\<close>

datatype dispatcher_task =
    Waiting
  | Scanning bool timestamp "string list" "string list" "action_payload list"
  | Sending "action_payload list"
  | SavingThrottles "string list" "(string \<times> throttle_state) list"
  | SavingAggregations "string list" "(string \<times> throttle_state) list" "(string \<times> aggregation_state) list"
  | Writing "(string \<times> json) list"

record alert_tasks =
  tk_manager :: alert_manager
  tk_clock :: timestamp
  tk_action_locks :: "string \<Rightarrow> nat option"
  tk_processors :: "nat \<Rightarrow> processor_task"
  tk_dispatchers :: "nat \<Rightarrow> dispatcher_task"
  tk_taken :: "outbox_entry list"
  tk_handed :: "action_payload list"
  tk_verdicts :: "(monitor_match \<times> bool) list"

text \<open>The last three fields only record, for the statements, what the outbox processor has taken out, the payloads the tasks have handed to
  the outbox and the decisions of the throttle. Free locks and locks that were never
  made are the same: \<open>get_action_lock\<close> makes an open one.\<close>

definition alert_tasks_new :: "alert_manager \<Rightarrow> timestamp \<Rightarrow> alert_tasks" where
  "alert_tasks_new am now = \<lparr>tk_manager = am, tk_clock = now, tk_action_locks = (\<lambda>_. None),
     tk_processors = (\<lambda>_. idle_processor), tk_dispatchers = (\<lambda>_. Waiting), tk_taken = [], tk_handed = [], tk_verdicts = []\<rparr>"

section \<open>Steps of a processing task\<close>

definition set_processor :: "nat \<Rightarrow> processor_task \<Rightarrow> alert_tasks \<Rightarrow> alert_tasks" where
  "set_processor i p tk = tk\<lparr>tk_processors := (tk_processors tk)(i := p)\<rparr>"

definition get_action_lock :: "nat \<Rightarrow> string \<Rightarrow> alert_tasks \<Rightarrow> alert_tasks option" where
  "get_action_lock i name tk =
     (case tk_action_locks tk name of
        None \<Rightarrow> Some (tk\<lparr>tk_action_locks := (tk_action_locks tk)(name \<mapsto> i)\<rparr>)
      | Some _ \<Rightarrow> None)"

definition drop_guard :: "string \<Rightarrow> alert_tasks \<Rightarrow> alert_tasks" where
  "drop_guard name tk = tk\<lparr>tk_action_locks := (tk_action_locks tk)(name := None)\<rparr>"

text \<open>Leaving the handler of the head: its guard is dropped and the loop goes on.\<close>

definition next_match :: "nat \<Rightarrow> processor_task \<Rightarrow> alert_tasks \<Rightarrow> alert_tasks" where
  "next_match i p tk =
     set_processor i (p\<lparr>pt_point := Running, pt_matches := tl (pt_matches p)\<rparr>) (drop_guard (mm_action_name (hd (pt_matches p))) tk)"

text \<open>The critical section of \<open>handle_throttle\<close> on the entry of the action.\<close>

definition throttle_section :: "timestamp \<Rightarrow> string \<Rightarrow> throttle_policy \<Rightarrow> alert_manager \<Rightarrow> alert_manager \<times> bool" where
  "throttle_section now name policy am =
     (let st = (case map_of (am_throttle_states am) name of Some st \<Rightarrow> st | None \<Rightarrow> \<lparr>ts_count = 0, ts_window_start_time = now\<rparr>);
          (st', should_dispatch) = throttle_decision policy now st
      in (am\<lparr>am_throttle_states := AList.update name st' (am_throttle_states am)\<rparr>, should_dispatch))"

text \<open>\<open>dispatch_payloads_batch\<close>, whose error the callers log.\<close>

definition hand_over :: "store_env \<Rightarrow> action_payload list \<Rightarrow> alert_tasks \<Rightarrow> alert_tasks" where
  "hand_over env ps tk = tk\<lparr>tk_manager := fst (dispatch_payloads_batch env ps (tk_manager tk)), tk_handed := tk_handed tk @ ps\<rparr>"

definition processor_step :: "store_env \<Rightarrow> nat \<Rightarrow> alert_tasks \<Rightarrow> alert_tasks option" where
  "processor_step env i tk =
     (let p = tk_processors tk i; am = tk_manager tk
      in case pt_matches p of
           [] \<Rightarrow>
             if pt_point p = Running
             then Some (set_processor i idle_processor (hand_over env (pt_immediate p) tk))
             else None
         | m # rest \<Rightarrow>
             (case map_of (am_actions am) (mm_action_name m) of
                None \<Rightarrow> if pt_point p = Running then Some (set_processor i (p\<lparr>pt_matches := rest\<rparr>) tk) else None
              | Some cfg \<Rightarrow>
                  (case (pt_point p, ac_policy cfg) of
                     (Running, None) \<Rightarrow> Some (set_processor i (p\<lparr>pt_matches := rest, pt_immediate := pt_immediate p @ [Single m]\<rparr>) tk)
                   | (Running, Some _) \<Rightarrow>
                       map_option (set_processor i (p\<lparr>pt_point := Locked\<rparr>)) (get_action_lock i (mm_action_name m) tk)
                   | (Locked, Some (Throttle _)) \<Rightarrow> Some (set_processor i (p\<lparr>pt_point := Timed (tk_clock tk)\<rparr>) tk)
                   | (Timed now, Some (Throttle policy)) \<Rightarrow>
                       let (am', should_dispatch) = throttle_section now (mm_action_name m) policy am;
                           tk' = tk\<lparr>tk_manager := am', tk_verdicts := tk_verdicts tk @ [(m, should_dispatch)]\<rparr>
                       in Some (if should_dispatch then set_processor i (p\<lparr>pt_point := Dispatching\<rparr>) tk' else next_match i p tk')
                   | (Dispatching, Some (Throttle _)) \<Rightarrow>
                       Some (next_match i p (hand_over env [Single m] tk))
                   | (Locked, Some (Aggregation _)) \<Rightarrow>
                       Some (next_match i p (tk\<lparr>tk_manager := fst (handle_aggregation (tk_clock tk) m am)\<rparr>))
                   | _ \<Rightarrow> None)))"

text \<open>A batch arrives on the channel.\<close>

definition receive_matches :: "nat \<Rightarrow> monitor_match list \<Rightarrow> alert_tasks \<Rightarrow> alert_tasks option" where
  "receive_matches i ms tk =
     (if pt_point (tk_processors tk i) = Idle
      then Some (set_processor i \<lparr>pt_point = Running, pt_matches = ms, pt_immediate = []\<rparr> tk)
      else None)"

section \<open>Steps of a dispatching task\<close>

definition set_dispatcher :: "nat \<Rightarrow> dispatcher_task \<Rightarrow> alert_tasks \<Rightarrow> alert_tasks" where
  "set_dispatcher j d tk = tk\<lparr>tk_dispatchers := (tk_dispatchers tk)(j := d)\<rparr>"

text \<open>One entry of an iteration: a key that is present and was not visited, or, once the keys of the start were visited, the end.\<close>

definition iterate :: "(string \<times> 'v) list \<Rightarrow> string list \<Rightarrow> string list \<Rightarrow> string option \<Rightarrow> (string \<times> 'v) option option" where
  "iterate entries start visited choice =
     (case choice of
        Some k \<Rightarrow> if k \<in> set visited then None else map_option (\<lambda>v. Some (k, v)) (map_of entries k)
      | None \<Rightarrow> if set start \<subseteq> set visited then Some None else None)"

definition visit_window :: "bool \<Rightarrow> timestamp \<Rightarrow> string \<Rightarrow> aggregation_state \<Rightarrow> alert_manager \<Rightarrow> alert_manager \<times> action_payload list" where
  "visit_window force now name st am =
     (case expire_window (am_actions am) force now name st of
        (st', payload) \<Rightarrow>
          (am\<lparr>am_aggregation_states := AList.update name st' (am_aggregation_states am)\<rparr>, case payload of None \<Rightarrow> [] | Some p \<Rightarrow> [p]))"

text \<open>What \<open>sync_states_to_db\<close> writes, in order.\<close>

definition state_writes :: "store_env \<Rightarrow> time_codec \<Rightarrow> (string \<times> throttle_state) list \<Rightarrow> (string \<times> aggregation_state) list \<Rightarrow> (string \<times> json) list" where
  "state_writes env tc ths ags =
     map (\<lambda>(k, st). (throttle_prefix @ k, throttle_state_to_json tc st)) ths @
     map (\<lambda>(k, st). (aggregation_prefix @ k, aggregation_state_to_json (se_codec env) tc st)) ags"

definition dispatcher_step :: "store_env \<Rightarrow> time_codec \<Rightarrow> nat \<Rightarrow> string option \<Rightarrow> alert_tasks \<Rightarrow> alert_tasks option" where
  "dispatcher_step env tc j choice tk =
     (let am = tk_manager tk
      in case tk_dispatchers tk j of
           Waiting \<Rightarrow> None
         | Scanning force now start visited payloads \<Rightarrow>
             map_option (\<lambda>e. case e of
                 Some (k, st) \<Rightarrow>
                   (case visit_window force now k st am of
                      (am', new) \<Rightarrow> set_dispatcher j (Scanning force now start (k # visited) (payloads @ new)) (tk\<lparr>tk_manager := am'\<rparr>))
               | None \<Rightarrow> set_dispatcher j (Sending payloads) tk)
               (iterate (am_aggregation_states am) start visited choice)
         | Sending payloads \<Rightarrow>
             Some (set_dispatcher j (SavingThrottles (map fst (am_throttle_states am)) [])
                     (hand_over env payloads tk))
         | SavingThrottles start ths \<Rightarrow>
             map_option (\<lambda>e. case e of
                 Some kv \<Rightarrow> set_dispatcher j (SavingThrottles start (ths @ [kv])) tk
               | None \<Rightarrow> set_dispatcher j (SavingAggregations (map fst (am_aggregation_states am)) ths []) tk)
               (iterate (am_throttle_states am) start (map fst ths) choice)
         | SavingAggregations start ths ags \<Rightarrow>
             map_option (\<lambda>e. case e of
                 Some kv \<Rightarrow> set_dispatcher j (SavingAggregations start ths (ags @ [kv])) tk
               | None \<Rightarrow> set_dispatcher j (Writing (state_writes env tc ths ags)) tk)
               (iterate (am_aggregation_states am) start (map fst ags) choice)
         | Writing [] \<Rightarrow> Some (set_dispatcher j Waiting tk)
         | Writing ((k, v) # rest) \<Rightarrow>
             (case set_json_state id k v (am_db am) of
                (s, r) \<Rightarrow> Some (set_dispatcher j (if is_ok r then Writing rest else Waiting) (tk\<lparr>tk_manager := am\<lparr>am_db := s\<rparr>\<rparr>))))"

text \<open>A tick of the interval, or a flush.\<close>

definition start_check :: "nat \<Rightarrow> bool \<Rightarrow> alert_tasks \<Rightarrow> alert_tasks option" where
  "start_check j force tk =
     (if tk_dispatchers tk j = Waiting
      then Some (set_dispatcher j (Scanning force (tk_clock tk) (map fst (am_aggregation_states (tk_manager tk))) [] []) tk)
      else None)"

section \<open>The system\<close>

text \<open>An abort drops what a task holds in memory and its guard.\<close>

definition abort_processor :: "nat \<Rightarrow> alert_tasks \<Rightarrow> alert_tasks" where
  "abort_processor i tk =
     set_processor i idle_processor
       (tk\<lparr>tk_action_locks := (\<lambda>name. if tk_action_locks tk name = Some i then None else tk_action_locks tk name)\<rparr>)"

text \<open>The outbox processor may count failed attempts of the entries it leaves.\<close>

definition outbox_tags :: "outbox_entry list \<Rightarrow> (string \<times> string \<times> action_payload option) list" where
  "outbox_tags = map (\<lambda>e. (oe_key e, oe_action e, oe_payload e))"

definition take_from_outbox :: "store_env \<Rightarrow> string set \<Rightarrow> db \<Rightarrow> alert_tasks \<Rightarrow> alert_tasks" where
  "take_from_outbox env keys s tk =
     tk\<lparr>tk_manager := (tk_manager tk)\<lparr>am_db := s\<rparr>,
        tk_taken := tk_taken tk @ filter (\<lambda>e. oe_key e \<in> keys) (outbox_abs env (am_db (tk_manager tk)))\<rparr>"

text \<open>Steps where \<open>T\<close> are the readings the clock may give, and \<open>aborts\<close> tells whether tasks are aborted.\<close>

inductive alert_step :: "store_env \<Rightarrow> time_codec \<Rightarrow> timestamp set \<Rightarrow> bool \<Rightarrow> alert_tasks \<Rightarrow> alert_tasks \<Rightarrow> bool"
  for env tc T aborts where
  process: "processor_step env i tk = Some tk' \<Longrightarrow> alert_step env tc T aborts tk tk'"
| receive: "receive_matches i ms tk = Some tk' \<Longrightarrow> alert_step env tc T aborts tk tk'"
| dispatch: "dispatcher_step env tc j choice tk = Some tk' \<Longrightarrow> alert_step env tc T aborts tk tk'"
| check: "start_check j force tk = Some tk' \<Longrightarrow> alert_step env tc T aborts tk tk'"
| clock: "now \<in> T \<Longrightarrow> alert_step env tc T aborts tk (tk\<lparr>tk_clock := now\<rparr>)"
| outbox: "outbox_tags (outbox_abs env s) = outbox_tags (filter (\<lambda>e. oe_key e \<notin> keys) (outbox_abs env (am_db (tk_manager tk)))) \<Longrightarrow>
    faultless (am_db (tk_manager tk)) \<longrightarrow> faultless s \<Longrightarrow>
    alert_step env tc T aborts tk (take_from_outbox env keys s tk)"
| abort_processing: "aborts \<Longrightarrow> alert_step env tc T aborts tk (abort_processor i tk)"
| abort_dispatching: "aborts \<Longrightarrow> alert_step env tc T aborts tk (set_dispatcher j Waiting tk)"

inductive alert_run :: "store_env \<Rightarrow> time_codec \<Rightarrow> timestamp set \<Rightarrow> bool \<Rightarrow> alert_tasks \<Rightarrow> alert_tasks \<Rightarrow> bool"
  for env tc T aborts where
  run_refl: "alert_run env tc T aborts tk tk"
| run_step: "alert_run env tc T aborts tk tk1 \<Longrightarrow> alert_step env tc T aborts tk1 tk2 \<Longrightarrow> alert_run env tc T aborts tk tk2"


section \<open>What a step does\<close>

lemma processor_step_cases [consumes 1, case_names finish skip direct lock time admit refuse send collect]:
  assumes "processor_step env i tk = Some tk'"
  defines "p \<equiv> tk_processors tk i" and "am \<equiv> tk_manager tk"
  obtains
    "pt_point p = Running" "pt_matches p = []"
      "tk' = set_processor i idle_processor (hand_over env (pt_immediate p) tk)"
  | m rest where "pt_point p = Running" "pt_matches p = m # rest" "map_of (am_actions am) (mm_action_name m) = None"
      "tk' = set_processor i (p\<lparr>pt_matches := rest\<rparr>) tk"
  | m rest cfg where "pt_point p = Running" "pt_matches p = m # rest" "map_of (am_actions am) (mm_action_name m) = Some cfg"
      "ac_policy cfg = None" "tk' = set_processor i (p\<lparr>pt_matches := rest, pt_immediate := pt_immediate p @ [Single m]\<rparr>) tk"
  | m rest cfg policy where "pt_point p = Running" "pt_matches p = m # rest" "map_of (am_actions am) (mm_action_name m) = Some cfg"
      "ac_policy cfg = Some policy" "tk_action_locks tk (mm_action_name m) = None"
      "tk' = set_processor i (p\<lparr>pt_point := Locked\<rparr>) (tk\<lparr>tk_action_locks := (tk_action_locks tk)(mm_action_name m \<mapsto> i)\<rparr>)"
  | m rest cfg policy where "pt_point p = Locked" "pt_matches p = m # rest" "map_of (am_actions am) (mm_action_name m) = Some cfg"
      "ac_policy cfg = Some (Throttle policy)" "tk' = set_processor i (p\<lparr>pt_point := Timed (tk_clock tk)\<rparr>) tk"
  | m rest cfg policy now am' where "pt_point p = Timed now" "pt_matches p = m # rest" "map_of (am_actions am) (mm_action_name m) = Some cfg"
      "ac_policy cfg = Some (Throttle policy)" "throttle_section now (mm_action_name m) policy am = (am', True)"
      "tk' = set_processor i (p\<lparr>pt_point := Dispatching\<rparr>) (tk\<lparr>tk_manager := am', tk_verdicts := tk_verdicts tk @ [(m, True)]\<rparr>)"
  | m rest cfg policy now am' where "pt_point p = Timed now" "pt_matches p = m # rest" "map_of (am_actions am) (mm_action_name m) = Some cfg"
      "ac_policy cfg = Some (Throttle policy)" "throttle_section now (mm_action_name m) policy am = (am', False)"
      "tk' = next_match i p (tk\<lparr>tk_manager := am', tk_verdicts := tk_verdicts tk @ [(m, False)]\<rparr>)"
  | m rest cfg policy where "pt_point p = Dispatching" "pt_matches p = m # rest" "map_of (am_actions am) (mm_action_name m) = Some cfg"
      "ac_policy cfg = Some (Throttle policy)" "tk' = next_match i p (hand_over env [Single m] tk)"
  | m rest cfg policy where "pt_point p = Locked" "pt_matches p = m # rest" "map_of (am_actions am) (mm_action_name m) = Some cfg"
      "ac_policy cfg = Some (Aggregation policy)" "tk' = next_match i p (tk\<lparr>tk_manager := fst (handle_aggregation (tk_clock tk) m am)\<rparr>)"
proof (cases "pt_matches p")
  case Nil
  then show ?thesis using assms(1) that(1) by (auto simp: processor_step_def Let_def p_def am_def split: if_splits)
next
  case (Cons m rest)
  note step = assms(1) [unfolded processor_step_def Let_def p_def [symmetric] am_def [symmetric] Cons list.case]
  show ?thesis
  proof (cases "map_of (am_actions am) (mm_action_name m)")
    case None
    then show ?thesis using step that(2) Cons by (auto split: if_splits)
  next
    case (Some cfg)
    note step = step [unfolded Some option.case]
    show ?thesis
    proof (cases "pt_point p")
      case Running
      then show ?thesis using step that(3,4) [OF _ Cons Some] by (auto simp: get_action_lock_def split: option.splits)
    next
      case Locked
      then show ?thesis using step that(5,9) [OF _ Cons Some] by (auto split: option.splits action_policy.splits)
    next
      case (Timed now)
      then show ?thesis using step that(6,7) [OF _ Cons Some] by (auto split: option.splits action_policy.splits prod.splits if_splits)
    next
      case Dispatching
      then show ?thesis using step that(8) [OF _ Cons Some] by (auto split: option.splits action_policy.splits)
    qed (use step in simp)
  qed
qed

lemma dispatcher_step_cases [consumes 1, case_names visit scanned send throttle throttles window windows written save]:
  assumes "dispatcher_step env tc j choice tk = Some tk'"
  defines "d \<equiv> tk_dispatchers tk j" and "am \<equiv> tk_manager tk"
  obtains
    force now start visited ps k st am' new where "d = Scanning force now start visited ps" "map_of (am_aggregation_states am) k = Some st"
      "k \<notin> set visited" "visit_window force now k st am = (am', new)"
      "tk' = set_dispatcher j (Scanning force now start (k # visited) (ps @ new)) (tk\<lparr>tk_manager := am'\<rparr>)"
  | force now start visited ps where "d = Scanning force now start visited ps" "set start \<subseteq> set visited" "tk' = set_dispatcher j (Sending ps) tk"
  | ps where "d = Sending ps" "tk' = set_dispatcher j (SavingThrottles (map fst (am_throttle_states am)) [])
      (hand_over env ps tk)"
  | start ths k st where "d = SavingThrottles start ths" "map_of (am_throttle_states am) k = Some st" "k \<notin> fst ` set ths"
      "tk' = set_dispatcher j (SavingThrottles start (ths @ [(k, st)])) tk"
  | start ths where "d = SavingThrottles start ths" "set start \<subseteq> fst ` set ths"
      "tk' = set_dispatcher j (SavingAggregations (map fst (am_aggregation_states am)) ths []) tk"
  | start ths ags k st where "d = SavingAggregations start ths ags" "map_of (am_aggregation_states am) k = Some st" "k \<notin> fst ` set ags"
      "tk' = set_dispatcher j (SavingAggregations start ths (ags @ [(k, st)])) tk"
  | start ths ags where "d = SavingAggregations start ths ags" "set start \<subseteq> fst ` set ags"
      "tk' = set_dispatcher j (Writing (state_writes env tc ths ags)) tk"
  | "d = Writing []" "tk' = set_dispatcher j Waiting tk"
  | k v rest s r where "d = Writing ((k, v) # rest)" "set_json_state id k v (am_db am) = (s, r)"
      "tk' = set_dispatcher j (if is_ok r then Writing rest else Waiting) (tk\<lparr>tk_manager := am\<lparr>am_db := s\<rparr>\<rparr>)"
proof -
  note step = assms(1) [unfolded dispatcher_step_def Let_def d_def [symmetric] am_def [symmetric]]
  show ?thesis
  proof (cases d)
    case (Scanning force now start visited ps)
    show ?thesis
    proof (cases choice)
      case None
      then show ?thesis using step that(2) [OF Scanning] by (auto simp: Scanning iterate_def split: if_splits)
    next
      case (Some k)
      then obtain st where "map_of (am_aggregation_states am) k = Some st" "k \<notin> set visited"
        using step by (auto simp: Scanning iterate_def split: if_splits)
      then show ?thesis using step that(1) [OF Scanning, of k st] Some
        by (cases "visit_window force now k st am") (simp add: Scanning iterate_def)
    qed
  next
    case (SavingThrottles start ths)
    then show ?thesis using step that(4,5) [OF SavingThrottles] by (auto simp: iterate_def split: option.splits if_splits)
  next
    case (SavingAggregations start ths ags)
    then show ?thesis using step that(6,7) [OF SavingAggregations] by (auto simp: iterate_def split: option.splits if_splits)
  next
    case (Writing ws)
    then show ?thesis using step that(8,9) by (cases ws) (auto split: prod.splits)
  qed (use step that(3) in auto)
qed

section \<open>Locks\<close>

definition head_policy :: "(string \<times> action_config) list \<Rightarrow> processor_task \<Rightarrow> action_policy option" where
  "head_policy actions p = (case pt_matches p of [] \<Rightarrow> None | m # _ \<Rightarrow> Option.bind (map_of actions (mm_action_name m)) ac_policy)"

definition held_lock :: "processor_task \<Rightarrow> string option" where
  "held_lock p = (case pt_matches p of [] \<Rightarrow> None | m # _ \<Rightarrow> if pt_point p = Idle \<or> pt_point p = Running then None else Some (mm_action_name m))"

lemma held_lock_free: "pt_point p = Idle \<or> pt_point p = Running \<Longrightarrow> held_lock p = None"
  by (auto simp: held_lock_def split: list.splits)

definition point_ok :: "(string \<times> action_config) list \<Rightarrow> processor_task \<Rightarrow> bool" where
  "point_ok actions p \<longleftrightarrow>
     (\<forall>pl \<in> set (pt_immediate p). \<exists>cfg. map_of actions (payload_action_name pl) = Some cfg \<and> ac_policy cfg = None) \<and>
     (case pt_point p of
        Idle \<Rightarrow> p = idle_processor
      | Running \<Rightarrow> True
      | Locked \<Rightarrow> head_policy actions p \<noteq> None
      | Timed now \<Rightarrow> \<exists>policy. head_policy actions p = Some (Throttle policy)
      | Dispatching \<Rightarrow> \<exists>policy. head_policy actions p = Some (Throttle policy))"

definition lock_inv :: "alert_tasks \<Rightarrow> bool" where
  "lock_inv tk \<longleftrightarrow> (\<forall>i a. tk_action_locks tk a = Some i \<longleftrightarrow> held_lock (tk_processors tk i) = Some a) \<and>
     (\<forall>i. point_ok (am_actions (tk_manager tk)) (tk_processors tk i))"

lemmas task_updates = hand_over_def set_processor_def next_match_def drop_guard_def set_dispatcher_def take_from_outbox_def abort_processor_def

lemma throttle_section_frame:
  "throttle_section now a policy am = (am', go) \<Longrightarrow>
     am_actions am' = am_actions am \<and> am_db am' = am_db am \<and> am_aggregation_states am' = am_aggregation_states am"
  by (auto simp: throttle_section_def Let_def split: prod.splits)

lemma visit_window_frame:
  "visit_window force now k st am = (am', new) \<Longrightarrow>
     am_actions am' = am_actions am \<and> am_db am' = am_db am \<and> am_throttle_states am' = am_throttle_states am"
  by (auto simp: visit_window_def split: prod.splits)

lemma processor_step_actions: "processor_step env i tk = Some tk' \<Longrightarrow> am_actions (tk_manager tk') = am_actions (tk_manager tk)"
  by (cases rule: processor_step_cases) (auto simp: task_updates dispatch_payload_def dispatch_frame dest!: throttle_section_frame)

lemma dispatcher_step_frame:
  "dispatcher_step env tc j choice tk = Some tk' \<Longrightarrow> am_actions (tk_manager tk') = am_actions (tk_manager tk) \<and>
     am_throttle_states (tk_manager tk') = am_throttle_states (tk_manager tk) \<and>
     tk_processors tk' = tk_processors tk \<and> tk_action_locks tk' = tk_action_locks tk \<and> tk_clock tk' = tk_clock tk \<and> tk_taken tk' = tk_taken tk"
  by (cases rule: dispatcher_step_cases) (auto simp: task_updates dispatch_frame dest!: visit_window_frame)

lemma alert_step_actions: "alert_step env tc T aborts tk tk' \<Longrightarrow> am_actions (tk_manager tk') = am_actions (tk_manager tk)"
  by (induction rule: alert_step.induct)
     (auto simp: processor_step_actions dispatcher_step_frame receive_matches_def start_check_def task_updates split: if_splits)

lemma lock_inv_new: "lock_inv (alert_tasks_new am now)"
  by (simp add: lock_inv_def alert_tasks_new_def idle_processor_def held_lock_def point_ok_def)

text \<open>One processor changes, and the locks follow it.\<close>

lemma lock_inv_processor:
  assumes "lock_inv tk" "am_actions (tk_manager tk') = am_actions (tk_manager tk)"
    "tk_processors tk' = (tk_processors tk)(i := p)" "point_ok (am_actions (tk_manager tk)) p"
    "\<And>a. tk_action_locks tk' a = Some i \<longleftrightarrow> held_lock p = Some a"
    "\<And>a k. k \<noteq> i \<Longrightarrow> tk_action_locks tk' a = Some k \<longleftrightarrow> tk_action_locks tk a = Some k"
  shows "lock_inv tk'"
  using assms by (auto simp: lock_inv_def)

lemma lock_inv_process:
  assumes inv: "lock_inv tk" and "processor_step env i tk = Some tk'"
  shows "lock_inv tk'"
proof -
  let ?p = "tk_processors tk i"
  have ok: "point_ok (am_actions (tk_manager tk)) ?p" and
    l: "\<And>k a. tk_action_locks tk a = Some k \<longleftrightarrow> held_lock (tk_processors tk k) = Some a" using inv by (auto simp: lock_inv_def)
  note acts = processor_step_actions [OF assms(2)]
  have leave: "lock_inv tk'"
    if "pt_matches ?p = m # rest" "held_lock ?p = Some (mm_action_name m)" "tk' = next_match i ?p tk1"
      "tk_processors tk1 = tk_processors tk" "tk_action_locks tk1 = tk_action_locks tk" for m rest tk1
  proof (rule lock_inv_processor [OF inv acts, of i "?p\<lparr>pt_point := Running, pt_matches := rest\<rparr>"])
    have own: "tk_action_locks tk a = Some i \<longleftrightarrow> a = mm_action_name m" for a using l [of a i] that(2) by auto
    have none: "held_lock (?p\<lparr>pt_point := Running, pt_matches := rest\<rparr>) = None" by (simp add: held_lock_def split: list.splits)
    show "tk_action_locks tk' a = Some i \<longleftrightarrow> held_lock (?p\<lparr>pt_point := Running, pt_matches := rest\<rparr>) = Some a" for a
      unfolding none using that(1,3-5) own [of a] by (simp add: task_updates)
    show "tk_action_locks tk' a = Some k \<longleftrightarrow> tk_action_locks tk a = Some k" if "k \<noteq> i" for a k
      using that own [of "mm_action_name m"] \<open>tk' = _\<close> \<open>pt_matches ?p = m # rest\<close> \<open>tk_action_locks tk1 = _\<close> by (auto simp: task_updates)
  qed (use that ok in \<open>auto simp: task_updates point_ok_def\<close>)
  show ?thesis using assms(2)
  proof (cases rule: processor_step_cases)
    case finish
    show ?thesis by (rule lock_inv_processor [OF inv acts, of i idle_processor])
      (use finish l in \<open>auto simp: task_updates held_lock_def point_ok_def idle_processor_def\<close>)
  next
    case (skip m rest)
    show ?thesis by (rule lock_inv_processor [OF inv acts, of i "?p\<lparr>pt_matches := rest\<rparr>"])
      (use skip l ok in \<open>auto simp: task_updates held_lock_def point_ok_def split: list.splits\<close>)
  next
    case (direct m rest cfg)
    show ?thesis by (rule lock_inv_processor [OF inv acts, of i "?p\<lparr>pt_matches := rest, pt_immediate := pt_immediate ?p @ [Single m]\<rparr>"])
      (use direct l ok in \<open>auto simp: task_updates held_lock_def point_ok_def split: list.splits\<close>)
  next
    case (lock m rest cfg policy)
    show ?thesis by (rule lock_inv_processor [OF inv acts, of i "?p\<lparr>pt_point := Locked\<rparr>"])
      (use lock l [of _ i] ok in \<open>auto simp: task_updates held_lock_def point_ok_def head_policy_def\<close>)
  next
    case (time m rest cfg policy)
    show ?thesis by (rule lock_inv_processor [OF inv acts, of i "?p\<lparr>pt_point := Timed (tk_clock tk)\<rparr>"])
      (use time l ok in \<open>auto simp: task_updates held_lock_def point_ok_def head_policy_def\<close>)
  next
    case (admit m rest cfg policy now am')
    show ?thesis by (rule lock_inv_processor [OF inv acts, of i "?p\<lparr>pt_point := Dispatching\<rparr>"])
      (use admit l ok in \<open>auto simp: task_updates held_lock_def point_ok_def head_policy_def\<close>)
  next
    case (refuse m rest cfg policy now am')
    show ?thesis by (rule leave [OF refuse(2) _ refuse(6)]) (simp_all add: held_lock_def hand_over_def refuse(1,2))
  next
    case (send m rest cfg policy)
    show ?thesis by (rule leave [OF send(2) _ send(5)]) (simp_all add: held_lock_def hand_over_def send(1,2))
  next
    case (collect m rest cfg policy)
    show ?thesis by (rule leave [OF collect(2) _ collect(5)]) (simp_all add: held_lock_def hand_over_def collect(1,2))
  qed
qed

lemma lock_inv_step:
  assumes "alert_step env tc T aborts tk tk'" "lock_inv tk"
  shows "lock_inv tk'"
  using assms
proof (induction rule: alert_step.induct)
  case (process i tk tk')
  then show ?case using lock_inv_process by blast
next
  case (receive i ms tk tk')
  let ?p = "\<lparr>pt_point = Running, pt_matches = ms, pt_immediate = []\<rparr>"
  have r: "tk' = set_processor i ?p tk" "pt_point (tk_processors tk i) = Idle"
    using receive by (auto simp: receive_matches_def split: if_splits)
  then have "tk_action_locks tk a \<noteq> Some i" for a using receive.prems held_lock_free [of "tk_processors tk i"] by (simp add: lock_inv_def)
  then show ?case using r held_lock_free [of ?p]
    by (intro lock_inv_processor [OF receive.prems, of tk' i ?p]) (auto simp: task_updates point_ok_def)
next
  case (dispatch j choice tk tk')
  then show ?case using dispatcher_step_frame [OF dispatch(1)] by (simp add: lock_inv_def)
next
  case (abort_processing tk i)
  show ?case
  proof (rule lock_inv_processor [OF abort_processing(2)])
    show "tk_processors (abort_processor i tk) = (tk_processors tk)(i := idle_processor)" by (simp add: task_updates)
    show "tk_action_locks (abort_processor i tk) a = Some i \<longleftrightarrow> held_lock idle_processor = Some a" for a
      by (simp add: task_updates held_lock_free idle_processor_def)
    show "tk_action_locks (abort_processor i tk) a = Some k \<longleftrightarrow> tk_action_locks tk a = Some k" if "k \<noteq> i" for a k
      using that by (simp add: task_updates)
  qed (simp_all add: task_updates point_ok_def idle_processor_def)
qed (auto simp: lock_inv_def start_check_def task_updates split: if_splits)

lemma alert_run_inv:
  assumes "alert_run env tc T aborts tk tk'" "P tk" "\<And>tk tk'. alert_step env tc T aborts tk tk' \<Longrightarrow> P tk \<Longrightarrow> P tk'"
  shows "P tk'"
  using assms(1,2) by (induction rule: alert_run.induct) (auto intro: assms(3))

lemma holder_steps:
  assumes "point_ok (am_actions (tk_manager tk)) (tk_processors tk i)" "held_lock (tk_processors tk i) = Some a"
  shows "processor_step env i tk \<noteq> None"
proof -
  obtain m rest where m: "pt_matches (tk_processors tk i) = m # rest" using assms(2) by (auto simp: held_lock_def split: list.splits)
  show ?thesis
  proof (cases "pt_point (tk_processors tk i)")
    case Locked
    then show ?thesis using assms(1) m
      by (auto simp: point_ok_def head_policy_def processor_step_def Let_def bind_eq_Some_conv split: action_policy.splits)
  qed (use assms m in \<open>auto simp: held_lock_def point_ok_def head_policy_def processor_step_def Let_def bind_eq_Some_conv split: prod.splits\<close>)
qed

text \<open>C10. Tasks exclude each other and never block for good: whatever the interleaving and the aborts, at most one task is in
  the handler of an action that has a policy, and whenever a task is busy some busy task can take its next step, so waiting for
  action locks cannot become a deadlock.\<close>

theorem action_locks_sound:
  assumes "alert_run env tc T aborts (alert_tasks_new am now) tk"
  shows "(\<forall>i k a. held_lock (tk_processors tk i) = Some a \<longrightarrow> held_lock (tk_processors tk k) = Some a \<longrightarrow> i = k) \<and>
    (\<forall>i. pt_point (tk_processors tk i) \<noteq> Idle \<longrightarrow> (\<exists>k tk'. pt_point (tk_processors tk k) \<noteq> Idle \<and> processor_step env k tk = Some tk'))"
proof -
  have inv: "lock_inv tk" using alert_run_inv [where P = lock_inv, OF assms lock_inv_new] lock_inv_step by blast
  have holder: "processor_step env i tk \<noteq> None" if "held_lock (tk_processors tk i) = Some a" for i a
    using holder_steps [OF _ that] inv by (simp add: lock_inv_def)
  have "\<exists>k. pt_point (tk_processors tk k) \<noteq> Idle \<and> processor_step env k tk \<noteq> None" if busy: "pt_point (tk_processors tk i) \<noteq> Idle" for i
  proof (cases "pt_point (tk_processors tk i) = Running")
    case False
    have "point_ok (am_actions (tk_manager tk)) (tk_processors tk i)" using inv by (simp add: lock_inv_def)
    then obtain a where "held_lock (tk_processors tk i) = Some a"
      using busy False by (auto simp: held_lock_def point_ok_def head_policy_def split: list.splits processor_point.splits)
    then show ?thesis using holder busy by blast
  next
    case True
    show ?thesis
    proof (cases "\<exists>a k. tk_action_locks tk a = Some k")
      case True
      then obtain a k where k: "held_lock (tk_processors tk k) = Some a" using inv by (auto simp: lock_inv_def)
      then have "pt_point (tk_processors tk k) \<noteq> Idle" by (auto simp: held_lock_def split: list.splits)
      then show ?thesis using holder [OF k] by blast
    next
      case False
      then have "processor_step env i tk \<noteq> None"
        using True by (auto simp: processor_step_def Let_def get_action_lock_def split: list.splits option.splits)
      then show ?thesis using busy by blast
    qed
  qed
  then show ?thesis using inv unfolding lock_inv_def by (metis not_None_eq option.sel)
qed

section \<open>Throttling under interleaving\<close>

text \<open>All entries of an action ever queued: in the outbox, and taken out of it.\<close>

definition total_queued :: "store_env \<Rightarrow> string \<Rightarrow> alert_tasks \<Rightarrow> nat" where
  "total_queued env a tk = queued env a (tk_manager tk) + length (filter (\<lambda>e. oe_action e = a) (tk_taken tk))"

text \<open>The dispatch that was allowed and has not reached the outbox.\<close>

definition due_dispatches :: "string \<Rightarrow> alert_tasks \<Rightarrow> nat" where
  "due_dispatches a tk =
     (case tk_action_locks tk a of None \<Rightarrow> 0 | Some i \<Rightarrow> if pt_point (tk_processors tk i) = Dispatching then 1 else 0)"

definition spent :: "store_env \<Rightarrow> string \<Rightarrow> throttle_policy \<Rightarrow> timestamp \<Rightarrow> alert_tasks \<Rightarrow> nat" where
  "spent env a policy from tk = total_queued env a tk + due_dispatches a tk + budget policy from (map_of (am_throttle_states (tk_manager tk)) a)"

text \<open>What a dispatching task holds never belongs to an action without an aggregation policy.\<close>

fun held_payloads :: "dispatcher_task \<Rightarrow> action_payload list" where
  "held_payloads (Scanning force now start visited ps) = ps"
| "held_payloads (Sending ps) = ps"
| "held_payloads _ = []"

definition held_ok :: "(string \<times> action_config) list \<Rightarrow> dispatcher_task \<Rightarrow> bool" where
  "held_ok actions d \<longleftrightarrow> (\<forall>pl \<in> set (held_payloads d). \<exists>cfg policy ms.
     map_of actions (payload_action_name pl) = Some cfg \<and> ac_policy cfg = Some (Aggregation policy) \<and>
     pl = Aggregated (payload_action_name pl) ms (ap_template policy))"

definition clock_ok :: "timestamp set \<Rightarrow> alert_tasks \<Rightarrow> bool" where
  "clock_ok T tk \<longleftrightarrow> tk_clock tk \<in> T \<and> (\<forall>i now. pt_point (tk_processors tk i) = Timed now \<longrightarrow> now \<in> T)"

definition tasks_inv :: "timestamp set \<Rightarrow> alert_tasks \<Rightarrow> bool" where
  "tasks_inv T tk \<longleftrightarrow> lock_inv tk \<and> clock_ok T tk \<and> (\<forall>j. held_ok (am_actions (tk_manager tk)) (tk_dispatchers tk j))"

lemma visit_window_payloads:
  "visit_window force now k st am = (am', new) \<Longrightarrow> pl \<in> set new \<Longrightarrow>
     \<exists>cfg policy. map_of (am_actions am) k = Some cfg \<and> ac_policy cfg = Some (Aggregation policy) \<and>
       pl = Aggregated k (as_matches st) (ap_template policy)"
  by (auto simp: visit_window_def expire_window_def split: if_splits option.splits action_policy.splits)

lemma tasks_inv_step:
  assumes "alert_step env tc T aborts tk tk'" "tasks_inv T tk"
  shows "tasks_inv T tk'"
proof -
  have "lock_inv tk'" using lock_inv_step assms by (auto simp: tasks_inv_def)
  moreover have "clock_ok T tk' \<and> (\<forall>j. held_ok (am_actions (tk_manager tk)) (tk_dispatchers tk' j))"
    using assms
  proof (cases rule: alert_step.cases)
    case (process i)
    then show ?thesis using assms(2)
      by (cases rule: processor_step_cases) (auto simp: tasks_inv_def clock_ok_def task_updates idle_processor_def)
  next
    case (dispatch j choice)
    have d: "held_ok (am_actions (tk_manager tk)) (tk_dispatchers tk k)" "clock_ok T tk" for k using assms(2) by (simp_all add: tasks_inv_def)
    have "clock_ok T tk'" using d(2) dispatcher_step_frame [OF dispatch] by (simp add: clock_ok_def)
    moreover have "held_ok (am_actions (tk_manager tk)) (tk_dispatchers tk' k)" for k
      using dispatch d(1) [of k] d(1) [of j]
      by (cases rule: dispatcher_step_cases) (auto simp: held_ok_def task_updates dest!: visit_window_payloads)
    ultimately show ?thesis by blast
  qed (auto simp: tasks_inv_def clock_ok_def held_ok_def task_updates receive_matches_def start_check_def idle_processor_def split: if_splits)
  ultimately show ?thesis using alert_step_actions [OF assms(1)] by (simp add: tasks_inv_def)
qed

lemma set_json_state_outbox: "outbox_abs env (fst (set_json_state enc k v s)) = outbox_abs env s"
  by (auto simp: set_json_state_def modify_def exec_def Let_def outbox_abs_def split: option.splits)

lemma queued_cong: "outbox_abs env (am_db am') = outbox_abs env (am_db am) \<Longrightarrow> queued env a am' = queued env a am"
  by (simp add: queued_def)

lemma queued_other:
  "(\<And>pl. pl \<in> set ps \<Longrightarrow> payload_action_name pl \<noteq> a) \<Longrightarrow> queued env a (fst (dispatch_payloads_batch env ps am)) \<le> queued env a am"
  using queued_dispatch [of env a ps am] by (auto simp: filter_empty_conv)

lemma throttle_section_budget:
  assumes "from \<le> now" "now \<le> from + int (tp_time_window_secs policy)" "throttle_section now name policy am = (am', go)"
  shows "(if go then 1 else 0) + budget policy from (map_of (am_throttle_states am') name) \<le> budget policy from (map_of (am_throttle_states am) name)"
proof -
  define st where "st = (case map_of (am_throttle_states am) name of
      Some st \<Rightarrow> st | None \<Rightarrow> \<lparr>ts_count = 0, ts_window_start_time = now\<rparr>)"
  obtain st' where d: "throttle_decision policy now st = (st', go)" "am' = am\<lparr>am_throttle_states := AList.update name st' (am_throttle_states am)\<rparr>"
    using assms(3) by (auto simp: throttle_section_def Let_def st_def split: prod.splits)
  show "(if go then 1 else 0) + budget policy from (map_of (am_throttle_states am') name) \<le> budget policy from (map_of (am_throttle_states am) name)"
    using throttle_decision_budget [OF assms(1,2) d(1)] d(2)
    by (cases "map_of (am_throttle_states am) name") (auto simp: st_def budget_def update_conv')
qed

lemma throttle_section_other:
  "throttle_section now name policy am = (am', go) \<Longrightarrow> a \<noteq> name \<Longrightarrow> map_of (am_throttle_states am') a = map_of (am_throttle_states am) a"
  by (auto simp: throttle_section_def Let_def update_conv' split: prod.splits)

lemma outbox_tags_count:
  "outbox_tags xs = outbox_tags ys \<Longrightarrow> length (filter (\<lambda>e. oe_action e = a) xs) = length (filter (\<lambda>e. oe_action e = a) ys)"
proof -
  have "length (filter (\<lambda>e. oe_action e = a) xs) = length (filter (\<lambda>t. fst (snd t) = a) (outbox_tags xs))" for xs
    by (simp add: outbox_tags_def filter_map comp_def)
  then show "outbox_tags xs = outbox_tags ys \<Longrightarrow> ?thesis" by simp
qed

lemma spent_process:
  assumes step: "processor_step env i tk = Some tk'" and inv: "tasks_inv {from..from + int (tp_time_window_secs policy)} tk"
    and pol: "map_of (am_actions (tk_manager tk)) a = Some cfg" "ac_policy cfg = Some (Throttle policy)"
  shows "spent env a policy from tk' \<le> spent env a policy from tk"
proof -
  let ?p = "tk_processors tk i" and ?am = "tk_manager tk"
  have ok: "point_ok (am_actions ?am) ?p" and l: "tk_action_locks tk b = Some k \<longleftrightarrow> held_lock (tk_processors tk k) = Some b" for k b
    using inv by (auto simp: tasks_inv_def lock_inv_def)
  have own: "tk_action_locks tk b = Some i \<longleftrightarrow> b = mm_action_name m"
    if "pt_matches ?p = m # rest" "pt_point ?p \<noteq> Idle" "pt_point ?p \<noteq> Running" for b m rest
    using that l [of b i] by (auto simp: held_lock_def)
  show ?thesis using step
  proof (cases rule: processor_step_cases)
    case finish
    have "queued env a (fst (dispatch_payloads_batch env (pt_immediate ?p) ?am)) \<le> queued env a ?am"
      using ok pol by (intro queued_other) (auto simp: point_ok_def)
    then show ?thesis using finish
      by (auto simp: spent_def total_queued_def due_dispatches_def task_updates dispatch_frame idle_processor_def split: option.splits)
  next
    case (admit m rest cfg' policy' now am')
    have T: "from \<le> now" "now \<le> from + int (tp_time_window_secs policy)" using inv admit(1) by (auto simp: tasks_inv_def clock_ok_def)
    have q: "queued env a am' = queued env a ?am" using throttle_section_frame [OF admit(5)] by (intro queued_cong) simp
    show ?thesis
    proof (cases "a = mm_action_name m")
      case True
      then have "policy' = policy" using admit(3,4) pol by simp
      then show ?thesis using throttle_section_budget(1) [OF T, of "mm_action_name m" ?am am' True] own [OF admit(2), of a] admit True q
        by (simp add: spent_def total_queued_def due_dispatches_def task_updates)
    next
      case False
      have "map_of (am_throttle_states am') a = map_of (am_throttle_states ?am) a"
        by (rule throttle_section_other [OF admit(5) False])
      then show ?thesis using own [OF admit(2), of a] admit False q
        by (auto simp: spent_def total_queued_def due_dispatches_def task_updates split: option.splits)
    qed
  next
    case (refuse m rest cfg' policy' now am')
    have T: "from \<le> now" "now \<le> from + int (tp_time_window_secs policy)" using inv refuse(1) by (auto simp: tasks_inv_def clock_ok_def)
    have q: "queued env a am' = queued env a ?am" using throttle_section_frame [OF refuse(5)] by (intro queued_cong) simp
    show ?thesis
    proof (cases "a = mm_action_name m")
      case True
      then have "policy' = policy" using refuse(3,4) pol by simp
      then show ?thesis using throttle_section_budget(1) [OF T, of "mm_action_name m" ?am am' False] refuse True q
        by (simp add: spent_def total_queued_def due_dispatches_def task_updates)
    next
      case False
      have "map_of (am_throttle_states am') a = map_of (am_throttle_states ?am) a"
        by (rule throttle_section_other [OF refuse(5) False])
      then show ?thesis using own [OF refuse(2), of a] refuse False q
        by (auto simp: spent_def total_queued_def due_dispatches_def task_updates split: option.splits)
    qed
  next
    case (send m rest cfg' policy')
    have q: "queued env a (fst (dispatch_payload env (Single m) ?am)) \<le> queued env a ?am + (if a = mm_action_name m then 1 else 0)"
      using queued_dispatch [of env a "[Single m]" ?am] by (auto simp: dispatch_payload_def)
    then show ?thesis using send own [OF send(2), of a]
      by (auto simp: spent_def total_queued_def due_dispatches_def task_updates dispatch_payload_def dispatch_frame split: option.splits)
  next
    case (collect m rest cfg' policy')
    then have "a \<noteq> mm_action_name m" using pol by auto
    then show ?thesis using collect own [OF collect(2), of a]
      by (auto simp: spent_def total_queued_def due_dispatches_def task_updates queued_def split: option.splits)
  qed (auto simp: spent_def total_queued_def due_dispatches_def task_updates split: option.splits)
qed

lemma spent_step:
  assumes step: "alert_step env tc {from..from + int (tp_time_window_secs policy)} aborts tk tk'"
    and inv: "tasks_inv {from..from + int (tp_time_window_secs policy)} tk"
    and pol: "map_of (am_actions (tk_manager tk)) a = Some cfg" "ac_policy cfg = Some (Throttle policy)"
  shows "spent env a policy from tk' \<le> spent env a policy from tk"
  using step
proof (cases rule: alert_step.cases)
  case (process i)
  then show ?thesis using spent_process inv pol by blast
next
  case (dispatch j choice)
  have f: "due_dispatches a tk' = due_dispatches a tk" using dispatcher_step_frame [OF dispatch] by (auto simp: due_dispatches_def split: option.splits)
  have "queued env a (tk_manager tk') \<le> queued env a (tk_manager tk)" using dispatch
  proof (cases rule: dispatcher_step_cases)
    case (visit force now start visited ps k st am' new)
    then show ?thesis using visit_window_frame [OF visit(4)] by (simp add: task_updates queued_def)
  next
    case (send ps)
    have "held_ok (am_actions (tk_manager tk)) (tk_dispatchers tk j)" using inv by (simp add: tasks_inv_def)
    then show ?thesis using send pol by (auto simp: task_updates held_ok_def intro!: queued_other)
  next
    case (save k v rest s r)
    then show ?thesis using set_json_state_outbox [of env id k v "am_db (tk_manager tk)"] by (simp add: task_updates queued_def)
  qed (auto simp: task_updates)
  then show ?thesis using f dispatcher_step_frame [OF dispatch] by (simp add: spent_def total_queued_def)
next
  case (outbox s keys)
  let ?old = "outbox_abs env (am_db (tk_manager tk))"
  have "length (filter (\<lambda>e. oe_action e = a) (outbox_abs env s)) + length (filter (\<lambda>e. oe_action e = a) (filter (\<lambda>e. oe_key e \<in> keys) ?old)) =
      length (filter (\<lambda>e. oe_action e = a) ?old)"
    unfolding outbox_tags_count [OF outbox(2)] by (rule filter_split_count)
  moreover have "due_dispatches a tk' = due_dispatches a tk" using outbox(1) by (auto simp: due_dispatches_def task_updates split: option.splits)
  ultimately show ?thesis using outbox(1) by (simp add: spent_def total_queued_def task_updates queued_def)
qed (auto simp: spent_def total_queued_def due_dispatches_def task_updates receive_matches_def start_check_def split: option.splits if_splits)

text \<open>C9. Throttling holds for concurrent tasks: from a start without tasks, however any number of processing and dispatching tasks, the outbox
  processor and aborts interleave, while the clock stays within one window length at most twice \<open>max_count\<close> entries of a throttled
  action are ever queued, and at most \<open>max_count\<close> when it had no throttle state, those already taken out of the outbox included.\<close>

theorem tasks_throttle_limits:
  assumes "alert_run env tc {from..from + int (tp_time_window_secs policy)} aborts (alert_tasks_new am now) tk"
    and "from \<le> now" "now \<le> from + int (tp_time_window_secs policy)"
    and pol: "map_of (am_actions am) a = Some cfg" "ac_policy cfg = Some (Throttle policy)"
  shows "total_queued env a tk \<le> queued env a am + 2 * unat (tp_max_count policy) \<and>
    (map_of (am_throttle_states am) a = None \<longrightarrow> total_queued env a tk \<le> queued env a am + unat (tp_max_count policy))"
proof -
  let ?T = "{from..from + int (tp_time_window_secs policy)}" and ?new = "alert_tasks_new am now"
  let ?P = "\<lambda>tk. tasks_inv ?T tk \<and> am_actions (tk_manager tk) = am_actions am \<and> spent env a policy from tk \<le> spent env a policy from ?new"
  have "?P ?new" using lock_inv_new [of am now] assms(2,3)
    by (simp add: tasks_inv_def clock_ok_def held_ok_def alert_tasks_new_def idle_processor_def)
  then have "?P tk"
  proof (rule alert_run_inv [OF assms(1)])
    fix tk tk' assume s: "alert_step env tc ?T aborts tk tk'" and P: "?P tk"
    then show "?P tk'"
      using tasks_inv_step [OF s] alert_step_actions [OF s] spent_step [OF s _ _ pol(2), of a] pol(1) by auto
  qed
  then show ?thesis
    by (auto simp: spent_def total_queued_def due_dispatches_def alert_tasks_new_def budget_def split: option.splits if_splits)
qed

section \<open>No match is lost between tasks\<close>

text \<open>The entries that were ever in the outbox, by key, action and stored payload, and by key alone.\<close>

definition ever_entries :: "store_env \<Rightarrow> alert_tasks \<Rightarrow> (string \<times> string \<times> action_payload option) set" where
  "ever_entries env tk = set (outbox_tags (outbox_abs env (am_db (tk_manager tk)))) \<union> set (outbox_tags (tk_taken tk))"

definition ever_queued :: "store_env \<Rightarrow> alert_tasks \<Rightarrow> string set" where
  "ever_queued env tk = outbox_keys env (am_db (tk_manager tk)) \<union> oe_key ` set (tk_taken tk)"

text \<open>The entry that stores a payload.\<close>

definition entry_of_payload :: "store_env \<Rightarrow> action_payload \<Rightarrow> string \<times> string \<times> action_payload option" where
  "entry_of_payload env pl =
     (idempotency_key (se_finish env) pl, payload_action_name pl, payload_of_json (se_codec env) (payload_to_json (se_codec env) pl))"

text \<open>The payloads that a task handed to the outbox and whose key was queued.\<close>

definition put_out :: "store_env \<Rightarrow> alert_tasks \<Rightarrow> action_payload set" where
  "put_out env tk = {pl \<in> set (tk_handed tk). idempotency_key (se_finish env) pl \<in> ever_queued env tk}"

text \<open>A payload is safe with a task that carries it, or when it was put out.\<close>

definition carried :: "alert_tasks \<Rightarrow> action_payload set" where
  "carried tk = (\<Union>i. set (pt_immediate (tk_processors tk i))) \<union> (\<Union>j. set (held_payloads (tk_dispatchers tk j)))"

definition safe :: "store_env \<Rightarrow> alert_tasks \<Rightarrow> action_payload \<Rightarrow> bool" where
  "safe env tk pl \<longleftrightarrow> pl \<in> carried tk \<union> put_out env tk"

text \<open>A match that the throttle let through is put out, or a task is about to dispatch it.\<close>

definition let_through :: "store_env \<Rightarrow> alert_tasks \<Rightarrow> monitor_match \<Rightarrow> bool" where
  "let_through env tk m \<longleftrightarrow> Single m \<in> put_out env tk \<or>
     (\<exists>i. pt_point (tk_processors tk i) = Dispatching \<and> (\<exists>rest. pt_matches (tk_processors tk i) = m # rest))"

definition verdicts_ok :: "store_env \<Rightarrow> alert_tasks \<Rightarrow> bool" where
  "verdicts_ok env tk \<longleftrightarrow> (\<forall>m. (m, True) \<in> set (tk_verdicts tk) \<longrightarrow> let_through env tk m) \<and>
     (\<forall>i m rest. pt_point (tk_processors tk i) = Dispatching \<longrightarrow> pt_matches (tk_processors tk i) = m # rest \<longrightarrow> (m, True) \<in> set (tk_verdicts tk))"

text \<open>Where a match is once its handler is done. A match of an action without a policy is in a safe payload of its own. A match of a throttled
  action was decided on, and if it was let through it is put out or being dispatched. A match of an aggregating action is, by its id, in the window
  of its action or among the matches of a payload that a task made from that window and that is safe. A match of an
  action that is not configured is dropped with a warning.\<close>

definition at_hand :: "store_env \<Rightarrow> alert_tasks \<Rightarrow> monitor_match \<Rightarrow> bool" where
  "at_hand env tk m =
     (case map_of (am_actions (tk_manager tk)) (mm_action_name m) of
        None \<Rightarrow> True
      | Some cfg \<Rightarrow>
          (case ac_policy cfg of
             None \<Rightarrow> safe env tk (Single m)
           | Some (Throttle policy) \<Rightarrow> m \<in> fst ` set (tk_verdicts tk) \<and> ((m, True) \<in> set (tk_verdicts tk) \<longrightarrow> let_through env tk m)
           | Some (Aggregation policy) \<Rightarrow> mm_id m \<in> mm_id ` set (pending (tk_manager tk) (mm_action_name m)) \<or>
               (\<exists>ms. mm_id m \<in> mm_id ` set ms \<and> safe env tk (Aggregated (mm_action_name m) ms (ap_template policy)))))"

text \<open>What every step keeps. The entries of the outbox are those it held before and the ones that store a payload handed over since.\<close>

definition keeps :: "store_env \<Rightarrow> alert_tasks \<Rightarrow> alert_tasks \<Rightarrow> bool" where
  "keeps env tk tk' \<longleftrightarrow> am_actions (tk_manager tk') = am_actions (tk_manager tk) \<and>
     (\<forall>pl. safe env tk pl \<longrightarrow> safe env tk' pl) \<and> set (tk_verdicts tk) \<subseteq> set (tk_verdicts tk') \<and>
     (\<forall>m cfg policy. map_of (am_actions (tk_manager tk)) (mm_action_name m) = Some cfg \<longrightarrow> ac_policy cfg = Some (Aggregation policy) \<longrightarrow>
        mm_id m \<in> mm_id ` set (pending (tk_manager tk) (mm_action_name m)) \<longrightarrow> at_hand env tk' m)"

lemma at_hand_keeps: "at_hand env tk m \<Longrightarrow> keeps env tk tk' \<Longrightarrow> verdicts_ok env tk' \<Longrightarrow> at_hand env tk' m"
proof -
  assume at: "at_hand env tk m" and keeps: "keeps env tk tk'" and ok: "verdicts_ok env tk'"
  have acts: "am_actions (tk_manager tk') = am_actions (tk_manager tk)" and safe: "\<And>pl. safe env tk pl \<Longrightarrow> safe env tk' pl"
    and verdicts: "set (tk_verdicts tk) \<subseteq> set (tk_verdicts tk')"
    using keeps by (auto simp: keeps_def)
  show ?thesis
  proof (cases "\<exists>cfg policy. map_of (am_actions (tk_manager tk)) (mm_action_name m) = Some cfg \<and> ac_policy cfg = Some (Aggregation policy) \<and>
      mm_id m \<in> mm_id ` set (pending (tk_manager tk) (mm_action_name m))")
    case True
    then show ?thesis using keeps unfolding keeps_def by blast
  next
    case False
    have "m \<in> fst ` set (tk_verdicts tk) \<Longrightarrow> m \<in> fst ` set (tk_verdicts tk')" using verdicts by auto
    moreover have "(m, True) \<in> set (tk_verdicts tk') \<Longrightarrow> let_through env tk' m" using ok by (simp add: verdicts_ok_def)
    ultimately show ?thesis using False at safe unfolding at_hand_def acts
      by (auto split: option.splits action_policy.splits)
  qed
qed

text \<open>Steps that leave the windows alone, and take a payload from a task only to queue it.\<close>

lemma keepsI:
  assumes "am_actions (tk_manager tk') = am_actions (tk_manager tk)"
    "carried tk \<subseteq> carried tk' \<union> put_out env tk'" "put_out env tk \<subseteq> put_out env tk'"
    "set (tk_verdicts tk) \<subseteq> set (tk_verdicts tk')" "\<And>a. set (pending (tk_manager tk) a) \<subseteq> set (pending (tk_manager tk') a)"
  shows "keeps env tk tk'"
proof -
  have "safe env tk pl \<Longrightarrow> safe env tk' pl" for pl using assms(2,3) by (auto simp: safe_def)
  then show ?thesis using assms(1,4) image_mono [OF assms(5), of mm_id] by (fastforce simp: keeps_def at_hand_def)
qed

text \<open>The keys and entries of a dispatch.\<close>

lemma dispatch_safe:
  assumes "faultless (am_db am)"
  shows "outbox_keys env (am_db (fst (dispatch_payloads_batch env ps am))) =
    outbox_keys env (am_db am) \<union> idempotency_key (se_finish env) ` set ps"
  using dispatch_keys(1) [OF assms] by (simp add: outbox_keys_def)

lemma put_out_mono:
  "set (tk_handed tk) \<subseteq> set (tk_handed tk') \<Longrightarrow> ever_queued env tk \<subseteq> ever_queued env tk' \<Longrightarrow> put_out env tk \<subseteq> put_out env tk'"
  by (auto simp: put_out_def)

lemma hand_over_puts_out:
  assumes "faultless (am_db (tk_manager tk))"
  shows "ever_queued env tk \<subseteq> ever_queued env (hand_over env ps tk)" "set ps \<subseteq> put_out env (hand_over env ps tk)"
    "put_out env tk \<subseteq> put_out env (hand_over env ps tk)"
proof -
  show e: "ever_queued env tk \<subseteq> ever_queued env (hand_over env ps tk)"
    using dispatch_safe [OF assms] by (auto simp: ever_queued_def hand_over_def)
  show "set ps \<subseteq> put_out env (hand_over env ps tk)"
    using dispatch_safe [OF assms] by (auto simp: put_out_def ever_queued_def hand_over_def simp del: idempotency_key.simps)
  show "put_out env tk \<subseteq> put_out env (hand_over env ps tk)" by (rule put_out_mono [OF _ e]) (simp add: hand_over_def)
qed

lemma put_out_cong:
  "tk_handed tk' = tk_handed tk \<Longrightarrow> tk_taken tk' = tk_taken tk \<Longrightarrow> outbox_keys env (am_db (tk_manager tk')) = outbox_keys env (am_db (tk_manager tk)) \<Longrightarrow>
     put_out env tk' = put_out env tk"
  by (simp add: put_out_def ever_queued_def)

lemma carriedI:
  "pl \<in> set (pt_immediate (tk_processors tk i)) \<Longrightarrow> pl \<in> carried tk"
  "pl \<in> set (held_payloads (tk_dispatchers tk j)) \<Longrightarrow> pl \<in> carried tk"
  by (auto simp: carried_def)

lemma carriedE:
  assumes "pl \<in> carried tk"
  obtains i where "pl \<in> set (pt_immediate (tk_processors tk i))" | j where "pl \<in> set (held_payloads (tk_dispatchers tk j))"
  using assms by (auto simp: carried_def)

lemma keeps_processor:
  assumes "tk_processors tk' = (tk_processors tk)(i := p)" "tk_dispatchers tk' = tk_dispatchers tk"
    "am_actions (tk_manager tk') = am_actions (tk_manager tk)"
    "set (pt_immediate (tk_processors tk i)) \<subseteq> set (pt_immediate p) \<union> put_out env tk'" "put_out env tk \<subseteq> put_out env tk'"
    "set (tk_verdicts tk) \<subseteq> set (tk_verdicts tk')" "\<And>a. set (pending (tk_manager tk) a) \<subseteq> set (pending (tk_manager tk') a)"
  shows "keeps env tk tk'"
proof (rule keepsI [OF assms(3) _ assms(5,6,7)])
  have "pl \<in> carried tk' \<union> put_out env tk'" if "pl \<in> set (pt_immediate (tk_processors tk k))" for pl k
  proof (cases "k = i")
    case True
    then show ?thesis using that subsetD [OF assms(4), of pl] carriedI(1) [of pl tk' i] assms(1) by auto
  next
    case False
    then show ?thesis using that carriedI(1) [of pl tk' k] assms(1) by simp
  qed
  then show "carried tk \<subseteq> carried tk' \<union> put_out env tk'"
    using carriedI(2) [of _ tk'] assms(2) by (auto elim!: carriedE)
qed

lemma keeps_dispatcher:
  assumes "tk_dispatchers tk' = (tk_dispatchers tk)(j := d)" "tk_processors tk' = tk_processors tk"
    "am_actions (tk_manager tk') = am_actions (tk_manager tk)"
    "set (held_payloads (tk_dispatchers tk j)) \<subseteq> set (held_payloads d) \<union> put_out env tk'" "put_out env tk \<subseteq> put_out env tk'"
    "set (tk_verdicts tk) \<subseteq> set (tk_verdicts tk')"
  shows "safe env tk pl \<Longrightarrow> safe env tk' pl"
    and "(\<And>a. set (pending (tk_manager tk) a) \<subseteq> set (pending (tk_manager tk') a)) \<Longrightarrow> keeps env tk tk'"
proof -
  have "pl \<in> carried tk' \<union> put_out env tk'" if "pl \<in> set (held_payloads (tk_dispatchers tk k))" for pl k
  proof (cases "k = j")
    case True
    then show ?thesis using that subsetD [OF assms(4), of pl] carriedI(2) [of pl tk' j] assms(1) by auto
  next
    case False
    then show ?thesis using that carriedI(2) [of pl tk' k] assms(1) by simp
  qed
  then have c: "carried tk \<subseteq> carried tk' \<union> put_out env tk'"
    using carriedI(1) [of _ tk'] assms(2) by (auto elim!: carriedE)
  show "safe env tk pl \<Longrightarrow> safe env tk' pl" using c assms(5) by (auto simp: safe_def)
  show "(\<And>a. set (pending (tk_manager tk) a) \<subseteq> set (pending (tk_manager tk') a)) \<Longrightarrow> keeps env tk tk'"
    by (rule keepsI [OF assms(3) c assms(5,6)])
qed

lemma keeps_set_dispatcher:
  "set (held_payloads (tk_dispatchers tk j)) \<subseteq> set (held_payloads d) \<Longrightarrow> keeps env tk (set_dispatcher j d tk)"
  by (rule keeps_dispatcher(2) [of _ _ j d]) (auto simp: set_dispatcher_def put_out_def ever_queued_def)

text \<open>A task that leaves the point of dispatching has put its match out.\<close>

lemma let_through_keeps:
  assumes "let_through env tk m" "put_out env tk \<subseteq> put_out env tk'"
    "\<And>i rest. pt_point (tk_processors tk i) = Dispatching \<Longrightarrow> pt_matches (tk_processors tk i) = m # rest \<Longrightarrow>
       Single m \<in> put_out env tk' \<or> tk_processors tk' i = tk_processors tk i"
  shows "let_through env tk' m"
  using assms unfolding let_through_def by (metis subsetD)

lemma verdicts_ok_processor:
  assumes ok: "verdicts_ok env tk" and out: "put_out env tk \<subseteq> put_out env tk'" and p: "tk_processors tk' = (tk_processors tk)(i := p)"
    and sent: "\<And>m rest. pt_point (tk_processors tk i) = Dispatching \<Longrightarrow> pt_matches (tk_processors tk i) = m # rest \<Longrightarrow> Single m \<in> put_out env tk'"
    and "\<And>m. (m, True) \<in> set (tk_verdicts tk') \<Longrightarrow> (m, True) \<in> set (tk_verdicts tk) \<or> pt_point p = Dispatching \<and> (\<exists>rest. pt_matches p = m # rest)"
    and "\<And>m. (m, True) \<in> set (tk_verdicts tk) \<Longrightarrow> (m, True) \<in> set (tk_verdicts tk')"
    and "\<And>m rest. pt_point p = Dispatching \<Longrightarrow> pt_matches p = m # rest \<Longrightarrow> (m, True) \<in> set (tk_verdicts tk')"
  shows "verdicts_ok env tk'"
  unfolding verdicts_ok_def
proof (intro conjI allI impI)
  fix m assume "(m, True) \<in> set (tk_verdicts tk')"
  then consider "(m, True) \<in> set (tk_verdicts tk)" | "pt_point p = Dispatching" "\<exists>rest. pt_matches p = m # rest" using assms(5) by blast
  then show "let_through env tk' m"
  proof cases
    case 1
    then have "let_through env tk m" using ok by (simp add: verdicts_ok_def)
    then show ?thesis
    proof (rule let_through_keeps [OF _ out])
      fix k rest assume "pt_point (tk_processors tk k) = Dispatching" "pt_matches (tk_processors tk k) = m # rest"
      then show "Single m \<in> put_out env tk' \<or> tk_processors tk' k = tk_processors tk k" using sent p by (cases "k = i") auto
    qed
  next
    case 2
    then show ?thesis using p unfolding let_through_def by (metis fun_upd_same)
  qed
next
  fix k m rest assume "pt_point (tk_processors tk' k) = Dispatching" "pt_matches (tk_processors tk' k) = m # rest"
  then show "(m, True) \<in> set (tk_verdicts tk')"
    using p ok assms(6,7) by (cases "k = i") (auto simp: verdicts_ok_def)
qed

lemma verdicts_ok_others:
  assumes "verdicts_ok env tk" "put_out env tk \<subseteq> put_out env tk'" "tk_processors tk' = tk_processors tk" "tk_verdicts tk' = tk_verdicts tk"
  shows "verdicts_ok env tk'"
  using assms(1) subsetD [OF assms(2)] unfolding verdicts_ok_def let_through_def assms(3,4) by blast

lemma set_dispatcher_manager [simp]: "tk_manager (set_dispatcher j d tk) = tk_manager tk"
  by (simp add: set_dispatcher_def)

lemma pending_dispatch: "pending (fst (dispatch_payloads_batch env ps am)) = pending am"
  by (rule pending_cong) (rule dispatch_frame)

lemma put_out_processor [simp]: "put_out env (set_processor i p tk) = put_out env tk" "put_out env (drop_guard n tk) = put_out env tk"
  "put_out env (set_dispatcher j d tk) = put_out env tk"
  by (simp_all add: put_out_def ever_queued_def set_processor_def drop_guard_def set_dispatcher_def)

lemma process_keeps:
  assumes step: "processor_step env i tk = Some tk'" and live: "faultless (am_db (tk_manager tk))" and ok: "verdicts_ok env tk"
  shows "keeps env tk tk' \<and> faultless (am_db (tk_manager tk')) \<and> verdicts_ok env tk' \<and>
    (\<forall>m \<in> set (pt_matches (tk_processors tk k)). m \<in> set (pt_matches (tk_processors tk' k)) \<or> at_hand env tk' m)"
proof -
  let ?p = "tk_processors tk i" and ?am = "tk_manager tk"
  note live_d = dispatch_keys(2) [OF live] and out = hand_over_puts_out(2,3) [OF live]
  have own: "?thesis"
    if p: "tk_processors tk' = (tk_processors tk)(i := p)" and keeps: "keeps env tk tk'" and live': "faultless (am_db (tk_manager tk'))"
      and vs: "verdicts_ok env tk'" and m: "set (pt_matches ?p) \<subseteq> insert m (set (pt_matches p))" "verdicts_ok env tk' \<Longrightarrow> at_hand env tk' m" for p m
    using that by auto
  have stay: "?thesis"
    if p: "tk_processors tk' = (tk_processors tk)(i := p)" and keeps: "keeps env tk tk'" and live': "faultless (am_db (tk_manager tk'))"
      and vs: "verdicts_ok env tk'" and m: "pt_matches p = pt_matches ?p" for p
    using that by auto
  show ?thesis using step
  proof (cases rule: processor_step_cases)
    case finish
    let ?q = idle_processor
    have q: "tk_processors tk' = (tk_processors tk)(i := ?q)" using finish by (simp add: task_updates)
    have o: "put_out env tk' = put_out env (hand_over env (pt_immediate ?p) tk)" using finish by simp
    have "keeps env tk tk'" by (rule keeps_processor [OF q]) (use finish o out in \<open>auto simp: task_updates dispatch_frame pending_dispatch\<close>)
    moreover have "verdicts_ok env tk'"
      by (rule verdicts_ok_processor [OF ok _ q]) (use finish o out in \<open>auto simp: task_updates idle_processor_def\<close>)
    ultimately show ?thesis by (intro stay [OF q]) (use finish live_d in \<open>auto simp: task_updates idle_processor_def\<close>)
  next
    case (skip m rest)
    let ?q = "?p\<lparr>pt_matches := rest\<rparr>"
    have q: "tk_processors tk' = (tk_processors tk)(i := ?q)" using skip by (simp add: task_updates)
    have "keeps env tk tk'" by (rule keeps_processor [OF q]) (use skip in \<open>auto simp: task_updates put_out_def ever_queued_def\<close>)
    moreover have "verdicts_ok env tk'" by (rule verdicts_ok_processor [OF ok _ q]) (use skip in \<open>auto simp: task_updates put_out_def ever_queued_def\<close>)
    ultimately show ?thesis by (intro own [OF q, of m]) (use skip live in \<open>auto simp: task_updates at_hand_def\<close>)
  next
    case (direct m rest cfg)
    let ?q = "?p\<lparr>pt_matches := rest, pt_immediate := pt_immediate ?p @ [Single m]\<rparr>"
    have q: "tk_processors tk' = (tk_processors tk)(i := ?q)" using direct by (simp add: task_updates)
    have "Single m \<in> set (pt_immediate (tk_processors tk' i))" using q by simp
    from carriedI(1) [OF this] have "at_hand env tk' m" using direct(3-5) by (simp add: at_hand_def safe_def task_updates)
    moreover have "keeps env tk tk'" by (rule keeps_processor [OF q]) (use direct in \<open>auto simp: task_updates put_out_def ever_queued_def\<close>)
    moreover have "verdicts_ok env tk'" by (rule verdicts_ok_processor [OF ok _ q]) (use direct in \<open>auto simp: task_updates put_out_def ever_queued_def\<close>)
    ultimately show ?thesis by (intro own [OF q, of m]) (use direct live in \<open>auto simp: task_updates\<close>)
  next
    case (lock m rest cfg policy)
    let ?q = "?p\<lparr>pt_point := Locked\<rparr>"
    have q: "tk_processors tk' = (tk_processors tk)(i := ?q)" using lock by (simp add: task_updates)
    have "keeps env tk tk'" by (rule keeps_processor [OF q]) (use lock in \<open>auto simp: task_updates put_out_def ever_queued_def\<close>)
    moreover have "verdicts_ok env tk'" by (rule verdicts_ok_processor [OF ok _ q]) (use lock in \<open>auto simp: task_updates put_out_def ever_queued_def\<close>)
    ultimately show ?thesis by (intro stay [OF q]) (use lock live in \<open>auto simp: task_updates\<close>)
  next
    case (time m rest cfg policy)
    let ?q = "?p\<lparr>pt_point := Timed (tk_clock tk)\<rparr>"
    have q: "tk_processors tk' = (tk_processors tk)(i := ?q)" using time by (simp add: task_updates)
    have "keeps env tk tk'" by (rule keeps_processor [OF q]) (use time in \<open>auto simp: task_updates put_out_def ever_queued_def\<close>)
    moreover have "verdicts_ok env tk'" by (rule verdicts_ok_processor [OF ok _ q]) (use time in \<open>auto simp: task_updates put_out_def ever_queued_def\<close>)
    ultimately show ?thesis by (intro stay [OF q]) (use time live in \<open>auto simp: task_updates\<close>)
  next
    case (admit m rest cfg policy now am')
    note f = throttle_section_frame [OF admit(5)]
    have pending: "pending am' = pending ?am" by (rule pending_cong) (use f in simp)
    let ?q = "?p\<lparr>pt_point := Dispatching\<rparr>"
    have q: "tk_processors tk' = (tk_processors tk)(i := ?q)" using admit by (simp add: task_updates)
    have o: "put_out env tk' = put_out env tk" using admit f by (simp add: put_out_def ever_queued_def task_updates)
    have "keeps env tk tk'" by (rule keeps_processor [OF q]) (use admit f o pending in \<open>auto simp: task_updates\<close>)
    moreover have "verdicts_ok env tk'" by (rule verdicts_ok_processor [OF ok _ q]) (use admit o in \<open>auto simp: task_updates\<close>)
    ultimately show ?thesis by (intro stay [OF q]) (use admit live f in \<open>auto simp: task_updates\<close>)
  next
    case (refuse m rest cfg policy now am')
    note f = throttle_section_frame [OF refuse(5)]
    have pending: "pending am' = pending ?am" by (rule pending_cong) (use f in simp)
    let ?q = "?p\<lparr>pt_point := Running, pt_matches := rest\<rparr>"
    have q: "tk_processors tk' = (tk_processors tk)(i := ?q)" using refuse by (simp add: task_updates)
    have o: "put_out env tk' = put_out env tk" using refuse f by (simp add: put_out_def ever_queued_def task_updates)
    have "keeps env tk tk'" by (rule keeps_processor [OF q]) (use refuse f o pending in \<open>auto simp: task_updates\<close>)
    moreover have "verdicts_ok env tk'" by (rule verdicts_ok_processor [OF ok _ q]) (use refuse o in \<open>auto simp: task_updates\<close>)
    moreover have "at_hand env tk' m" if "verdicts_ok env tk'"
    proof -
      have "(m, False) \<in> set (tk_verdicts tk')" using refuse by (simp add: task_updates)
      then have "m \<in> fst ` set (tk_verdicts tk')" by (rule rev_image_eqI) simp
      then show ?thesis using that refuse f by (simp add: at_hand_def task_updates verdicts_ok_def)
    qed
    ultimately show ?thesis by (intro own [OF q, of m]) (use refuse live f in \<open>auto simp: task_updates\<close>)
  next
    case (send m rest cfg policy)
    let ?q = "?p\<lparr>pt_point := Running, pt_matches := rest\<rparr>"
    have q: "tk_processors tk' = (tk_processors tk)(i := ?q)" using send by (simp add: task_updates)
    have o: "put_out env tk' = put_out env (hand_over env [Single m] tk)" using send by (simp add: put_out_def ever_queued_def task_updates)
    have "keeps env tk tk'" by (rule keeps_processor [OF q]) (use send o out in \<open>auto simp: task_updates dispatch_frame pending_dispatch\<close>)
    moreover have "verdicts_ok env tk'"
      by (rule verdicts_ok_processor [OF ok _ q]) (use send o out [where ps = "[Single m]"] in \<open>auto simp: task_updates\<close>)
    moreover have "at_hand env tk' m" if "verdicts_ok env tk'"
    proof -
      have "(m, True) \<in> set (tk_verdicts tk)" using ok send by (simp add: verdicts_ok_def)
      then have v: "(m, True) \<in> set (tk_verdicts tk')" using send by (simp add: task_updates)
      then have "m \<in> fst ` set (tk_verdicts tk')" by (rule rev_image_eqI) simp
      then show ?thesis using that v send by (simp add: at_hand_def task_updates verdicts_ok_def dispatch_frame)
    qed
    ultimately show ?thesis by (intro own [OF q, of m]) (use send live_d in \<open>auto simp: task_updates\<close>)
  next
    case (collect m rest cfg policy)
    let ?q = "?p\<lparr>pt_point := Running, pt_matches := rest\<rparr>"
    have q: "tk_processors tk' = (tk_processors tk)(i := ?q)" using collect by (simp add: task_updates)
    have o: "put_out env tk' = put_out env tk" using collect by (simp add: put_out_def ever_queued_def task_updates)
    have "at_hand env tk' m" using collect by (auto simp: at_hand_def task_updates pending_handle_aggregation)
    moreover have "keeps env tk tk'" by (rule keeps_processor [OF q]) (use collect o in \<open>auto simp: task_updates pending_handle_aggregation\<close>)
    moreover have "verdicts_ok env tk'" by (rule verdicts_ok_processor [OF ok _ q]) (use collect o in \<open>auto simp: task_updates\<close>)
    ultimately show ?thesis by (intro own [OF q, of m]) (use collect live in \<open>auto simp: task_updates\<close>)
  qed
qed

lemma pending_visit:
  "visit_window force now k st am = (am', new) \<Longrightarrow>
     pending am' a = (if a = k then as_matches (fst (expire_window (am_actions am) force now k st)) else pending am a)"
  by (auto simp: visit_window_def pending_def update_conv' split: prod.splits)

lemma visit_keeps:
  assumes d: "tk_dispatchers tk j = Scanning force now start visited ps" and st: "map_of (am_aggregation_states (tk_manager tk)) k = Some st"
    and v: "visit_window force now k st (tk_manager tk) = (am', new)"
    and tk': "tk' = set_dispatcher j (Scanning force now start (k # visited) (ps @ new)) (tk\<lparr>tk_manager := am'\<rparr>)"
  shows "keeps env tk tk'"
  unfolding keeps_def
proof (intro conjI allI impI)
  note f = visit_window_frame [OF v]
  show acts: "am_actions (tk_manager tk') = am_actions (tk_manager tk)" using f by (simp add: tk' task_updates)
  show "safe env tk' pl" if "safe env tk pl" for pl
    by (rule keeps_dispatcher(1) [of _ _ j "Scanning force now start (k # visited) (ps @ new)", OF _ _ _ _ _ _ that])
       (use d f in \<open>auto simp: tk' task_updates put_out_def ever_queued_def\<close>)
  show "set (tk_verdicts tk) \<subseteq> set (tk_verdicts tk')" by (simp add: tk' task_updates)
  fix m :: monitor_match and cfg policy
  assume m: "map_of (am_actions (tk_manager tk)) (mm_action_name m) = Some cfg" "ac_policy cfg = Some (Aggregation policy)"
    "mm_id m \<in> mm_id ` set (pending (tk_manager tk) (mm_action_name m))"
  show "at_hand env tk' m"
  proof (cases "mm_action_name m = k")
    case False
    then show ?thesis using m pending_visit [OF v, of "mm_action_name m"] by (simp add: at_hand_def tk' task_updates f)
  next
    case True
    have ms: "mm_id m \<in> mm_id ` set (as_matches st)" "as_matches st \<noteq> []" using m(3) st True by (auto simp: pending_def)
    show ?thesis
    proof (cases "force \<or> as_window_start_time st + int (ap_window_secs policy) < now")
      case due: True
      then have "new = [Aggregated k (as_matches st) (ap_template policy)]"
        using v m(1,2) ms(2) True by (auto simp: visit_window_def expire_window_def)
      then have "Aggregated k (as_matches st) (ap_template policy) \<in> carried tk'"
        by (intro carriedI(2) [of _ _ j]) (simp add: tk' task_updates)
      then show ?thesis using m(1,2) ms(1) True unfolding at_hand_def acts by (auto simp: safe_def)
    next
      case False
      then have "expire_window (am_actions (tk_manager tk)) force now k st = (st, None)"
        using m(1,2) ms(2) True by (auto simp: expire_window_def)
      then have "pending am' k = as_matches st" using pending_visit [OF v, of k] by simp
      then show ?thesis using m(1,2) ms(1) True f by (simp add: at_hand_def tk' task_updates)
    qed
  qed
qed

lemma dispatcher_keeps:
  assumes step: "dispatcher_step env tc j choice tk = Some tk'" and live: "faultless (am_db (tk_manager tk))"
  shows "keeps env tk tk' \<and> faultless (am_db (tk_manager tk')) \<and> put_out env tk \<subseteq> put_out env tk'"
  using step
proof (cases rule: dispatcher_step_cases)
  case (visit force now start visited ps k st am' new)
  then show ?thesis using visit_keeps [OF visit(1,2,4,5)] live visit_window_frame [OF visit(4)]
    by (simp add: task_updates put_out_def ever_queued_def)
next
  case (send ps)
  have o: "put_out env tk' = put_out env (hand_over env ps tk)" using send by simp
  have "keeps env tk tk'"
    by (rule keeps_dispatcher(2) [of _ _ j "SavingThrottles (map fst (am_throttle_states (tk_manager tk))) []"])
       (use send o hand_over_puts_out(2,3) [OF live] in \<open>auto simp: task_updates dispatch_frame pending_dispatch\<close>)
  then show ?thesis using send o hand_over_puts_out(3) [OF live] dispatch_keys(2) [OF live] by (simp add: task_updates)
next
  case (save k v rest s r)
  have s: "faultless s" "outbox_abs env s = outbox_abs env (am_db (tk_manager tk))"
    using sqlite_kv.put_lives [OF live, of k v] set_json_state_outbox [of env id k v "am_db (tk_manager tk)"] save(2) by auto
  have o: "put_out env tk' = put_out env tk" using save s by (simp add: put_out_def ever_queued_def outbox_keys_def task_updates)
  have "keeps env tk tk'"
    by (rule keeps_dispatcher(2) [of _ _ j "if is_ok r then Writing rest else Waiting"])
       (use save s o in \<open>auto simp: task_updates pending_def\<close>)
  then show ?thesis using save s o by (simp add: task_updates)
qed (auto simp: live intro!: keeps_set_dispatcher)

lemma dispatcher_step_verdicts: "dispatcher_step env tc j choice tk = Some tk' \<Longrightarrow> tk_verdicts tk' = tk_verdicts tk"
  by (cases rule: dispatcher_step_cases) (auto simp: task_updates)

lemma outbox_keys_tags: "oe_key ` set xs = fst ` set (outbox_tags xs)"
  by (force simp: outbox_tags_def)

text \<open>Taking entries out of the outbox moves them.\<close>

lemma take_from_outbox_entries:
  assumes "outbox_tags (outbox_abs env s) = outbox_tags (filter (\<lambda>e. oe_key e \<notin> keys) (outbox_abs env (am_db (tk_manager tk))))"
  shows "ever_entries env (take_from_outbox env keys s tk) = ever_entries env tk"
proof -
  have "set (outbox_tags (filter (\<lambda>e. oe_key e \<notin> keys) xs)) \<union> set (outbox_tags (filter (\<lambda>e. oe_key e \<in> keys) xs)) = set (outbox_tags xs)" for xs
    by (auto simp: outbox_tags_def)
  then show ?thesis using assms by (auto simp: ever_entries_def take_from_outbox_def outbox_tags_def)
qed

lemma ever_queued_entries: "ever_queued env tk = fst ` ever_entries env tk"
  by (simp add: ever_queued_def ever_entries_def outbox_keys_def outbox_keys_tags image_Un)

text \<open>Nothing but handed payloads gets into the outbox.\<close>

lemma hand_over_entries:
  assumes "faultless (am_db (tk_manager tk))"
  shows "ever_entries env (hand_over env ps tk) \<subseteq> ever_entries env tk \<union> entry_of_payload env ` set ps"
proof -
  let ?am = "tk_manager tk" and ?key = "idempotency_key (se_finish env)"
  obtain new where new: "outbox_abs env (am_db (fst (dispatch_payloads_batch env ps ?am))) = outbox_abs env (am_db ?am) @ new"
    "map (\<lambda>e. (oe_key e, oe_action e, oe_payload e, oe_retries e)) new =
     map (\<lambda>p. (?key p, payload_action_name p, payload_of_json (se_codec env) (payload_to_json (se_codec env) p), 0))
       (fresh_items ?key (oe_key ` set (outbox_abs env (am_db ?am))) ps)"
    using dispatch_entries [OF assms] by blast
  have "outbox_tags new = map (\<lambda>(k, a, p, n). (k, a, p)) (map (\<lambda>e. (oe_key e, oe_action e, oe_payload e, oe_retries e)) new)"
    by (simp add: outbox_tags_def)
  also have "\<dots> = map (entry_of_payload env) (fresh_items ?key (oe_key ` set (outbox_abs env (am_db ?am))) ps)"
    unfolding new(2) by (simp add: entry_of_payload_def del: idempotency_key.simps)
  finally have "set (outbox_tags new) \<subseteq> entry_of_payload env ` set ps"
    using fresh_items_subset [of ?key "oe_key ` set (outbox_abs env (am_db ?am))" ps] by (auto simp del: idempotency_key.simps)
  then show ?thesis using new(1) by (auto simp: ever_entries_def hand_over_def outbox_tags_def)
qed

definition grows :: "store_env \<Rightarrow> alert_tasks \<Rightarrow> alert_tasks \<Rightarrow> bool" where
  "grows env tk tk' \<longleftrightarrow> set (tk_handed tk) \<subseteq> set (tk_handed tk') \<and>
     ever_entries env tk' \<subseteq> ever_entries env tk \<union> entry_of_payload env ` set (tk_handed tk')"

lemma grows_trans: "grows env tk tk1 \<Longrightarrow> grows env tk1 tk2 \<Longrightarrow> grows env tk tk2"
  by (fastforce simp: grows_def)

lemma grows_frame:
  "tk_handed tk' = tk_handed tk \<Longrightarrow> tk_taken tk' = tk_taken tk \<Longrightarrow> outbox_abs env (am_db (tk_manager tk')) = outbox_abs env (am_db (tk_manager tk)) \<Longrightarrow>
     grows env tk tk'"
  by (simp add: grows_def ever_entries_def)

lemma grows_hand_over:
  assumes "faultless (am_db (tk_manager tk))" "tk_handed tk' = tk_handed (hand_over env ps tk)" "tk_taken tk' = tk_taken tk"
    "outbox_abs env (am_db (tk_manager tk')) = outbox_abs env (am_db (tk_manager (hand_over env ps tk)))"
  shows "grows env tk tk'"
proof -
  have "ever_entries env tk' = ever_entries env (hand_over env ps tk)" using assms(3,4) by (simp add: ever_entries_def hand_over_def)
  then show ?thesis using hand_over_entries [OF assms(1), of env ps] assms(2) by (auto simp: grows_def hand_over_def)
qed

lemma alert_step_grows:
  assumes step: "alert_step env tc T aborts tk tk'" and live: "faultless (am_db (tk_manager tk))"
  shows "grows env tk tk'"
  using step
proof (cases rule: alert_step.cases)
  case (process i)
  then show ?thesis
  proof (cases rule: processor_step_cases)
    case finish
    then show ?thesis by (intro grows_hand_over [OF live, where ps = "pt_immediate (tk_processors tk i)"]) (simp_all add: task_updates)
  next
    case (send m rest cfg policy)
    then show ?thesis by (intro grows_hand_over [OF live, where ps = "[Single m]"]) (simp_all add: task_updates)
  qed (auto intro!: grows_frame simp: task_updates dest!: throttle_section_frame)
next
  case (dispatch j choice)
  then show ?thesis
  proof (cases rule: dispatcher_step_cases)
    case (send ps)
    then show ?thesis by (intro grows_hand_over [OF live, where ps = ps]) (simp_all add: task_updates)
  next
    case (save k v rest s r)
    then show ?thesis using set_json_state_outbox [of env id k v "am_db (tk_manager tk)"] by (intro grows_frame) (auto simp: task_updates)
  qed (auto intro!: grows_frame simp: task_updates dest!: visit_window_frame)
next
  case (outbox s keys)
  then show ?thesis using take_from_outbox_entries [OF outbox(2)] by (simp add: grows_def task_updates)
qed (auto intro!: grows_frame simp: receive_matches_def start_check_def task_updates split: if_splits)

lemma alert_step_keeps:
  assumes step: "alert_step env tc T False tk tk'" and live: "faultless (am_db (tk_manager tk))" and inv: "lock_inv tk" and ok: "verdicts_ok env tk"
  shows "keeps env tk tk' \<and> faultless (am_db (tk_manager tk')) \<and> verdicts_ok env tk' \<and>
    (\<forall>m \<in> set (pt_matches (tk_processors tk k)). m \<in> set (pt_matches (tk_processors tk' k)) \<or> at_hand env tk' m)"
  using step
proof (cases rule: alert_step.cases)
  case (process i)
  then show ?thesis using process_keeps live ok by blast
next
  case (receive i ms)
  let ?q = "\<lparr>pt_point = Running, pt_matches = ms, pt_immediate = []\<rparr>"
  have r: "tk' = set_processor i ?q tk" "pt_point (tk_processors tk i) = Idle"
    using receive by (auto simp: receive_matches_def split: if_splits)
  moreover have "point_ok (am_actions (tk_manager tk)) (tk_processors tk i)" using inv by (simp add: lock_inv_def)
  ultimately have idle: "tk_processors tk i = idle_processor" by (simp add: point_ok_def)
  have q: "tk_processors tk' = (tk_processors tk)(i := ?q)" using r by (simp add: task_updates)
  have "keeps env tk tk'" by (rule keeps_processor [OF q]) (use r idle in \<open>auto simp: set_processor_def idle_processor_def put_out_def ever_queued_def\<close>)
  moreover have "verdicts_ok env tk'" by (rule verdicts_ok_processor [OF ok _ q]) (use r in \<open>auto simp: set_processor_def put_out_def ever_queued_def\<close>)
  ultimately show ?thesis using r idle live by (auto simp: task_updates idle_processor_def)
next
  case (dispatch j choice)
  note d = dispatcher_keeps [OF dispatch live] and f = dispatcher_step_frame [OF dispatch]
  have "verdicts_ok env tk'" by (rule verdicts_ok_others [OF ok]) (use d f dispatcher_step_verdicts [OF dispatch] in auto)
  then show ?thesis using d f by simp
next
  case (check j force)
  then have c: "keeps env tk tk'" by (auto simp: start_check_def intro!: keeps_set_dispatcher split: if_splits)
  have "verdicts_ok env tk'"
    by (rule verdicts_ok_others [OF ok]) (use check in \<open>auto simp: start_check_def set_dispatcher_def put_out_def ever_queued_def split: if_splits\<close>)
  then show ?thesis using c check live by (auto simp: start_check_def set_dispatcher_def split: if_splits)
next
  case (outbox s keys)
  have o: "put_out env tk' = put_out env tk"
    using take_from_outbox_entries [OF outbox(2)] outbox(1) by (simp add: put_out_def ever_queued_entries take_from_outbox_def)
  have "keeps env tk tk'" by (rule keepsI) (use outbox(1) o in \<open>auto simp: task_updates carried_def pending_def\<close>)
  moreover have "verdicts_ok env tk'" by (rule verdicts_ok_others [OF ok]) (use outbox(1) o in \<open>auto simp: task_updates\<close>)
  ultimately show ?thesis using outbox live by (simp add: task_updates)
next
  case (clock now)
  have "keeps env tk tk'" by (rule keepsI) (use clock in \<open>auto simp: carried_def put_out_def ever_queued_def\<close>)
  moreover have "verdicts_ok env tk'" by (rule verdicts_ok_others [OF ok]) (use clock in \<open>auto simp: put_out_def ever_queued_def\<close>)
  ultimately show ?thesis using clock live by simp
qed simp_all

text \<open>C8. Concurrent tasks forget no match: on a store that refuses nothing and without aborts, when a task that held a match has
  gone idle again, whatever the other tasks and the outbox processor did in between, then a match for an action without a policy is in the batch of a
  task or was handed to the outbox and queued under its key; a match for a throttled action was decided on, and if it was let through it was
  handed over and queued, or a task is just dispatching it; a match for an aggregating action is, by its id, in the window
  of the action, in a payload of that action which a dispatching task holds, or in one that was handed over and queued. Only a match of an
  action that is not configured is dropped. Every match that was ever let through is queued or being dispatched. And what was ever in the outbox was there
  at the start or is the stored form, under its key and action, of a payload a task handed over: the entry under the key of a queued payload stores
  that payload, unless another payload with the same key was there before it.\<close>

theorem tasks_forget_nothing:
  assumes "faultless (am_db am)" "alert_run env tc T False (alert_tasks_new am now) tk" "alert_run env tc T False tk tk'"
    and "m \<in> set (pt_matches (tk_processors tk i))" "pt_point (tk_processors tk' i) = Idle"
  shows "at_hand env tk' m \<and> (\<forall>m'. (m', True) \<in> set (tk_verdicts tk') \<longrightarrow> let_through env tk' m') \<and>
    ever_entries env tk' \<subseteq> set (outbox_tags (outbox_abs env (am_db am))) \<union> entry_of_payload env ` set (tk_handed tk')"
proof -
  let ?new = "alert_tasks_new am now"
  let ?P = "\<lambda>tk. lock_inv tk \<and> faultless (am_db (tk_manager tk)) \<and> verdicts_ok env tk \<and> grows env ?new tk"
  have "?P ?new" using assms(1) lock_inv_new [of am now]
    by (simp add: alert_tasks_new_def verdicts_ok_def idle_processor_def grows_def)
  moreover have step: "?P tk'" if s: "alert_step env tc T False tk tk'" and P: "?P tk" for tk tk'
    using P lock_inv_step [OF s] alert_step_keeps [OF s] grows_trans [OF _ alert_step_grows [OF s]] by blast
  ultimately have start: "?P tk" using alert_run_inv [where P = ?P, OF assms(2)] by blast
  have "?P tk' \<and> (m \<in> set (pt_matches (tk_processors tk' i)) \<or> at_hand env tk' m)"
  proof (rule alert_run_inv [where P = "\<lambda>tk. ?P tk \<and> (m \<in> set (pt_matches (tk_processors tk i)) \<or> at_hand env tk m)", OF assms(3)])
    fix tk tk' assume s: "alert_step env tc T False tk tk'" and P: "?P tk \<and> (m \<in> set (pt_matches (tk_processors tk i)) \<or> at_hand env tk m)"
    note k = alert_step_keeps [OF s, of i]
    have "at_hand env tk m \<Longrightarrow> at_hand env tk' m" using at_hand_keeps k P by blast
    then show "?P tk' \<and> (m \<in> set (pt_matches (tk_processors tk' i)) \<or> at_hand env tk' m)" using step [OF s] P k by blast
  qed (use start assms(4) in blast)
  moreover from this have "point_ok (am_actions (tk_manager tk')) (tk_processors tk' i)" by (simp add: lock_inv_def)
  moreover have "ever_entries env ?new = set (outbox_tags (outbox_abs env (am_db am)))"
    by (simp add: ever_entries_def alert_tasks_new_def outbox_tags_def)
  ultimately show ?thesis using assms(5) by (auto simp: point_ok_def idle_processor_def verdicts_ok_def grows_def)
qed

section \<open>One task alone\<close>

lemma handle_throttle_sections:
  "fst (handle_throttle env now m policy am) =
     (case throttle_section now (mm_action_name m) policy am of (am', go) \<Rightarrow> if go then fst (dispatch_payload env (Single m) am') else am')"
  by (simp add: handle_throttle_def throttle_section_def Let_def split: prod.splits)

lemma run_trans: "alert_run env tc T aborts tk1 tk2 \<Longrightarrow> alert_run env tc T aborts tk tk1 \<Longrightarrow> alert_run env tc T aborts tk tk2"
  by (induction rule: alert_run.induct) (auto intro: alert_run.intros)

text \<open>The runs in which only the processing task \<open>i\<close> and the clock move.\<close>

inductive solo_run :: "store_env \<Rightarrow> timestamp set \<Rightarrow> nat \<Rightarrow> alert_tasks \<Rightarrow> alert_tasks \<Rightarrow> bool"
  for env T i tk where
  solo_refl: "solo_run env T i tk tk"
| solo_process: "solo_run env T i tk tk1 \<Longrightarrow> processor_step env i tk1 = Some tk2 \<Longrightarrow> solo_run env T i tk tk2"
| solo_clock: "solo_run env T i tk tk1 \<Longrightarrow> now \<in> T \<Longrightarrow> solo_run env T i tk (tk1\<lparr>tk_clock := now\<rparr>)"

lemma solo_is_run: "solo_run env T i tk tk' \<Longrightarrow> alert_run env tc T aborts tk tk'"
  by (induction rule: solo_run.induct) (auto intro: alert_run.intros alert_step.process alert_step.clock)

lemma solo_trans: "solo_run env T i tk1 tk2 \<Longrightarrow> solo_run env T i tk tk1 \<Longrightarrow> solo_run env T i tk tk2"
  by (induction rule: solo_run.induct) (auto intro: solo_run.intros)

lemma solo_step: "processor_step env i tk = Some tk1 \<Longrightarrow> solo_run env T i tk1 tk2 \<Longrightarrow> solo_run env T i tk tk2"
  by (erule solo_trans) (rule solo_process [OF solo_refl])

lemma solo_tick: "now \<in> T \<Longrightarrow> solo_run env T i (tk\<lparr>tk_clock := now\<rparr>) tk2 \<Longrightarrow> solo_run env T i tk tk2"
  by (erule solo_trans) (rule solo_clock [OF solo_refl])

lemma processor_step_frame:
  assumes "processor_step env i tk = Some tk'"
  shows "(\<forall>k. k \<noteq> i \<longrightarrow> tk_processors tk' k = tk_processors tk k) \<and> tk_dispatchers tk' = tk_dispatchers tk \<and> tk_taken tk' = tk_taken tk \<and>
    tk_clock tk' = tk_clock tk"
  using assms by (cases rule: processor_step_cases) (auto simp: task_updates)

text \<open>What is left of a batch, and what was done of it: the matches handled so far with the readings taken for them.\<close>

lemma process_loop_snoc:
  "process_loop env xs im am = (am1, Inr im1) \<Longrightarrow> process_loop env (xs @ [x]) im am = process_loop env [x] im1 am1"
proof (induction xs arbitrary: im am)
  case (Cons y xs)
  obtain now m where y: "y = (now, m)" by (cases y)
  show ?case using Cons unfolding y append_Cons process_loop_step
    by (auto split: option.splits action_policy.splits simp del: process_loop.simps)
qed simp

lemma batch_of_loop:
  "process_loop env nms [] am = (am1, Inr im) \<Longrightarrow> fst (process_matches_batch env nms am) = fst (dispatch_payloads_batch env im am1)"
  by (cases "nms = []") (auto simp: process_matches_batch_def bindS_def dispatch_payloads_batch_def)

definition handled_so_far ::
  "store_env \<Rightarrow> timestamp set \<Rightarrow> monitor_match list \<Rightarrow> alert_manager \<Rightarrow> processor_task \<Rightarrow> alert_manager \<Rightarrow> bool" where
  "handled_so_far env T ms am p am1 \<longleftrightarrow> (\<exists>dn ns. ms = dn @ pt_matches p \<and> length ns = length dn \<and> set ns \<subseteq> T \<and>
     process_loop env (zip ns dn) [] am = (am1, Inr (pt_immediate p)))"

lemma handled_next:
  assumes "handled_so_far env T ms am p am1" "pt_matches p = m # rest" "now \<in> T" "process_loop env [(now, m)] (pt_immediate p) am1 = (am2, Inr im)"
    and "pt_matches q = rest" "pt_immediate q = im"
  shows "handled_so_far env T ms am q am2"
proof -
  obtain dn ns where h: "ms = dn @ m # rest" "length ns = length dn" "set ns \<subseteq> T" "process_loop env (zip ns dn) [] am = (am1, Inr (pt_immediate p))"
    using assms(1,2) by (auto simp: handled_so_far_def)
  have "zip (ns @ [now]) (dn @ [m]) = zip ns dn @ [(now, m)]" using h(2) by simp
  then have "process_loop env (zip (ns @ [now]) (dn @ [m])) [] am = (am2, Inr im)"
    using process_loop_snoc [OF h(4), of "(now, m)"] assms(4) by (simp del: process_loop.simps)
  then show ?thesis unfolding handled_so_far_def assms(5,6) using h assms(3)
    by (intro exI [of _ "dn @ [m]"] exI [of _ "ns @ [now]"]) (simp del: process_loop.simps zip_append)
qed

definition solo_state :: "store_env \<Rightarrow> timestamp set \<Rightarrow> monitor_match list \<Rightarrow> alert_manager \<Rightarrow> nat \<Rightarrow> alert_tasks \<Rightarrow> bool" where
  "solo_state env T ms am i tk \<longleftrightarrow> tk_clock tk \<in> T \<and>
     (case pt_point (tk_processors tk i) of
        Idle \<Rightarrow> \<exists>ns. length ns = length ms \<and> set ns \<subseteq> T \<and> tk_manager tk = fst (process_matches_batch env (zip ns ms) am)
      | Timed now \<Rightarrow> now \<in> T \<and> handled_so_far env T ms am (tk_processors tk i) (tk_manager tk)
      | Dispatching \<Rightarrow> \<exists>am1 now policy m rest cfg. handled_so_far env T ms am (tk_processors tk i) am1 \<and> now \<in> T \<and>
          pt_matches (tk_processors tk i) = m # rest \<and> map_of (am_actions am1) (mm_action_name m) = Some cfg \<and>
          ac_policy cfg = Some (Throttle policy) \<and> throttle_section now (mm_action_name m) policy am1 = (tk_manager tk, True)
      | _ \<Rightarrow> handled_so_far env T ms am (tk_processors tk i) (tk_manager tk))"

lemma handled_cong: "pt_matches q = pt_matches p \<Longrightarrow> pt_immediate q = pt_immediate p \<Longrightarrow> handled_so_far env T ms am q = handled_so_far env T ms am p"
  by (simp add: handled_so_far_def fun_eq_iff)

lemma solo_state_step:
  assumes "processor_step env i tk = Some tk'" "solo_state env T ms am i tk"
  shows "solo_state env T ms am i tk'"
proof -
  let ?p = "tk_processors tk i" and ?am = "tk_manager tk"
  have clock: "tk_clock tk \<in> T" using assms(2) by (simp add: solo_state_def)
  show ?thesis using assms(1)
  proof (cases rule: processor_step_cases)
    case finish
    then obtain ns where "length ns = length ms" "set ns \<subseteq> T" "process_loop env (zip ns ms) [] am = (?am, Inr (pt_immediate ?p))"
      using assms(2) by (auto simp: solo_state_def handled_so_far_def)
    then show ?thesis using batch_of_loop finish clock by (auto simp: solo_state_def task_updates idle_processor_def)
  next
    case (skip m rest)
    then have "handled_so_far env T ms am (tk_processors tk' i) ?am" using assms(2) clock
      by - (rule handled_next [of env T ms am ?p ?am m rest "tk_clock tk"],
          simp_all add: solo_state_def task_updates process_loop_step del: process_loop.simps(2))
    then show ?thesis using skip clock by (simp add: solo_state_def task_updates)
  next
    case (direct m rest cfg)
    then have "handled_so_far env T ms am (tk_processors tk' i) ?am" using assms(2) clock
      by - (rule handled_next [of env T ms am ?p ?am m rest "tk_clock tk"],
          simp_all add: solo_state_def task_updates process_loop_step del: process_loop.simps(2))
    then show ?thesis using direct clock by (simp add: solo_state_def task_updates)
  next
    case (lock m rest cfg policy)
    then show ?thesis using assms(2) clock handled_cong [of "tk_processors tk' i" ?p] by (simp add: solo_state_def task_updates)
  next
    case (time m rest cfg policy)
    then show ?thesis using assms(2) clock handled_cong [of "tk_processors tk' i" ?p] by (simp add: solo_state_def task_updates)
  next
    case (admit m rest cfg policy now am')
    then have "handled_so_far env T ms am (tk_processors tk' i) ?am" "now \<in> T"
      using assms(2) handled_cong [of "tk_processors tk' i" ?p] by (simp_all add: solo_state_def task_updates)
    then show ?thesis using admit clock by (auto simp: solo_state_def task_updates)
  next
    case (refuse m rest cfg policy now am')
    have "process_loop env [(now, m)] (pt_immediate ?p) ?am = (am', Inr (pt_immediate ?p))"
      using refuse(3-5) by (simp add: process_loop_step handle_throttle_sections del: process_loop.simps(2))
    then have "handled_so_far env T ms am (tk_processors tk' i) am'" using assms(2) refuse
      by - (rule handled_next [of env T ms am ?p ?am m rest now],
          simp_all add: solo_state_def task_updates)
    then show ?thesis using refuse clock by (simp add: solo_state_def task_updates)
  next
    case (send m rest cfg policy)
    obtain am1 now policy' cfg' where h: "handled_so_far env T ms am ?p am1" "now \<in> T" "map_of (am_actions am1) (mm_action_name m) = Some cfg'"
      "ac_policy cfg' = Some (Throttle policy')" "throttle_section now (mm_action_name m) policy' am1 = (?am, True)"
      using assms(2) send(1,2) by (auto simp: solo_state_def)
    have "process_loop env [(now, m)] (pt_immediate ?p) am1 = (fst (dispatch_payload env (Single m) ?am), Inr (pt_immediate ?p))"
      using h(3-5) by (simp add: process_loop_step handle_throttle_sections del: process_loop.simps(2))
    then have "handled_so_far env T ms am (tk_processors tk' i) (fst (dispatch_payload env (Single m) ?am))" using h send
      by - (rule handled_next [of env T ms am ?p am1 m rest now],
          simp_all add: task_updates)
    then show ?thesis using send clock by (simp add: solo_state_def task_updates dispatch_payload_def)
  next
    case (collect m rest cfg policy)
    have "process_loop env [(tk_clock tk, m)] (pt_immediate ?p) ?am = (fst (handle_aggregation (tk_clock tk) m ?am), Inr (pt_immediate ?p))"
      using collect(3,4) by (simp add: process_loop_step del: process_loop.simps(2))
    then have "handled_so_far env T ms am (tk_processors tk' i) (fst (handle_aggregation (tk_clock tk) m ?am))" using assms(2) collect clock
      by - (rule handled_next [of env T ms am ?p ?am m rest "tk_clock tk"],
          simp_all add: solo_state_def task_updates)
    then show ?thesis using collect clock by (simp add: solo_state_def task_updates)
  qed
qed

lemma solo_state_clock: "solo_state env T ms am i tk \<Longrightarrow> now \<in> T \<Longrightarrow> solo_state env T ms am i (tk\<lparr>tk_clock := now\<rparr>)"
  by (cases "pt_point (tk_processors tk i)") (simp_all add: solo_state_def)

lemma solo_state_run: "solo_run env T i tk tk' \<Longrightarrow> solo_state env T ms am i tk \<Longrightarrow> solo_state env T ms am i tk'"
  by (induction rule: solo_run.induct) (simp_all add: solo_state_clock solo_state_step)

text \<open>A busy task that runs alone is never stuck.\<close>

lemma solo_progress:
  assumes "solo_run env T i tk tk'" "lock_inv tk" "\<And>k. k \<noteq> i \<Longrightarrow> held_lock (tk_processors tk k) = None"
  shows "pt_point (tk_processors tk' i) = Idle \<or> processor_step env i tk' \<noteq> None"
proof -
  have inv: "lock_inv tk' \<and> (\<forall>k. k \<noteq> i \<longrightarrow> held_lock (tk_processors tk' k) = None)"
    using assms(1)
  proof (induction rule: solo_run.induct)
    case (solo_process tk1 tk2)
    then show ?case using lock_inv_process processor_step_frame by metis
  next
    case (solo_clock tk1 now)
    then show ?case by (simp add: lock_inv_def)
  qed (use assms in simp)
  show ?thesis
  proof (cases "held_lock (tk_processors tk' i)")
    case (Some a)
    then show ?thesis using holder_steps [OF _ Some] inv by (simp add: lock_inv_def)
  next
    case None
    then have "tk_action_locks tk' a = None" for a using inv unfolding lock_inv_def by (metis not_None_eq option.distinct(1))
    moreover have "point_ok (am_actions (tk_manager tk')) (tk_processors tk' i)" using inv by (simp add: lock_inv_def)
    ultimately show ?thesis using None
      by (cases "pt_point (tk_processors tk' i)"; cases "pt_matches (tk_processors tk' i)")
         (auto simp: processor_step_def Let_def get_action_lock_def held_lock_def point_ok_def head_policy_def split: option.splits)
  qed
qed

text \<open>The state in which only task \<open>i\<close> moves, and the lock it may hold.\<close>

definition alone :: "nat \<Rightarrow> string option \<Rightarrow> processor_task \<Rightarrow> alert_manager \<Rightarrow> alert_tasks \<Rightarrow> alert_tasks" where
  "alone i held p am tk =
     set_processor i p (tk\<lparr>tk_manager := am, tk_action_locks := (\<lambda>a. if held = Some a then Some i else None)\<rparr>)"

lemma alone_clock: "(alone i h p am tk)\<lparr>tk_clock := now\<rparr> = alone i h p am (tk\<lparr>tk_clock := now\<rparr>)"
  by (cases tk) (simp add: alone_def task_updates)

lemma alone_reads [simp]:
  "tk_processors (alone i held p am tk) i = p" "tk_manager (alone i held p am tk) = am" "tk_clock (alone i held p am tk) = tk_clock tk"
  by (simp_all add: alone_def set_processor_def)

lemma alone_updates [simp]:
  "set_processor i q (alone i held p am tk) = alone i held q am tk"
  "(alone i held p am tk)\<lparr>tk_manager := am'\<rparr> = alone i held p am' tk"
  "(alone i held p am tk)\<lparr>tk_verdicts := vs\<rparr> = alone i held p am (tk\<lparr>tk_verdicts := vs\<rparr>)"
  "tk_verdicts (alone i held p am tk) = tk_verdicts tk"
  "hand_over env ps (alone i held p am tk) =
     alone i held p (fst (dispatch_payloads_batch env ps am)) (tk\<lparr>tk_handed := tk_handed tk @ ps\<rparr>)"
  "get_action_lock i n (alone i None p am tk) = Some (alone i (Some n) p am tk)"
  "drop_guard n (alone i (Some n) p am tk) = alone i None p am tk"
  by (simp_all add: alone_def set_processor_def get_action_lock_def drop_guard_def hand_over_def fun_eq_iff)

lemma alone_steps:
  assumes "map_of (am_actions am) (mm_action_name m) = Some cfg"
  shows "ac_policy cfg = Some policy \<Longrightarrow>
      processor_step env i (alone i None \<lparr>pt_point = Running, pt_matches = m # rest, pt_immediate = im\<rparr> am tk) =
        Some (alone i (Some (mm_action_name m)) \<lparr>pt_point = Locked, pt_matches = m # rest, pt_immediate = im\<rparr> am tk)"
    and "ac_policy cfg = Some (Aggregation agg) \<Longrightarrow>
      processor_step env i (alone i (Some (mm_action_name m)) \<lparr>pt_point = Locked, pt_matches = m # rest, pt_immediate = im\<rparr> am tk) =
        Some (alone i None \<lparr>pt_point = Running, pt_matches = rest, pt_immediate = im\<rparr> (fst (handle_aggregation (tk_clock tk) m am)) tk)"
    and "ac_policy cfg = Some (Throttle pol) \<Longrightarrow>
      processor_step env i (alone i (Some (mm_action_name m)) \<lparr>pt_point = Locked, pt_matches = m # rest, pt_immediate = im\<rparr> am tk) =
        Some (alone i (Some (mm_action_name m)) \<lparr>pt_point = Timed (tk_clock tk), pt_matches = m # rest, pt_immediate = im\<rparr> am tk)"
    and "ac_policy cfg = Some (Throttle pol) \<Longrightarrow> throttle_section now (mm_action_name m) pol am = (am', go) \<Longrightarrow>
      processor_step env i (alone i (Some (mm_action_name m)) \<lparr>pt_point = Timed now, pt_matches = m # rest, pt_immediate = im\<rparr> am tk) =
        Some (if go then alone i (Some (mm_action_name m)) \<lparr>pt_point = Dispatching, pt_matches = m # rest, pt_immediate = im\<rparr> am'
                (tk\<lparr>tk_verdicts := tk_verdicts tk @ [(m, True)]\<rparr>)
              else alone i None \<lparr>pt_point = Running, pt_matches = rest, pt_immediate = im\<rparr> am' (tk\<lparr>tk_verdicts := tk_verdicts tk @ [(m, False)]\<rparr>))"
    and "ac_policy cfg = Some (Throttle pol) \<Longrightarrow>
      processor_step env i (alone i (Some (mm_action_name m)) \<lparr>pt_point = Dispatching, pt_matches = m # rest, pt_immediate = im\<rparr> am tk) =
        Some (alone i None \<lparr>pt_point = Running, pt_matches = rest, pt_immediate = im\<rparr> (fst (dispatch_payload env (Single m) am))
          (tk\<lparr>tk_handed := tk_handed tk @ [Single m]\<rparr>))"
  using assms by (simp_all add: processor_step_def next_match_def dispatch_payload_def Let_def)

text \<open>The fields of the tasks that a step of task \<open>i\<close> leaves alone.\<close>

definition same_others :: "alert_tasks \<Rightarrow> alert_tasks \<Rightarrow> bool" where
  "same_others tk tk' \<longleftrightarrow> tk_processors tk' = tk_processors tk \<and> tk_dispatchers tk' = tk_dispatchers tk"

lemma alone_next:
  assumes "tk_clock tk = now"
  shows "\<exists>im1 am1 tk1. solo_run env T i (alone i None \<lparr>pt_point = Running, pt_matches = m # rest, pt_immediate = im\<rparr> am tk)
      (alone i None \<lparr>pt_point = Running, pt_matches = rest, pt_immediate = im1\<rparr> am1 tk1) \<and> same_others tk tk1 \<and>
    (\<forall>nms. process_loop env ((now, m) # nms) im am = process_loop env nms im1 am1)"
proof (cases "map_of (am_actions am) (mm_action_name m)")
  case None
  then have "processor_step env i (alone i None \<lparr>pt_point = Running, pt_matches = m # rest, pt_immediate = im\<rparr> am tk) =
      Some (alone i None \<lparr>pt_point = Running, pt_matches = rest, pt_immediate = im\<rparr> am tk)"
    by (simp add: processor_step_def)
  from solo_step [OF this solo_refl] show ?thesis using None
    by (intro exI [of _ im] exI [of _ am] exI [of _ tk]) (simp add: process_loop_step same_others_def del: process_loop.simps)
next
  case (Some cfg)
  note c = alone_steps [OF Some]
  show ?thesis
  proof (cases "ac_policy cfg")
    case None
    then have "processor_step env i (alone i None \<lparr>pt_point = Running, pt_matches = m # rest, pt_immediate = im\<rparr> am tk) =
        Some (alone i None \<lparr>pt_point = Running, pt_matches = rest, pt_immediate = im @ [Single m]\<rparr> am tk)"
      using Some by (simp add: processor_step_def)
    from solo_step [OF this solo_refl] show ?thesis using None Some
      by (intro exI [of _ "im @ [Single m]"] exI [of _ am] exI [of _ tk]) (simp add: process_loop_step same_others_def del: process_loop.simps)
  next
    case pol: (Some policy)
    show ?thesis
    proof (cases policy)
      case (Aggregation agg)
      then have p: "ac_policy cfg = Some (Aggregation agg)" using pol by simp
      note r = solo_step [OF c(1) [OF p] solo_step [OF c(2) [OF p] solo_refl]]
      show ?thesis using r assms Some p
        by (intro exI [of _ im] exI [of _ "fst (handle_aggregation now m am)"] exI [of _ tk])
           (auto simp: process_loop_step same_others_def simp del: process_loop.simps)
    next
      case (Throttle th)
      then have p: "ac_policy cfg = Some (Throttle th)" using pol by simp
      obtain am' go where t: "throttle_section now (mm_action_name m) th am = (am', go)" by fastforce
      then have t': "throttle_section (tk_clock tk) (mm_action_name m) th am = (am', go)" using assms by simp
      have acts: "map_of (am_actions am') (mm_action_name m) = Some cfg" using Some throttle_section_frame [OF t] by simp
      let ?v = "tk\<lparr>tk_verdicts := tk_verdicts tk @ [(m, go)]\<rparr>"
      let ?am1 = "if go then fst (dispatch_payload env (Single m) am') else am'"
      let ?tk1 = "if go then ?v\<lparr>tk_handed := tk_handed ?v @ [Single m]\<rparr> else ?v"
      have "solo_run env T i (if go then alone i (Some (mm_action_name m)) \<lparr>pt_point = Dispatching, pt_matches = m # rest, pt_immediate = im\<rparr> am'
                (tk\<lparr>tk_verdicts := tk_verdicts tk @ [(m, True)]\<rparr>)
              else alone i None \<lparr>pt_point = Running, pt_matches = rest, pt_immediate = im\<rparr> am' (tk\<lparr>tk_verdicts := tk_verdicts tk @ [(m, False)]\<rparr>))
          (alone i None \<lparr>pt_point = Running, pt_matches = rest, pt_immediate = im\<rparr> ?am1 ?tk1)"
        using solo_step [OF alone_steps(5) [OF acts p, where tk = ?v] solo_refl] by (cases go) (simp_all add: solo_refl)
      from solo_step [OF c(1) [OF p] solo_step [OF c(3) [OF p] solo_step [OF c(4) [OF p t'] this]]]
      show ?thesis using t Some p
        by (intro exI [of _ im] exI [of _ ?am1] exI [of _ ?tk1])
           (simp add: process_loop_step handle_throttle_sections same_others_def del: process_loop.simps)
    qed
  qed
qed

lemma alone_loop:
  assumes "fst ` set nms \<subseteq> T"
  shows "\<exists>tk1. solo_run env T i (alone i None \<lparr>pt_point = Running, pt_matches = map snd nms, pt_immediate = im\<rparr> am tk)
      (alone i None \<lparr>pt_point = Running, pt_matches = [], pt_immediate = projr (snd (process_loop env nms im am))\<rparr>
         (fst (process_loop env nms im am)) tk1) \<and> same_others tk tk1"
  using assms
proof (induction nms arbitrary: im am tk)
  case (Cons x nms)
  obtain now m where x: "x = (now, m)" by (cases x)
  let ?tk = "tk\<lparr>tk_clock := now\<rparr>"
  obtain im1 am1 tk2 where step: "solo_run env T i
      (alone i None \<lparr>pt_point = Running, pt_matches = m # map snd nms, pt_immediate = im\<rparr> am ?tk)
      (alone i None \<lparr>pt_point = Running, pt_matches = map snd nms, pt_immediate = im1\<rparr> am1 tk2)" "same_others ?tk tk2"
    "process_loop env ((now, m) # nms) im am = process_loop env nms im1 am1"
    using alone_next [where tk = ?tk and now = now and env = env and T = T and i = i and m = m
      and rest = "map snd nms" and im = im and am = am] by (auto simp del: process_loop.simps)
  obtain tk1 where rest: "solo_run env T i (alone i None \<lparr>pt_point = Running, pt_matches = map snd nms, pt_immediate = im1\<rparr> am1 tk2)
      (alone i None \<lparr>pt_point = Running, pt_matches = [], pt_immediate = projr (snd (process_loop env nms im1 am1))\<rparr>
         (fst (process_loop env nms im1 am1)) tk1)" "same_others tk2 tk1"
    using Cons.IH [of im1 am1 tk2] Cons.prems by auto
  have "now \<in> T" using Cons.prems x by simp
  have "solo_run env T i (alone i None \<lparr>pt_point = Running, pt_matches = m # map snd nms, pt_immediate = im\<rparr> am tk)
      (alone i None \<lparr>pt_point = Running, pt_matches = [], pt_immediate = projr (snd (process_loop env nms im1 am1))\<rparr>
         (fst (process_loop env nms im1 am1)) tk1)"
    by (rule solo_tick [OF \<open>now \<in> T\<close>]) (use solo_trans [OF rest(1) step(1)] in \<open>simp add: alone_clock\<close>)
  moreover have "same_others tk tk1" using rest(2) step(2) by (simp add: same_others_def)
  ultimately show ?case using step(3) by (auto simp: x simp del: process_loop.simps)
qed (auto intro: solo_refl simp: same_others_def)

lemma alone_receive:
  assumes "tk_action_locks tk = (\<lambda>_. None)" "tk_processors tk i = idle_processor"
  shows "receive_matches i ms tk = Some (alone i None \<lparr>pt_point = Running, pt_matches = ms, pt_immediate = []\<rparr> (tk_manager tk) tk)"
  using assms by (simp add: receive_matches_def idle_processor_def alone_def flip: assms(1))

lemma alone_batch:
  assumes "fst ` set nms \<subseteq> T"
  shows "\<exists>tk1. solo_run env T i (alone i None \<lparr>pt_point = Running, pt_matches = map snd nms, pt_immediate = []\<rparr> am tk)
      (alone i None idle_processor (fst (process_matches_batch env nms am)) tk1) \<and> same_others tk tk1"
proof -
  let ?l = "process_loop env nms [] am"
  obtain tk1 where run: "solo_run env T i (alone i None \<lparr>pt_point = Running, pt_matches = map snd nms, pt_immediate = []\<rparr> am tk)
      (alone i None \<lparr>pt_point = Running, pt_matches = [], pt_immediate = projr (snd ?l)\<rparr> (fst ?l) tk1)" "same_others tk tk1"
    using alone_loop [OF assms, of env i "[]" am tk] by blast
  let ?am' = "fst (dispatch_payloads_batch env (projr (snd ?l)) (fst ?l))" and ?tk2 = "tk1\<lparr>tk_handed := tk_handed tk1 @ projr (snd ?l)\<rparr>"
  have "processor_step env i (alone i None \<lparr>pt_point = Running, pt_matches = [], pt_immediate = projr (snd ?l)\<rparr> (fst ?l) tk1) =
      Some (alone i None idle_processor ?am' ?tk2)"
    by (simp add: processor_step_def)
  note end_ = solo_process [OF run(1) this]
  obtain im where "snd ?l = Inr im" using process_loop_keeps [where P = "\<lambda>_. True", OF TrueI TrueI, of env nms "[]" am] by blast
  then have "?am' = fst (process_matches_batch env nms am)" using batch_of_loop [of env nms am "fst ?l" im] by (simp add: prod_eq_iff)
  then show ?thesis using end_ run(2) by (intro exI [of _ ?tk2]) (simp add: same_others_def)
qed

text \<open>C24. A processing task that runs alone is the sequential code: take a state in which no lock is held and the clock reads a time of
  \<open>T\<close>, let the idle task \<open>i\<close> receive a batch, and let only it and the clock move from then on. The managers with which such a run
  ends, with the task idle again, are exactly the ones \<open>process_matches_batch\<close> computes when each match is given some
  clock reading of \<open>T\<close>; until then the task can always take its next step, and no other task changes.\<close>

theorem task_alone_is_sequential:
  assumes "lock_inv tk" "tk_action_locks tk = (\<lambda>_. None)" "tk_clock tk \<in> T" "receive_matches i ms tk = Some tk0"
  shows "{tk_manager tk' | tk'. solo_run env T i tk0 tk' \<and> pt_point (tk_processors tk' i) = Idle} =
      {fst (process_matches_batch env (zip ns ms) (tk_manager tk)) | ns. length ns = length ms \<and> set ns \<subseteq> T} \<and>
    (\<forall>tk'. solo_run env T i tk0 tk' \<longrightarrow> (pt_point (tk_processors tk' i) = Idle \<or> processor_step env i tk' \<noteq> None) \<and>
      (\<forall>k. k \<noteq> i \<longrightarrow> tk_processors tk' k = tk_processors tk k) \<and> tk_dispatchers tk' = tk_dispatchers tk)"
proof -
  let ?am = "tk_manager tk" and ?q = "\<lparr>pt_point = Running, pt_matches = ms, pt_immediate = []\<rparr>"
  have "pt_point (tk_processors tk i) = Idle" using assms(4) by (auto simp: receive_matches_def split: if_splits)
  moreover have "point_ok (am_actions ?am) (tk_processors tk i)" using assms(1) by (simp add: lock_inv_def)
  ultimately have idle: "tk_processors tk i = idle_processor" by (simp add: point_ok_def)
  have tk0: "tk0 = alone i None ?q ?am tk" using alone_receive [OF assms(2) idle, of ms] assms(4) by simp
  have free: "held_lock (tk_processors tk k) = None" for k using assms(1,2) by (simp add: lock_inv_def)
  have "lock_inv tk0" using lock_inv_step [OF alert_step.receive [OF assms(4)] assms(1)] .
  then have stuck: "pt_point (tk_processors tk' i) = Idle \<or> processor_step env i tk' \<noteq> None" if "solo_run env T i tk0 tk'" for tk'
    by (rule solo_progress [OF that]) (use free in \<open>simp add: tk0 alone_def task_updates\<close>)
  have frame: "(\<forall>k. k \<noteq> i \<longrightarrow> tk_processors tk' k = tk_processors tk k) \<and> tk_dispatchers tk' = tk_dispatchers tk"
    if "solo_run env T i tk0 tk'" for tk'
    using that
  proof (induction rule: solo_run.induct)
    case (solo_process tk1 tk2)
    then show ?case using processor_step_frame by metis
  qed (simp_all add: tk0 alone_def task_updates)
  have start: "solo_state env T ms ?am i tk0"
    using assms(3) by (simp add: solo_state_def tk0 handled_so_far_def)
  have "\<exists>ns. tk_manager tk' = fst (process_matches_batch env (zip ns ms) ?am) \<and> length ns = length ms \<and> set ns \<subseteq> T"
    if "solo_run env T i tk0 tk'" "pt_point (tk_processors tk' i) = Idle" for tk'
    using solo_state_run [OF that(1) start] that(2) by (auto simp: solo_state_def)
  moreover have "\<exists>tk'. fst (process_matches_batch env (zip ns ms) ?am) = tk_manager tk' \<and> solo_run env T i tk0 tk' \<and> pt_point (tk_processors tk' i) = Idle"
    if "length ns = length ms" "set ns \<subseteq> T" for ns
  proof -
    have "fst ` set (zip ns ms) \<subseteq> T" using that(2) by (auto dest: set_zip_leftD)
    moreover have "map snd (zip ns ms) = ms" using that(1) by simp
    ultimately obtain tk1 where
      "solo_run env T i tk0 (alone i None idle_processor (fst (process_matches_batch env (zip ns ms) ?am)) tk1)"
      using alone_batch [of "zip ns ms" T env i ?am tk] by (auto simp: tk0)
    then show ?thesis
      by (intro exI [of _ "alone i None idle_processor (fst (process_matches_batch env (zip ns ms) ?am)) tk1"]) (simp add: idle_processor_def)
  qed
  ultimately show ?thesis using stuck frame by auto
qed

text \<open>A dispatching task alone visits the entries in the order of the map.\<close>

definition dispatcher_at :: "nat \<Rightarrow> dispatcher_task \<Rightarrow> alert_manager \<Rightarrow> alert_tasks \<Rightarrow> alert_tasks" where
  "dispatcher_at j d am tk = set_dispatcher j d (tk\<lparr>tk_manager := am\<rparr>)"

lemma dispatcher_at_simps [simp]:
  "tk_dispatchers (dispatcher_at j d am tk) j = d" "tk_manager (dispatcher_at j d am tk) = am"
  "set_dispatcher j d' (dispatcher_at j d am tk) = dispatcher_at j d' am tk"
  "(dispatcher_at j d am tk)\<lparr>tk_manager := am'\<rparr> = dispatcher_at j d am' tk"
  "hand_over env ps (dispatcher_at j d am tk) = dispatcher_at j d (fst (dispatch_payloads_batch env ps am)) (tk\<lparr>tk_handed := tk_handed tk @ ps\<rparr>)"
  by (simp_all add: dispatcher_at_def set_dispatcher_def hand_over_def)

lemma run_dispatcher: "dispatcher_step env tc j choice tk = Some tk1 \<Longrightarrow> alert_run env tc T aborts tk1 tk2 \<Longrightarrow> alert_run env tc T aborts tk tk2"
  by (erule run_trans) (rule run_step [OF run_refl alert_step.dispatch])

lemma alone_scan:
  assumes "distinct (map fst (xs @ ys))" "set start \<subseteq> fst ` set (xs @ ys)" "set visited = fst ` set xs"
  shows "alert_run env tc T aborts
      (dispatcher_at j (Scanning force now start visited ps) (am\<lparr>am_aggregation_states := xs @ ys\<rparr>) tk)
      (dispatcher_at j (Sending (ps @ List.map_filter (\<lambda>(k, st). snd (expire_window (am_actions am) force now k st)) ys))
        (am\<lparr>am_aggregation_states := xs @ map (\<lambda>(k, st). (k, fst (expire_window (am_actions am) force now k st))) ys\<rparr>) tk)"
  using assms
proof (induction ys arbitrary: xs visited ps)
  case Nil
  then have "dispatcher_step env tc j None (dispatcher_at j (Scanning force now start visited ps) (am\<lparr>am_aggregation_states := xs @ []\<rparr>) tk) =
      Some (dispatcher_at j (Sending ps) (am\<lparr>am_aggregation_states := xs\<rparr>) tk)"
    by (simp add: dispatcher_step_def iterate_def)
  from run_dispatcher [OF this run_refl] show ?case by (simp add: map_filter_simps)
next
  case (Cons y ys)
  obtain k st where y: "y = (k, st)" by (cases y)
  obtain st' pl where e: "expire_window (am_actions am) force now k st = (st', pl)" by fastforce
  have k: "k \<notin> fst ` set xs" using Cons.prems(1) y by auto
  let ?new = "case pl of None \<Rightarrow> [] | Some p \<Rightarrow> [p]"
  have step: "dispatcher_step env tc j (Some k) (dispatcher_at j (Scanning force now start visited ps) (am\<lparr>am_aggregation_states := xs @ y # ys\<rparr>) tk) =
      Some (dispatcher_at j (Scanning force now start (k # visited) (ps @ ?new)) (am\<lparr>am_aggregation_states := (xs @ [(k, st')]) @ ys\<rparr>) tk)"
    using k Cons.prems(3) e by (simp add: dispatcher_step_def iterate_def y map_of_middle visit_window_def update_middle del: map_of_append)
  have "alert_run env tc T aborts
      (dispatcher_at j (Scanning force now start (k # visited) (ps @ ?new)) (am\<lparr>am_aggregation_states := (xs @ [(k, st')]) @ ys\<rparr>) tk)
      (dispatcher_at j (Sending ((ps @ ?new) @ List.map_filter (\<lambda>(k, st). snd (expire_window (am_actions am) force now k st)) ys))
        (am\<lparr>am_aggregation_states := (xs @ [(k, st')]) @ map (\<lambda>(k, st). (k, fst (expire_window (am_actions am) force now k st))) ys\<rparr>) tk)"
    by (rule Cons.IH) (use Cons.prems y in auto)
  from run_dispatcher [OF step this] show ?case by (cases pl) (simp_all add: y e map_filter_simps)
qed

lemma alone_save_throttles:
  assumes "distinct (map fst (am_throttle_states am))" "am_throttle_states am = xs @ ys"
  shows "alert_run env tc T aborts (dispatcher_at j (SavingThrottles (map fst (am_throttle_states am)) xs) am tk)
    (dispatcher_at j (SavingAggregations (map fst (am_aggregation_states am)) (am_throttle_states am) []) am tk)"
  using assms(2)
proof (induction ys arbitrary: xs)
  case Nil
  then have "dispatcher_step env tc j None (dispatcher_at j (SavingThrottles (map fst (am_throttle_states am)) xs) am tk) =
      Some (dispatcher_at j (SavingAggregations (map fst (am_aggregation_states am)) xs []) am tk)"
    by (simp add: dispatcher_step_def iterate_def)
  from run_dispatcher [OF this run_refl] show ?case using Nil by simp
next
  case (Cons y ys)
  then have k: "fst y \<notin> fst ` set xs" using assms(1) by auto
  then have "map_of (am_throttle_states am) (fst y) = Some (snd y)"
    using map_of_middle [OF k, of "snd y" ys] Cons.prems by simp
  with k have "dispatcher_step env tc j (Some (fst y)) (dispatcher_at j (SavingThrottles (map fst (am_throttle_states am)) xs) am tk) =
      Some (dispatcher_at j (SavingThrottles (map fst (am_throttle_states am)) (xs @ [y])) am tk)"
    by (simp add: dispatcher_step_def iterate_def)
  from run_dispatcher [OF this Cons.IH] show ?case using Cons.prems by simp
qed

lemma alone_save_aggregations:
  assumes "distinct (map fst (am_aggregation_states am))" "am_aggregation_states am = xs @ ys"
  shows "alert_run env tc T aborts (dispatcher_at j (SavingAggregations (map fst (am_aggregation_states am)) ths xs) am tk)
    (dispatcher_at j (Writing (state_writes env tc ths (am_aggregation_states am))) am tk)"
  using assms(2)
proof (induction ys arbitrary: xs)
  case Nil
  then have "dispatcher_step env tc j None (dispatcher_at j (SavingAggregations (map fst (am_aggregation_states am)) ths xs) am tk) =
      Some (dispatcher_at j (Writing (state_writes env tc ths xs)) am tk)"
    by (simp add: dispatcher_step_def iterate_def)
  from run_dispatcher [OF this run_refl] show ?case using Nil by simp
next
  case (Cons y ys)
  then have k: "fst y \<notin> fst ` set xs" using assms(1) by auto
  then have "map_of (am_aggregation_states am) (fst y) = Some (snd y)"
    using map_of_middle [OF k, of "snd y" ys] Cons.prems by simp
  with k have "dispatcher_step env tc j (Some (fst y)) (dispatcher_at j (SavingAggregations (map fst (am_aggregation_states am)) ths xs) am tk) =
      Some (dispatcher_at j (SavingAggregations (map fst (am_aggregation_states am)) ths (xs @ [y])) am tk)"
    by (simp add: dispatcher_step_def iterate_def)
  from run_dispatcher [OF this Cons.IH] show ?case using Cons.prems by simp
qed

lemma alone_writes:
  "alert_run env tc T aborts (dispatcher_at j (Writing kvs) am tk)
    (dispatcher_at j Waiting (am\<lparr>am_db := fst (foldS (\<lambda>(k, v). set_json_state id k v) kvs (am_db am))\<rparr>) tk)"
proof (induction kvs arbitrary: am)
  case Nil
  have "dispatcher_step env tc j None (dispatcher_at j (Writing []) am tk) = Some (dispatcher_at j Waiting am tk)"
    by (simp add: dispatcher_step_def)
  from run_dispatcher [OF this run_refl] show ?case by simp
next
  case (Cons kv kvs)
  obtain k v where kv: "kv = (k, v)" by (cases kv)
  obtain s r where r: "set_json_state id k v (am_db am) = (s, r)" by fastforce
  have step: "dispatcher_step env tc j None (dispatcher_at j (Writing (kv # kvs)) am tk) =
      Some (dispatcher_at j (if is_ok r then Writing kvs else Waiting) (am\<lparr>am_db := s\<rparr>) tk)"
    by (simp add: dispatcher_step_def kv r)
  show ?case
  proof (cases r)
    case (Inl e)
    from run_dispatcher [OF step run_refl] show ?thesis using Inl r by (simp add: kv id_def)
  next
    case (Inr u)
    from run_dispatcher [OF step] show ?thesis using Cons.IH [of "am\<lparr>am_db := s\<rparr>"] Inr r by (simp add: kv id_def)
  qed
qed

lemma state_writes_sync:
  "am_db (fst (sync_states_to_db env tc am)) =
     fst (foldS (\<lambda>(k, v). set_json_state id k v) (state_writes env tc (am_throttle_states am) (am_aggregation_states am)) (am_db am))"
  by (simp add: sync_states_to_db_def state_writes_def put_states_def foldS_append foldS_map comp_def case_prod_beta'
      set_json_state_id [of "throttle_state_to_json tc"] set_json_state_id [of "aggregation_state_to_json (se_codec env) tc"] split: prod.splits)

lemma alone_check:
  assumes "distinct (map fst (am_aggregation_states am))" "distinct (map fst (am_throttle_states am))"
  shows "alert_run env tc T aborts (dispatcher_at j (Scanning force now (map fst (am_aggregation_states am)) [] []) am tk)
    (dispatcher_at j Waiting (fst (check_and_dispatch_expired_windows env tc now force am))
      (tk\<lparr>tk_handed := tk_handed tk @ expired_payloads force now am\<rparr>))"
proof -
  let ?ps = "expired_payloads force now am" and ?am1 = "am\<lparr>am_aggregation_states := expired_states force now am\<rparr>"
  let ?am2 = "fst (dispatch_payloads_batch env ?ps ?am1)" and ?tk = "tk\<lparr>tk_handed := tk_handed tk @ expired_payloads force now am\<rparr>"
  have scan: "alert_run env tc T aborts (dispatcher_at j (Scanning force now (map fst (am_aggregation_states am)) [] []) am tk)
      (dispatcher_at j (Sending ?ps) ?am1 tk)"
    using alone_scan [of "[]" "am_aggregation_states am" "map fst (am_aggregation_states am)" "[]" env tc T aborts j force now "[]" am tk] assms(1)
    by (simp add: expired_payloads_def expired_states_def)
  have send: "dispatcher_step env tc j None (dispatcher_at j (Sending ?ps) ?am1 tk) =
      Some (dispatcher_at j (SavingThrottles (map fst (am_throttle_states ?am2)) []) ?am2 ?tk)"
    by (simp add: dispatcher_step_def dispatch_frame)
  have d: "distinct (map fst (am_throttle_states ?am2))" "distinct (map fst (am_aggregation_states ?am2))"
    using assms by (simp_all add: dispatch_frame expired_states_def comp_def case_prod_beta')
  note save = alone_save_throttles [where xs = "[]" and am = ?am2, OF d(1)] alone_save_aggregations [where xs = "[]" and am = ?am2, OF d(2)]
  have "fst (sync_states_to_db env tc ?am2) = ?am2\<lparr>am_db := am_db (fst (sync_states_to_db env tc ?am2))\<rparr>"
    by (simp add: sync_states_to_db_def split: prod.splits)
  then have "fst (check_and_dispatch_expired_windows env tc now force am) =
      ?am2\<lparr>am_db := fst (foldS (\<lambda>(k, v). set_json_state id k v) (state_writes env tc (am_throttle_states ?am2) (am_aggregation_states ?am2)) (am_db ?am2))\<rparr>"
    unfolding state_writes_sync by (simp add: check_and_dispatch_expired_windows_def Let_def)
  then have writes: "alert_run env tc T aborts (dispatcher_at j (Writing (state_writes env tc (am_throttle_states ?am2) (am_aggregation_states ?am2))) ?am2 ?tk)
      (dispatcher_at j Waiting (fst (check_and_dispatch_expired_windows env tc now force am)) ?tk)"
    using alone_writes [of env tc T aborts j _ ?am2 ?tk] by simp
  from run_dispatcher [OF send run_trans [OF run_trans [OF writes save(2)] save(1)]] show ?thesis
    by (rule run_trans [OF _ scan]) simp_all
qed

text \<open>A dispatching task can do what the sequential check does: over states with distinct keys there is a run in which only it moves and
  the manager ends in the state that \<open>check_and_dispatch_expired_windows\<close> computes.\<close>

lemma dispatcher_alone_is_sequential:
  assumes "tk_dispatchers tk j = Waiting"
    and "distinct (map fst (am_aggregation_states (tk_manager tk)))" "distinct (map fst (am_throttle_states (tk_manager tk)))"
  shows "\<exists>tk'. alert_run env tc T aborts tk tk' \<and>
      tk_manager tk' = fst (check_and_dispatch_expired_windows env tc (tk_clock tk) force (tk_manager tk)) \<and>
      tk_processors tk' = tk_processors tk \<and> tk_dispatchers tk' = tk_dispatchers tk"
proof -
  let ?tk = "tk\<lparr>tk_handed := tk_handed tk @ expired_payloads force (tk_clock tk) (tk_manager tk)\<rparr>"
  have "start_check j force tk = Some (dispatcher_at j (Scanning force (tk_clock tk) (map fst (am_aggregation_states (tk_manager tk))) [] []) (tk_manager tk) tk)"
    using assms(1) by (simp add: start_check_def dispatcher_at_def)
  note start = run_step [OF run_refl alert_step.check [OF this]]
  show ?thesis
    using run_trans [OF alone_check [OF assms(2,3)] start] assms(1)
    by (intro exI [of _ "dispatcher_at j Waiting (fst (check_and_dispatch_expired_windows env tc (tk_clock tk) force (tk_manager tk))) ?tk"])
       (auto simp: dispatcher_at_def set_dispatcher_def)
qed

section \<open>Witnesses\<close>

text \<open>A run in which task 0 receives a match.\<close>

lemma sample_received:
  "alert_run sample_env hex_time T aborts (alert_tasks_new am 0)
     (alone 0 None \<lparr>pt_point = Running, pt_matches = [m], pt_immediate = []\<rparr> am (alert_tasks_new am 0))"
  using run_step [OF run_refl alert_step.receive [OF alone_receive [of "alert_tasks_new am 0" 0 "[m]"]]]
  by (simp add: alert_tasks_new_def)

theorem action_locks_sound_witness:
  "\<exists>k tk'. processor_step sample_env k (alone 0 None \<lparr>pt_point = Running, pt_matches = [sample_match 1], pt_immediate = []\<rparr>
     (sample_manager throttled_action) (alert_tasks_new (sample_manager throttled_action) 0)) = Some tk'"
  using action_locks_sound [OF sample_received [of UNIV True "sample_manager throttled_action" "sample_match 1"]]
  by (metis alone_reads(1) processor_point.distinct(1) processor_task.select_convs(1))

lemma sample_batch:
  obtains tk where "alert_run sample_env hex_time {0..60} False (alert_tasks_new am 0) tk"
    "alert_run sample_env hex_time {0..60} False
       (alone 0 None \<lparr>pt_point = Running, pt_matches = [m], pt_immediate = []\<rparr> am (alert_tasks_new am 0)) tk"
    "tk_processors tk 0 = idle_processor" "tk_manager tk = fst (process_matches_batch sample_env [(0, m)] am)"
proof -
  obtain tk1 where "solo_run sample_env {0..60} 0
      (alone 0 None \<lparr>pt_point = Running, pt_matches = [m], pt_immediate = []\<rparr> am (alert_tasks_new am 0))
      (alone 0 None idle_processor (fst (process_matches_batch sample_env [(0, m)] am)) tk1)"
    using alone_batch [of "[(0, m)]" "{0..60}" sample_env 0 am "alert_tasks_new am 0"] by auto
  then show ?thesis using that solo_is_run run_trans [OF _ sample_received] by (metis alone_reads(1,2))
qed

theorem tasks_throttle_limits_witness:
  "\<exists>tk. alert_run sample_env hex_time {0..60} False (alert_tasks_new (sample_manager throttled_action) 0) tk \<and>
     tk_processors tk 0 = idle_processor \<and> total_queued sample_env ''slack-1'' tk \<le> 1"
proof -
  obtain tk where tk: "alert_run sample_env hex_time {0..60} False (alert_tasks_new (sample_manager throttled_action) 0) tk"
    "tk_processors tk 0 = idle_processor" using sample_batch [of "sample_manager throttled_action" "sample_match 1"] by metis
  show ?thesis
    using tasks_throttle_limits [of sample_env hex_time 0 "\<lparr>tp_max_count = 1, tp_time_window_secs = 60\<rparr>" False "sample_manager throttled_action" 0 tk
        "''slack-1''" throttled_action] tk
    by (auto simp: sample_manager_def throttled_action_def queued_def outbox_abs_def empty_db_def)
qed

theorem tasks_forget_nothing_witness:
  "\<exists>tk. alert_run sample_env hex_time {0..60} False (alert_tasks_new (sample_manager digest_action) 0) tk \<and>
     at_hand sample_env tk (sample_match 1)"
proof -
  let ?am = "sample_manager digest_action"
  obtain tk where tk: "alert_run sample_env hex_time {0..60} False (alert_tasks_new ?am 0) tk"
    "alert_run sample_env hex_time {0..60} False
       (alone 0 None \<lparr>pt_point = Running, pt_matches = [sample_match 1], pt_immediate = []\<rparr> ?am (alert_tasks_new ?am 0)) tk"
    "tk_processors tk 0 = idle_processor" using sample_batch [of ?am "sample_match 1"] by metis
  have "faultless (am_db ?am)" using empty_db_faultless by (simp add: sample_manager_def)
  from tasks_forget_nothing [OF this sample_received tk(2), of "sample_match 1" 0] tk show ?thesis
    by (auto simp: idle_processor_def)
qed

theorem task_alone_is_sequential_witness:
  "\<exists>tk0 tk'. receive_matches 0 [sample_match 1] (alert_tasks_new digest_manager 0) = Some tk0 \<and> solo_run sample_env {0} 0 tk0 tk' \<and>
     tk_manager tk' = fst (process_matches_batch sample_env [(0, sample_match 1)] digest_manager)"
proof -
  let ?tk = "alert_tasks_new digest_manager 0"
  obtain tk0 where tk0: "receive_matches 0 [sample_match 1] ?tk = Some tk0" by (simp add: receive_matches_def alert_tasks_new_def idle_processor_def)
  have tk: "tk_action_locks ?tk = (\<lambda>_. None)" "tk_clock ?tk \<in> {0}" "tk_manager ?tk = digest_manager" by (simp_all add: alert_tasks_new_def)
  have "fst (process_matches_batch sample_env (zip [0] [sample_match 1]) digest_manager) \<in>
      {fst (process_matches_batch sample_env (zip ns [sample_match 1]) digest_manager) | ns. length ns = length [sample_match 1] \<and> set ns \<subseteq> {0}}"
    by (intro CollectI exI [of _ "[0]"]) simp
  then have "fst (process_matches_batch sample_env (zip [0] [sample_match 1]) digest_manager) \<in>
      {tk_manager tk' | tk'. solo_run sample_env {0} 0 tk0 tk' \<and> pt_point (tk_processors tk' 0) = Idle}"
    unfolding task_alone_is_sequential [OF lock_inv_new tk(1,2) tk0, of sample_env, THEN conjunct1, unfolded tk(3)] .
  then obtain tk' where "solo_run sample_env {0} 0 tk0 tk'"
    "tk_manager tk' = fst (process_matches_batch sample_env (zip [0] [sample_match 1]) digest_manager)"
    by (elim CollectE exE conjE) (rule that, assumption, erule sym)
  then show ?thesis using tk0 by (intro exI [of _ tk0] exI [of _ tk']) simp
qed

lemma dispatcher_alone_example:
  "\<exists>tk. alert_run sample_env hex_time {0} False (alert_tasks_new digest_manager 0) tk \<and>
     tk_manager tk = fst (check_and_dispatch_expired_windows sample_env hex_time 0 True digest_manager)"
  using dispatcher_alone_is_sequential [of "alert_tasks_new digest_manager 0" 0 sample_env hex_time "{0}" False True]
  by (simp add: alert_tasks_new_def digest_manager_def sample_manager_def) metis

end
