(* ===== verification/Argus_Service.thy ===== *)
theory Argus_Service
  imports Argus_Processor Argus_AlertTasks
begin

text \<open>
  The running service, \<open>src/src/supervisor/mod.rs\<close>: ingestor, block processor, filtering engine and alert manager with the channels
  between them, over one database. A step is a step of one of them; the outbox processor and writes of others are among the steps of the
  alert tasks. Channels have no bound here: a full one only delays its sender. The service runs without crashes, aborts and panics; what those lose
  is stated in \<open>Argus_Processor\<close>, \<open>Argus_AlertTasks\<close> and the supervisor's theory.
\<close>

section \<open>State and steps\<close>

text \<open>\<open>sv_ingested\<close> is the history of the ingestor, the block data it sent, and \<open>sv_found\<close> that of the filtering engine: the blocks it took
  and the matches it found. What it has not taken yet is the rest of \<open>pr_sent\<close>.\<close>

record service =
  sv_pipeline :: pipeline
  sv_ingested :: "block_data list"
  sv_found :: "(correlated_block \<times> monitor_match list) list"
  sv_batches :: "monitor_match list list"
  sv_tasks :: alert_tasks

definition service_db :: "service \<Rightarrow> db" where
  "service_db sv = am_db (tk_manager (sv_tasks sv))"

definition with_db :: "db \<Rightarrow> service \<Rightarrow> service" where
  "with_db s sv = sv\<lparr>sv_pipeline := (sv_pipeline sv)\<lparr>pl_processor := (pl_processor (sv_pipeline sv))\<lparr>pr_db := s\<rparr>\<rparr>,
     sv_tasks := (sv_tasks sv)\<lparr>tk_manager := (tk_manager (sv_tasks sv))\<lparr>am_db := s\<rparr>\<rparr>\<rparr>"

definition service_new :: "app_config \<Rightarrow> alert_manager \<Rightarrow> timestamp \<Rightarrow> service" where
  "service_new cfg am now = \<lparr>sv_pipeline = \<lparr>pl_ingestor = ingestor_new cfg, pl_queue = [],
       pl_processor = \<lparr>pr_buffer = [], pr_db = am_db am, pr_channel = None, pr_sent = []\<rparr>\<rparr>,
     sv_ingested = [], sv_found = [], sv_batches = [], sv_tasks = alert_tasks_new am now\<rparr>"

text \<open>\<open>ws\<close> holds the snapshots of the monitor manager and the panics that may occur. The engine takes the next block, evaluates each item
  against the snapshot of that moment and sends the matches, if any. The task
  of the alert manager receives the batches in order; the other steps of alert tasks start no batch and leave the progress of the
  block processor alone.\<close>

inductive service_step ::
  "app_config \<Rightarrow> 'ast batch_world set \<Rightarrow> 'ast filtering_engine \<Rightarrow> store_env \<Rightarrow> time_codec \<Rightarrow> timestamp set \<Rightarrow> service \<Rightarrow> service \<Rightarrow> bool"
  for cfg ws fe env tc T where
  ingest: "\<lbrakk>cycle_honest cfg (service_db sv, w);
      ingest_blocks cfg w (pl_ingestor (sv_pipeline sv)) (service_db sv) = Some (s, ig, sent, res)\<rbrakk> \<Longrightarrow>
    service_step cfg ws fe env tc T sv
      (with_db s (sv\<lparr>sv_pipeline := (sv_pipeline sv)\<lparr>pl_ingestor := ig, pl_queue := pl_queue (sv_pipeline sv) @ sent\<rparr>,
        sv_ingested := sv_ingested sv @ sent\<rparr>))"
| correlate: "\<lbrakk>pl_queue (sv_pipeline sv) = bd # q; w \<in> ws; pr = processor_receive cfg w bd (pl_processor (sv_pipeline sv))\<rbrakk> \<Longrightarrow>
    service_step cfg ws fe env tc T sv
      (with_db (pr_db pr) (sv\<lparr>sv_pipeline := (sv_pipeline sv)\<lparr>pl_queue := q, pl_processor := pr\<rparr>\<rparr>))"
| evaluate: "\<lbrakk>length (sv_found sv) < length (pr_sent (pl_processor (sv_pipeline sv)));
      cb = pr_sent (pl_processor (sv_pipeline sv)) ! length (sv_found sv); map snd items = cb_items cb; fst ` set items \<subseteq> bw_snapshot ` ws;
      ms = evaluate_block fe items\<rbrakk> \<Longrightarrow>
    service_step cfg ws fe env tc T sv
      (sv\<lparr>sv_found := sv_found sv @ [(cb, ms)], sv_batches := sv_batches sv @ (if ms = [] then [] else [ms])\<rparr>)"
| handle: "\<lbrakk>sv_batches sv = ms # rest; receive_matches 0 ms (sv_tasks sv) = Some tk\<rbrakk> \<Longrightarrow>
    service_step cfg ws fe env tc T sv (sv\<lparr>sv_batches := rest, sv_tasks := tk\<rparr>)"
| alert: "\<lbrakk>alert_step env tc T False (sv_tasks sv) tk; \<forall>i. pt_point (tk_processors (sv_tasks sv) i) = Idle \<longrightarrow> pt_point (tk_processors tk i) = Idle;
      persisted (ac_network_id cfg) (am_db (tk_manager tk)) = persisted (ac_network_id cfg) (service_db sv)\<rbrakk> \<Longrightarrow>
    service_step cfg ws fe env tc T sv (with_db (am_db (tk_manager tk)) (sv\<lparr>sv_tasks := tk\<rparr>))"

section \<open>The database\<close>

lemma progress_statements:
  "outbox_abs env (fst (set_last_processed_block net n s)) = outbox_abs env s"
  "faultless s \<Longrightarrow> faultless (fst (set_last_processed_block net n s))"
  "outbox_abs env (fst (get_last_processed_block net s)) = outbox_abs env s"
  "faultless s \<Longrightarrow> faultless (fst (get_last_processed_block net s))"
  by (auto simp: set_last_processed_block_def get_last_processed_block_def modify_def select_def exec_def Let_def bindS_def
      outbox_abs_def faultless_def split: option.splits if_splits sum.splits prod.splits)

lemma receive_db: "pr_db (processor_receive cfg w bd pr) \<in> {pr_db pr} \<union> range (\<lambda>n. fst (set_last_processed_block (ac_network_id cfg) n (pr_db pr)))"
  by (auto simp: processor_receive_def process_and_dispatch_def Let_def split: sum.splits prod.splits option.splits)

lemma receive_sent: "\<exists>new. pr_sent (processor_receive cfg w bd pr) = pr_sent pr @ new"
  by (auto simp: processor_receive_def process_and_dispatch_def Let_def split: sum.splits prod.splits option.splits)

lemma ingest_db: "ingest_blocks cfg w ig s = Some (t, r) \<Longrightarrow> t = fst (get_last_processed_block (ac_network_id cfg) s)"
  by (auto simp: ingest_blocks_def split: prod.splits sum.splits)

text \<open>Writes of the processor are a case of what the alert tasks allow.\<close>

lemma write_is_step:
  assumes "outbox_abs env s = outbox_abs env (am_db (tk_manager tk))" "faultless (am_db (tk_manager tk)) \<longrightarrow> faultless s"
  shows "alert_step env tc T aborts tk (tk\<lparr>tk_manager := (tk_manager tk)\<lparr>am_db := s\<rparr>\<rparr>)"
proof -
  have "take_from_outbox env {} s tk = tk\<lparr>tk_manager := (tk_manager tk)\<lparr>am_db := s\<rparr>\<rparr>" by (cases tk) (simp add: take_from_outbox_def)
  then show ?thesis using alert_step.outbox [of env s "{}" tk tc T aborts] assms by simp
qed

text \<open>The condition on the progress of the processor only restrains the writes of others: no step of a task of the alert manager writes it.\<close>

interpretation progress: db_predicate "\<lambda>s. persisted net s = x" for net x
  by unfold_locales (simp add: persisted_def)

lemma set_json_state_persisted: "persisted net (fst (set_json_state enc k v s)) = persisted net s"
  unfolding set_json_state_def by (rule progress.modify_keeps) (simp_all add: persisted_def)

lemma insert_or_ignore_persisted: "persisted net (fold (insert_or_ignore env) items s) = persisted net s"
  by (induction items arbitrary: s) (auto simp: insert_or_ignore_def persisted_def Let_def split: prod.splits)

lemma enqueue_persisted: "persisted net s = x \<Longrightarrow> persisted net (fst (enqueue_outbox_batch env items s)) = x"
proof -
  assume s: "persisted net s = x"
  have chunk: "persisted net (fst (enqueue_chunk env c s)) = x" if "persisted net s = x" for c s
    unfolding enqueue_chunk_def by (rule progress.exec_keeps [OF _ that]) (simp add: insert_or_ignore_persisted)
  have "persisted net (fst (foldS (enqueue_chunk env) cs s)) = x" if "persisted net s = x" for cs s
    by (rule foldS_invariant [where P = "\<lambda>s. persisted net s = x"]) (use chunk that in auto)
  then show ?thesis using s unfolding enqueue_outbox_batch_def
    by (cases "items = []") (simp_all add: progress.transaction_keeps)
qed

lemma dispatch_persisted: "persisted net (am_db (fst (dispatch_payloads_batch env ps am))) = persisted net (am_db am)"
  by (rule dispatch_keeps [where P = "\<lambda>s. persisted net s = persisted net (am_db am)"]) (auto intro: enqueue_persisted)

lemma tasks_leave_progress:
  "processor_step env i tk = Some tk' \<Longrightarrow> persisted net (am_db (tk_manager tk')) = persisted net (am_db (tk_manager tk))"
  "dispatcher_step env tc j choice tk = Some tk' \<Longrightarrow> persisted net (am_db (tk_manager tk')) = persisted net (am_db (tk_manager tk))"
proof -
  assume "processor_step env i tk = Some tk'"
  then show "persisted net (am_db (tk_manager tk')) = persisted net (am_db (tk_manager tk))"
    by (cases rule: processor_step_cases) (auto simp: task_updates dispatch_payload_def dispatch_persisted dest!: throttle_section_frame)
next
  assume "dispatcher_step env tc j choice tk = Some tk'"
  then show "persisted net (am_db (tk_manager tk')) = persisted net (am_db (tk_manager tk))"
  proof (cases rule: dispatcher_step_cases)
    case (save k v rest s r)
    then show ?thesis using set_json_state_persisted [of net id k v "am_db (tk_manager tk)"] by (simp add: task_updates)
  qed (auto simp: task_updates dispatch_persisted dest!: visit_window_frame)
qed

section \<open>Nothing is lost\<close>

text \<open>Where a match found by the engine is.\<close>

definition accounted :: "store_env \<Rightarrow> service \<Rightarrow> monitor_match \<Rightarrow> bool" where
  "accounted env sv m \<longleftrightarrow> m \<in> set (concat (sv_batches sv)) \<or> m \<in> set (pt_matches (tk_processors (sv_tasks sv) 0)) \<or> at_hand env (sv_tasks sv) m"

text \<open>The engine's record of a block: its items were evaluated, in order, each against a snapshot of the manager.\<close>

definition evaluation_of :: "'ast batch_world set \<Rightarrow> 'ast filtering_engine \<Rightarrow> correlated_block \<Rightarrow> monitor_match list \<Rightarrow> bool" where
  "evaluation_of ws fe cb ms \<longleftrightarrow> (\<exists>items. map snd items = cb_items cb \<and> fst ` set items \<subseteq> bw_snapshot ` ws \<and> ms = evaluate_block fe items)"

definition service_inv :: "app_config \<Rightarrow> 'ast batch_world set \<Rightarrow> 'ast filtering_engine \<Rightarrow> store_env \<Rightarrow> nat \<Rightarrow> alert_tasks \<Rightarrow> service \<Rightarrow> bool" where
  "service_inv cfg ws fe env b tk0 sv \<longleftrightarrow>
     pr_db (pl_processor (sv_pipeline sv)) = service_db sv \<and> pipe_ok cfg b (sv_pipeline sv) \<and> lock_inv (sv_tasks sv) \<and>
     faultless (service_db sv) \<and> verdicts_ok env (sv_tasks sv) \<and> grows env tk0 (sv_tasks sv) \<and>
     map fst (sv_found sv) = take (length (sv_found sv)) (pr_sent (pl_processor (sv_pipeline sv))) \<and>
     (\<forall>(cb, ms) \<in> set (sv_found sv). evaluation_of ws fe cb ms \<and> (\<forall>m \<in> set ms. accounted env sv m))"

lemma service_inv_tasks:
  assumes "service_inv cfg ws fe env b tk0 sv" "alert_step env tc T False (sv_tasks sv) tk"
    and "sv_tasks sv' = tk" "sv_found sv' = sv_found sv" "pr_db (pl_processor (sv_pipeline sv')) = am_db (tk_manager tk)"
    and "\<exists>new. pr_sent (pl_processor (sv_pipeline sv')) = pr_sent (pl_processor (sv_pipeline sv)) @ new" "pipe_ok cfg b (sv_pipeline sv')"
    and "\<And>m. m \<in> set (concat (sv_batches sv)) \<Longrightarrow> m \<in> set (concat (sv_batches sv')) \<or> m \<in> set (pt_matches (tk_processors tk 0))"
  shows "service_inv cfg ws fe env b tk0 sv'"
proof -
  have inv: "lock_inv (sv_tasks sv)" "faultless (am_db (tk_manager (sv_tasks sv)))" "verdicts_ok env (sv_tasks sv)" "grows env tk0 (sv_tasks sv)"
    using assms(1) by (simp_all add: service_inv_def service_db_def)
  note step = alert_step_keeps [OF assms(2) inv(2,1,3), of 0]
  have grown: "grows env tk0 tk" using grows_trans [OF inv(4) alert_step_grows [OF assms(2) inv(2)]] .
  have acc: "accounted env sv' m" if "accounted env sv m" for m
    using that step assms(3,8) at_hand_keeps [of env "sv_tasks sv" m tk] by (auto simp: accounted_def)
  have "length (sv_found sv) \<le> length (pr_sent (pl_processor (sv_pipeline sv)))"
    using assms(1) unfolding service_inv_def by (metis length_map length_take min.cobounded1)
  then have "map fst (sv_found sv') = take (length (sv_found sv')) (pr_sent (pl_processor (sv_pipeline sv')))"
    using assms(1,4-6) by (auto simp: service_inv_def)
  then show ?thesis
    using assms(1,3-5,7) acc step grown lock_inv_step [OF assms(2) inv(1)] by (fastforce simp: service_inv_def service_db_def)
qed

lemma service_step_inv:
  assumes step: "service_step cfg ws fe env tc T sv sv'" and ws: "\<And>w. w \<in> ws \<Longrightarrow> bw_panic w = None"
    and inv: "service_inv cfg ws fe env b tk0 sv"
  shows "service_inv cfg ws fe env b tk0 sv'"
proof -
  let ?p = "sv_pipeline sv"
  have db: "pr_db (pl_processor ?p) = service_db sv" and ok: "pipe_ok cfg b ?p" and live: "faultless (service_db sv)"
    using inv by (simp_all add: service_inv_def)
  note pipe = pipe_step_ok [OF _ ws ok]
  show ?thesis using step
  proof (cases rule: service_step.cases)
    case (ingest w s ig sent res)
    have s: "outbox_abs env s = outbox_abs env (service_db sv)" "faultless s"
      using ingest_db [OF ingest(3)] progress_statements live by auto
    have "pipe_ok cfg b (?p\<lparr>pl_ingestor := ig, pl_queue := pl_queue ?p @ sent, pl_processor := (pl_processor ?p)\<lparr>pr_db := s\<rparr>\<rparr>)"
      by (rule pipe [OF pipe_step.ingest]) (use ingest db in auto)
    then show ?thesis
      by (intro service_inv_tasks [OF inv write_is_step [of env s]]) (use ingest s in \<open>auto simp: with_db_def service_db_def\<close>)
  next
    case (correlate bd q w pr)
    have s: "outbox_abs env (pr_db pr) = outbox_abs env (service_db sv)" "faultless (pr_db pr)"
      using receive_db [of cfg w bd "pl_processor ?p"] progress_statements live unfolding correlate(4) db by auto
    have "pipe_ok cfg b (?p\<lparr>pl_queue := q, pl_processor := pr\<rparr>)"
      unfolding correlate(4) by (rule pipe [OF pipe_step.receive]) (use correlate in auto)
    then show ?thesis using receive_sent [of cfg w bd "pl_processor ?p"] correlate(4)
      by (intro service_inv_tasks [OF inv write_is_step [of env "pr_db pr"]] )
         (use correlate s in \<open>auto simp: with_db_def service_db_def\<close>)
  next
    case (evaluate cb items ms)
    have "accounted env sv' m" if "accounted env sv m \<or> m \<in> set ms" for m
      using that evaluate(1) by (auto simp: accounted_def)
    moreover have "map fst (sv_found sv) @ [cb] = take (Suc (length (sv_found sv))) (pr_sent (pl_processor ?p))"
      using inv evaluate(2,3) by (simp add: service_inv_def take_Suc_conv_app_nth)
    moreover have "evaluation_of ws fe cb ms" using evaluate(4-6) by (auto simp: evaluation_of_def)
    ultimately show ?thesis using inv evaluate(1) by (fastforce simp: service_inv_def service_db_def)
  next
    case (handle ms rest tk)
    note r = alert_step.receive [OF handle(3), of env tc T False]
    have tk: "tk_manager tk = tk_manager (sv_tasks sv)" "pt_matches (tk_processors tk 0) = ms"
      using handle(3) by (auto simp: receive_matches_def set_processor_def split: if_splits)
    show ?thesis
      by (rule service_inv_tasks [OF inv r] )
         (use handle tk db ok in \<open>auto simp: service_db_def\<close>)
  next
    case (alert tk)
    have "pipe_ok cfg b (?p\<lparr>pl_processor := (pl_processor ?p)\<lparr>pr_db := am_db (tk_manager tk)\<rparr>\<rparr>)"
      by (rule pipe [OF pipe_step.other]) (use alert db in auto)
    then show ?thesis
      by (intro service_inv_tasks [OF inv alert(2)] )
         (use alert in \<open>auto simp: with_db_def\<close>)
  qed
qed

text \<open>Where correlated blocks come from: each is the correlation of block data that the ingestor sent, under a snapshot of the manager.\<close>

definition correlation_of :: "'ast batch_world set \<Rightarrow> block_data list \<Rightarrow> correlated_block \<Rightarrow> bool" where
  "correlation_of ws bds cb \<longleftrightarrow> (\<exists>w \<in> ws. \<exists>bd \<in> set bds. cb = process_block (bw_snapshot w) bd)"

definition sources_ok :: "'ast batch_world set \<Rightarrow> service \<Rightarrow> bool" where
  "sources_ok ws sv \<longleftrightarrow>
     set (pr_buffer (pl_processor (sv_pipeline sv))) \<union> set (pl_queue (sv_pipeline sv)) \<subseteq> set (sv_ingested sv) \<and>
     (\<forall>cb \<in> set (pr_sent (pl_processor (sv_pipeline sv))). correlation_of ws (sv_ingested sv) cb)"

lemma send_correlated_sent: "send_correlated cbs l ch = (ch', sent, out) \<Longrightarrow> set sent \<subseteq> set cbs"
  by (induction cbs l ch arbitrary: ch' sent out rule: send_correlated.induct) (auto split: if_splits prod.splits)

lemma receive_sources:
  "set (pr_buffer (processor_receive cfg w bd pr)) \<subseteq> insert bd (set (pr_buffer pr))"
  "set (pr_sent (processor_receive cfg w bd pr)) \<subseteq> set (pr_sent pr) \<union> process_block (bw_snapshot w) ` insert bd (set (pr_buffer pr))"
  by (auto simp: processor_receive_def process_and_dispatch_def process_blocks_batch_def Let_def
      split: sum.splits prod.splits option.splits if_splits dest!: send_correlated_sent)

lemma sources_step: "service_step cfg ws fe env tc T sv sv' \<Longrightarrow> sources_ok ws sv \<Longrightarrow> sources_ok ws sv'"
proof (induction rule: service_step.induct)
  case (ingest sv w s ig sent res)
  then show ?case by (fastforce simp: sources_ok_def with_db_def correlation_of_def)
next
  case (correlate sv bd q w pr)
  let ?old = "pl_processor (sv_pipeline sv)"
  have taken: "insert bd (set (pr_buffer ?old)) \<subseteq> set (sv_ingested sv)" "set q \<subseteq> set (sv_ingested sv)"
    using correlate(1,4) by (auto simp: sources_ok_def)
  have "correlation_of ws (sv_ingested sv) cb" if "cb \<in> set (pr_sent pr)" for cb
    using that correlate(2-4) receive_sources(2) [of cfg w bd ?old] taken(1) by (fastforce simp: sources_ok_def correlation_of_def)
  then show ?case using taken correlate(3) receive_sources(1) [of cfg w bd ?old] by (auto simp: sources_ok_def with_db_def)
qed (auto simp: sources_ok_def with_db_def)

text \<open>C2. The running service loses no match: in every state the service reaches without crashes, aborts and panics on a store that
  refuses nothing, every block from the one after the block persisted at the start up to the block persisted now was sent to the filtering
  engine as the correlation, under a snapshot of the manager, of block data the ingestor sent. The engine has taken a prefix of the sent blocks in their
  order; a sent block is still before it, or was evaluated, all its items in order, each against a snapshot of the manager, and every match
  found in it is in a batch on the way to the alert manager, with the task that handles its batch, or at hand there: handed over and
  queued in the outbox, decided on by the throttle, in the window of its action, or in a payload on its way to the outbox. Every match the
  throttle let through is queued or being dispatched, and what was ever in the outbox was there at the start or stores a payload
  that was handed over.\<close>

theorem service_loses_no_match:
  assumes "(service_step cfg ws fe env tc T)\<^sup>*\<^sup>* (service_new cfg am now) sv" "\<And>w. w \<in> ws \<Longrightarrow> bw_panic w = None"
    and "faultless (am_db am)" "persisted (ac_network_id cfg) (am_db am) = Some (int b)" "int b \<le> i64_max"
  defines "sent \<equiv> pr_sent (pl_processor (sv_pipeline sv))"
  shows "\<exists>q. persisted (ac_network_id cfg) (service_db sv) = Some (int q) \<and> b \<le> q \<and>
    (\<forall>n. b < n \<longrightarrow> n \<le> q \<longrightarrow> (\<exists>cb \<in> set sent. unat (cb_block_number cb) = n)) \<and>
    (\<forall>cb \<in> set sent. correlation_of ws (sv_ingested sv) cb) \<and>
    sent = map fst (sv_found sv) @ drop (length (sv_found sv)) sent \<and>
    (\<forall>(cb, ms) \<in> set (sv_found sv). evaluation_of ws fe cb ms \<and> (\<forall>m \<in> set ms. accounted env sv m)) \<and>
    (\<forall>m. (m, True) \<in> set (tk_verdicts (sv_tasks sv)) \<longrightarrow> let_through env (sv_tasks sv) m) \<and>
    ever_entries env (sv_tasks sv) \<subseteq> set (outbox_tags (outbox_abs env (am_db am))) \<union> entry_of_payload env ` set (tk_handed (sv_tasks sv))"
proof -
  let ?tk0 = "alert_tasks_new am now"
  have "service_inv cfg ws fe env b ?tk0 (service_new cfg am now) \<and> sources_ok ws (service_new cfg am now)"
    using assms(3-5) lock_inv_new
    by (auto simp: service_inv_def service_new_def service_db_def pipe_ok_def in_flight_def sent_upto_def ingestor_new_def alert_tasks_new_def Let_def
        verdicts_ok_def idle_processor_def grows_def sources_ok_def intro!: exI [of _ b])
  with assms(1) have inv: "service_inv cfg ws fe env b ?tk0 sv" "sources_ok ws sv"
    by (induction rule: rtranclp_induct) (auto intro: service_step_inv sources_step assms(2))
  obtain q where q: "persisted (ac_network_id cfg) (service_db sv) = Some (int q)" "b \<le> q" "sent_upto b q (pl_processor (sv_pipeline sv))"
    using inv(1) by (auto simp: service_inv_def pipe_ok_def)
  have "\<exists>cb \<in> set sent. unat (cb_block_number cb) = n" if "b < n" "n \<le> q" for n
  proof -
    have "n \<in> {Suc b..q}" using that by simp
    then have "n \<in> (unat \<circ> cb_block_number) ` set sent" using q(3) unfolding sent_upto_def sent_def by blast
    then show ?thesis by auto
  qed
  moreover have "sent = map fst (sv_found sv) @ drop (length (sv_found sv)) sent"
    using inv(1) unfolding service_inv_def sent_def by (metis append_take_drop_id)
  moreover have "ever_entries env ?tk0 = set (outbox_tags (outbox_abs env (am_db am)))"
    by (simp add: ever_entries_def alert_tasks_new_def outbox_tags_def)
  ultimately show ?thesis using q(1,2) inv by (auto simp: service_inv_def sources_ok_def verdicts_ok_def grows_def sent_def)
qed

section \<open>Witness\<close>

definition sample_service_manager :: alert_manager where
  "sample_service_manager = (sample_manager digest_action)\<lparr>am_db := sample_db_at 3\<rparr>"

theorem service_loses_no_match_witness:
  "\<exists>sv cb. (service_step sample_app_config {\<lparr>bw_snapshot = sample_snapshot, bw_panic = None\<rparr>} sample_filter sample_env hex_time {0})\<^sup>*\<^sup>*
       (service_new sample_app_config sample_service_manager 0) sv \<and>
     persisted ''mainnet'' (service_db sv) = Some 4 \<and> cb \<in> set (pr_sent (pl_processor (sv_pipeline sv))) \<and>
     unat (cb_block_number cb) = 4 \<and> correlation_of {\<lparr>bw_snapshot = sample_snapshot, bw_panic = None\<rparr>} (sv_ingested sv) cb"
proof -
  let ?cfg = sample_app_config and ?w = "\<lparr>bw_snapshot = sample_snapshot, bw_panic = None\<rparr>" and ?sv = "service_new sample_app_config sample_service_manager 0"
  let ?step = "service_step ?cfg {?w} sample_filter sample_env hex_time {0}"
  obtain ig sent where c: "ingest_blocks ?cfg (sample_world sample_provider) (ingestor_new ?cfg) (sample_db_at 3) =
      Some (sample_db_at 3\<lparr>db_queries := 1\<rparr>, ig, sent, Inr ())" "map block_number sent = u64_range 4 6"
    using sample_first_cycle by blast
  then obtain bd rest where bd: "sent = bd # rest" "block_number bd = 4" by (cases sent) (auto simp: u64_range_def)
  have start: "service_db ?sv = sample_db_at 3" "sv_pipeline ?sv = sample_pipeline"
    by (simp_all add: service_new_def service_db_def alert_tasks_new_def sample_service_manager_def sample_pipeline_def)
  define sv1 where "sv1 = with_db (sample_db_at 3\<lparr>db_queries := 1\<rparr>) (?sv\<lparr>sv_pipeline := (sv_pipeline ?sv)\<lparr>pl_ingestor := ig, pl_queue := pl_queue (sv_pipeline ?sv) @ sent\<rparr>,
    sv_ingested := sv_ingested ?sv @ sent\<rparr>)"
  have one: "?step ?sv sv1" unfolding sv1_def
    by (rule service_step.ingest [of ?cfg _ "sample_world sample_provider" _ ig sent "Inr ()"])
       (use c(1) sample_honest [of "Inr 10"] in \<open>simp_all add: start sample_pipeline_def sample_provider_up\<close>)
  define pr where "pr = processor_receive ?cfg ?w bd (pl_processor (sv_pipeline sv1))"
  define sv2 where "sv2 = with_db (pr_db pr) (sv1\<lparr>sv_pipeline := (sv_pipeline sv1)\<lparr>pl_queue := rest, pl_processor := pr\<rparr>\<rparr>)"
  have two: "?step sv1 sv2" unfolding sv2_def
    by (rule service_step.correlate [of _ bd]) (simp_all add: sv1_def with_db_def start sample_pipeline_def bd pr_def)
  have steps: "?step\<^sup>*\<^sup>* ?sv sv2" using one two by simp
  have p1: "pl_processor (sv_pipeline sv1) = \<lparr>pr_buffer = [], pr_db = sample_db_at 3\<lparr>db_queries := 1\<rparr>, pr_channel = None, pr_sent = []\<rparr>"
    by (simp add: sv1_def with_db_def start sample_pipeline_def)
  have "persisted ''mainnet'' (pr_db pr) = Some 4"
    using bd(2) by (simp add: pr_def p1 processor_receive_def process_and_dispatch_def process_blocks_batch_def
        process_block_def block_number_def sample_app_config_def set_last_processed_block_def i64_max_def modify_def exec_def
        persisted_def sample_db_at_def empty_db_def Let_def)
  then have p: "persisted ''mainnet'' (service_db sv2) = Some 4" by (simp add: sv2_def with_db_def service_db_def)
  have init: "faultless (am_db sample_service_manager)" "persisted (ac_network_id ?cfg) (am_db sample_service_manager) = Some (int 3)" "int 3 \<le> i64_max"
    by (simp_all add: sample_service_manager_def sample_db_at_def faultless_def empty_db_def persisted_def sample_network i64_max_def)
  from service_loses_no_match [OF steps _ init] p
  have sent: "\<forall>n. 3 < n \<longrightarrow> n \<le> 4 \<longrightarrow> (\<exists>cb \<in> set (pr_sent (pl_processor (sv_pipeline sv2))). unat (cb_block_number cb) = n)"
    "\<forall>cb \<in> set (pr_sent (pl_processor (sv_pipeline sv2))). correlation_of {?w} (sv_ingested sv2) cb" by (auto simp: sample_network)
  from sent(1) obtain cb where "cb \<in> set (pr_sent (pl_processor (sv_pipeline sv2)))" "unat (cb_block_number cb) = 4" by auto
  then show ?thesis using steps p sent(2) by blast
qed

end
