(* ===== verification/Argus_Startup.thy ===== *)
theory Argus_Startup
  imports Argus_Context Argus_Alerts Argus_Dispatch
begin

text \<open>
  \<open>AppContextBuilder::build\<close>, \<open>src/src/context/mod.rs\<close>: the order in which the configuration, the database and the
  services come up, and what a start that succeeds has established; and the start block argument of \<open>main.rs\<close>. Opening the database and its migrations happen before;
  the value \<open>None\<close> is a panic of the monitor validator or of ABI linking.
\<close>

section \<open>The start block on the command line\<close>

definition parse_start_block_arg :: "string \<Rightarrow> string + initial_start_block" where
  "parse_start_block_arg s =
     (if eq_ignore_ascii_case s ''latest'' then Inr Latest
      else
        (case parse_i64 s of
           Inr n \<Rightarrow> Inr (if 0 \<le> n then Absolute (word_of_int n) else Offset n)
         | Inl _ \<Rightarrow> Inl (''Invalid start block: must be an integer or '' @ quote ''latest'' @ '', got '' @ quote s)))"

text \<open>The argument is read like the value in the configuration file, except for zero, which is a block here and the default offset there.\<close>

lemma cli_like_config:
  assumes "parse_i64 s = Inr n" "\<not> eq_ignore_ascii_case s ''latest''"
  shows "n \<noteq> 0 \<Longrightarrow> parse_start_block_arg s = ok_or e (initial_start_block_of_json (JNumber n))"
    and "n = 0 \<Longrightarrow> parse_start_block_arg s = Inr (Absolute 0) \<and> initial_start_block_of_json (JNumber n) = Some default_initial_start_block"
proof -
  have "- (2 ^ 63) \<le> n \<and> n \<le> i64_max"
    using assms(1) by (auto simp: parse_i64_def Let_def i64_max_def split: if_splits option.splits)
  then show "n \<noteq> 0 \<Longrightarrow> parse_start_block_arg s = ok_or e (initial_start_block_of_json (JNumber n))"
    "n = 0 \<Longrightarrow> parse_start_block_arg s = Inr (Absolute 0) \<and> initial_start_block_of_json (JNumber n) = Some default_initial_start_block"
    using assms by (simp_all add: parse_start_block_arg_def initial_start_block_of_json_def i64_max_def)
qed

section \<open>Building the context\<close>

record 'ast app_context =
  ctx_config :: app_config
  ctx_abi_service :: abi_service
  ctx_monitor_manager :: "'ast monitor_manager"
  ctx_dispatcher :: dispatcher
  ctx_alert_manager :: alert_manager
  ctx_validator :: "'ast monitor_validator"

text \<open>The map of actions by name; a later action replaces an earlier one of its name.\<close>

definition actions_by_name :: "action_config list \<Rightarrow> (string \<times> action_config) list" where
  "actions_by_name actions = fold (\<lambda>a. AList.update (ac_name a) a) actions []"

text \<open>The services over the loaded store.\<close>

definition build_services ::
  "'ast context_env \<Rightarrow> 'w services \<Rightarrow> time_codec \<Rightarrow> app_config \<Rightarrow> abi_service \<Rightarrow> 'ast script_cache \<Rightarrow> (db, app_context_error, 'ast app_context) op" where
  "build_services env services tc cfg sv cache s =
     (case init_err MonitorLoad ''Failed to fetch monitors from DB'' (get_monitors (ac_network_id cfg)) s of
        (s, Inl e) \<Rightarrow> (s, Inl (Initialization e))
      | (s, Inr monitors) \<Rightarrow>
          (case init_err ActionLoad ''Failed to fetch actions from DB'' (get_actions (cx_store env) (ac_network_id cfg)) s of
             (s, Inl e) \<Rightarrow> (s, Inl (Initialization e))
           | (s, Inr actions) \<Rightarrow>
               (case dispatcher_new services (actions_by_name actions) of
                  Inl _ \<Rightarrow> (s, Inl (Initialization (ActionLoad ''Failed to initialize action dispatcher'')))
                | Inr dispatcher \<Rightarrow>
                    (case alert_manager_new (cx_store env) tc (actions_by_name actions) s of
                       Inl _ \<Rightarrow> (s, Inl (Initialization (AlertManagerInitialization ''Failed to initialize alert manager'')))
                     | Inr alerts \<Rightarrow>
                         (am_db alerts, Inr \<lparr>ctx_config = cfg, ctx_abi_service = sv,
                           ctx_monitor_manager = monitor_manager_new (cx_engine env) (cx_registry env sv) monitors cache,
                           ctx_dispatcher = dispatcher, ctx_alert_manager = alerts, ctx_validator = cx_validator env sv actions\<rparr>)))))"

definition app_context_build ::
  "'ast context_env \<Rightarrow> 'w services \<Rightarrow> time_codec \<Rightarrow> string + app_config \<Rightarrow> initial_start_block option \<Rightarrow> string option \<Rightarrow>
     (string + (string + dir_entry) list) option \<Rightarrow> string + u64 \<Rightarrow> db \<Rightarrow> (db \<times> (app_context_error + 'ast app_context)) option" where
  "app_context_build env services tc loaded from_block url dir node s =
     (case loaded of
        Inl e \<Rightarrow> Some (s, Inl (ContextConfig e))
      | Inr cfg0 \<Rightarrow>
          (let cfg = apply_overrides from_block url cfg0
           in case prepare_store env cfg dir s of
                (s, Inl e) \<Rightarrow> Some (s, Inl e)
              | (s, Inr sv) \<Rightarrow>
                (case create_provider (ac_rpc_urls cfg) (ac_rpc_retry_config cfg) of
                  Inl e \<Rightarrow> Some (s, Inl e)
                | Inr _ \<Rightarrow>
                  (case bindS (initialize_block_state cfg node) (\<lambda>_. load_actions_from_file env cfg) s of
                     (s, Inl e) \<Rightarrow> Some (s, Inl (Initialization e))
                   | (s, Inr _) \<Rightarrow>
                       Option.bind (load_monitors_from_file env cfg sv [] s) (\<lambda>(s, cache, r).
                         case r of
                           Inl e \<Rightarrow> Some (s, Inl (Initialization e))
                         | Inr _ \<Rightarrow>
                             Option.bind (load_abis_from_monitors env cfg sv s) (\<lambda>(s, sv, r).
                               case r of
                                 Inl e \<Rightarrow> Some (s, Inl (Initialization e))
                               | Inr _ \<Rightarrow> Some (build_services env services tc cfg sv cache s)))))))"

section \<open>The steps keep the tables\<close>

lemma init_err_keeps: "P (fst (m s)) \<Longrightarrow> P (fst (init_err k msg m s))"
  by (simp add: init_err_def)

lemma read_db_ok: "same_tables s (fst (m s)) \<Longrightarrow> db_ok s \<Longrightarrow> db_ok (fst (m s))"
  using db_ok.counter_blind by (metis same_tables_def)

lemma sync_abis_ok: "db_ok s \<Longrightarrow> db_ok (fst (sync_abis_from_filesystem env dir s))"
  unfolding sync_abis_from_filesystem_def sync_entry_def
  by (auto split: option.splits sum.splits intro!: foldS_invariant [where P = db_ok] db_ok.bindS_keeps init_err_keeps [where P = db_ok]
      create_abi_ok read_db_ok [of _ "get_abi _"] read_only)

lemma prepare_store_ok: "db_ok s \<Longrightarrow> db_ok (fst (prepare_store env cfg dir s))"
proof -
  assume ok: "db_ok s"
  obtain t r where t: "sync_abis_from_filesystem (cx_loader env) dir s = (t, r)" by fastforce
  then have "db_ok t" using sync_abis_ok [OF ok, of "cx_loader env" dir] by simp
  then have "db_ok (fst (get_all_abis t))" by (intro read_db_ok read_only)
  then show ?thesis using t \<open>db_ok t\<close>
    by (auto simp: prepare_store_def abi_repository_new_def split: prod.splits sum.splits)
qed

lemma block_state_ok: "db_ok s \<Longrightarrow> db_ok (fst (initialize_block_state cfg node s))"
  unfolding initialize_block_state_def
  by (auto intro!: db_ok.bindS_keeps init_err_keeps [where P = db_ok] set_last_processed_block_ok
      read_db_ok [of _ "get_last_processed_block _"] read_only)

lemma load_actions_ok: "db_ok s \<Longrightarrow> db_ok (fst (load_actions_from_file env cfg s))"
  unfolding load_actions_from_file_def
  by (auto intro!: db_ok.bindS_keeps init_err_keeps [where P = db_ok] foldS_invariant [where P = db_ok] create_action_ok clear_actions_ok
      read_db_ok [of _ "get_actions _ _"] read_only)

lemma load_monitors_ok:
  assumes "load_monitors_from_file env cfg sv cache s = Some (t, c, r)" "db_ok s"
  shows "db_ok t"
proof -
  obtain u q where u: "get_monitors (ac_network_id cfg) s = (u, q)" by fastforce
  have okr: "db_ok u" using read_db_ok [of s "get_monitors (ac_network_id cfg)"] read_only assms(2) u by (metis fst_conv)
  obtain v q' where v: "get_actions (cx_store env) (ac_network_id cfg) u = (v, q')" by fastforce
  have okv: "db_ok v" using read_db_ok [of u "get_actions (cx_store env) (ac_network_id cfg)"] read_only okr v by (metis fst_conv)
  have add: "db_ok (fst (bindS (init_err MonitorLoad ''Failed to clear existing monitors in DB'' (clear_monitors (ac_network_id cfg))) (\<lambda>_.
      init_err MonitorLoad ''Failed to add monitors to DB'' (add_monitors (cx_store env) (ac_network_id cfg) ms)) v))" for ms
    by (intro db_ok.bindS_keeps init_err_keeps [where P = db_ok] clear_monitors_ok add_monitors_ok okv)
  show ?thesis using assms(1) u v okr okv add
    by (auto simp: load_monitors_from_file_def init_err_def split: sum.splits if_splits bind_splits prod.splits) (metis fst_conv)+
qed

lemma load_abis_same:
  assumes "load_abis_from_monitors env cfg sv s = Some (t, sv', r)"
  shows "t = fst (get_monitors (ac_network_id cfg) s)"
  using assms by (cases "get_monitors (ac_network_id cfg) s") (auto simp: load_abis_from_monitors_def init_err_def split: sum.splits)

lemma alert_manager_new_same:
  assumes "alert_manager_new env tc actions s = Inr am"
  shows "same_tables s (am_db am) \<and> am_actions am = actions"
proof -
  obtain s1 q where 1: "get_all_json_states_by_prefix (throttle_state_of_json tc) throttle_prefix s = (s1, q)" by fastforce
  obtain s2 q' where 2: "get_all_json_states_by_prefix (aggregation_state_of_json (se_codec env) tc) aggregation_prefix s1 = (s2, q')" by fastforce
  have "same_tables s s1" "same_tables s1 s2"
    using read_only(10) [of s "throttle_state_of_json tc" throttle_prefix] 1
      read_only(10) [of s1 "aggregation_state_of_json (se_codec env) tc" aggregation_prefix] 2 by simp_all
  then show ?thesis using assms 1 2 same_tables_trans by (auto simp: alert_manager_new_def split: sum.splits)
qed

lemma get_monitors_rows:
  "snd (get_monitors net s) = Inr ms \<Longrightarrow> traverse monitor_of_row (filter (\<lambda>r. mr_network r = net) (db_monitors s)) = Inr ms"
  by (cases "get_monitors net s") (auto simp: get_monitors_def bindS_Inr_iff select_Inr)

lemma load_abis_links:
  assumes "load_abis_from_monitors env cfg sv s = Some (t, sv', Inr ())"
    and "traverse monitor_of_row (filter (\<lambda>r. mr_network r = ac_network_id cfg) (db_monitors s)) = Inr ms"
  shows "\<forall>m \<in> set ms. \<forall>addr abi. mon_address m = Some addr \<longrightarrow> mon_abi_name m = Some abi \<longrightarrow>
      (if eq_ignore_ascii_case addr ''all'' then has_global_abi sv' abi else \<exists>a. cx_parse_address env addr = Some a \<and> is_monitored sv' a)"
proof -
  obtain u q where g: "get_monitors (ac_network_id cfg) s = (u, q)" by fastforce
  then obtain ms' where ms': "q = Inr ms'" using assms(1) by (cases q) (auto simp: load_abis_from_monitors_def init_err_def)
  have "ms' = ms" using get_monitors_rows [of "ac_network_id cfg" s ms'] g ms' assms(2) by simp
  then have "link_monitor_abis (cx_abi_lib env) (cx_parse_address env) ms sv = Some (sv', Inr ())"
    using assms(1) g ms' by (auto simp: load_abis_from_monitors_def init_err_def)
  then show ?thesis using link_monitor_abis_links by blast
qed

lemma build_services_ready:
  assumes "build_services env services tc cfg sv cache s = (t, Inr ctx)"
  shows "same_tables s t \<and> ctx_config ctx = cfg \<and> ctx_abi_service ctx = sv \<and> am_db (ctx_alert_manager ctx) = t \<and>
    dispatcher_new services (am_actions (ctx_alert_manager ctx)) = Inr (ctx_dispatcher ctx) \<and>
    (\<exists>ms. snd (get_monitors (ac_network_id cfg) s) = Inr ms \<and>
      ctx_monitor_manager ctx = monitor_manager_new (cx_engine env) (cx_registry env sv) ms cache)"
proof -
  obtain u q where u: "get_monitors (ac_network_id cfg) s = (u, q)" by fastforce
  then have su: "same_tables s u" using read_only(2) [of s "ac_network_id cfg"] by simp
  obtain v q' where v: "get_actions (cx_store env) (ac_network_id cfg) u = (v, q')" by fastforce
  then have "same_tables u v" using read_only(6) [of u "cx_store env" "ac_network_id cfg"] by simp
  then have sv': "same_tables s v" using su same_tables_trans by blast
  obtain ms actions where q: "q = Inr ms" "q' = Inr actions"
    using assms u v by (cases q; cases q') (auto simp: build_services_def init_err_def)
  obtain d am where "dispatcher_new services (actions_by_name actions) = Inr d" "alert_manager_new (cx_store env) tc (actions_by_name actions) v = Inr am"
    using assms u v q by (auto simp: build_services_def init_err_def split: sum.splits)
  then show ?thesis using assms u v q sv' alert_manager_new_same [of "cx_store env" tc "actions_by_name actions" v am] same_tables_trans
    by (auto simp: build_services_def init_err_def)
qed

lemma startup_establishes:
  assumes "app_context_build env services tc (Inr cfg0) from_block url dir node s = Some (t, Inr ctx)" "db_ok s"
  shows "db_ok t \<and> am_db (ctx_alert_manager ctx) = t \<and> ctx_config ctx = apply_overrides from_block url cfg0 \<and>
    dispatcher_new services (am_actions (ctx_alert_manager ctx)) = Inr (ctx_dispatcher ctx) \<and>
    (\<exists>ms cache. traverse monitor_of_row (filter (\<lambda>r. mr_network r = ac_network_id (ctx_config ctx)) (db_monitors t)) = Inr ms \<and>
      ctx_monitor_manager ctx = monitor_manager_new (cx_engine env) (cx_registry env (ctx_abi_service ctx)) ms cache \<and>
      (\<forall>m \<in> set ms. \<forall>addr abi. mon_address m = Some addr \<longrightarrow> mon_abi_name m = Some abi \<longrightarrow>
        (if eq_ignore_ascii_case addr ''all'' then has_global_abi (ctx_abi_service ctx) abi
         else \<exists>a. cx_parse_address env addr = Some a \<and> is_monitored (ctx_abi_service ctx) a)))"
proof -
  let ?cfg = "apply_overrides from_block url cfg0" and ?net = "ac_network_id (apply_overrides from_block url cfg0)"
  obtain s1 sv1 where s1: "prepare_store env ?cfg dir s = (s1, Inr sv1)"
    using assms(1) by (auto simp: app_context_build_def Let_def split: prod.splits sum.splits)
  obtain s2 where s2: "bindS (initialize_block_state ?cfg node) (\<lambda>_. load_actions_from_file env ?cfg) s1 = (s2, Inr ())"
    using assms(1) s1 by (auto simp: app_context_build_def Let_def split: prod.splits sum.splits)
  obtain s3 cache where s3: "load_monitors_from_file env ?cfg sv1 [] s2 = Some (s3, cache, Inr ())"
    using assms(1) s1 s2 by (auto simp: app_context_build_def Let_def split: bind_splits sum.splits)
  obtain s4 sv where s4: "load_abis_from_monitors env ?cfg sv1 s3 = Some (s4, sv, Inr ())"
    and b: "build_services env services tc ?cfg sv cache s4 = (t, Inr ctx)"
    using assms(1) s1 s2 s3 by (auto simp: app_context_build_def Let_def split: bind_splits sum.splits)
  have ok1: "db_ok s1" using prepare_store_ok [OF assms(2), of env ?cfg dir] s1 by simp
  have "db_ok (fst (bindS (initialize_block_state ?cfg node) (\<lambda>_. load_actions_from_file env ?cfg) s1))"
    by (intro db_ok.bindS_keeps block_state_ok load_actions_ok ok1)
  then have "db_ok s2" using s2 by simp
  then have ok3: "db_ok s3" using load_monitors_ok [OF s3] by blast
  have same34: "same_tables s3 s4" using read_only(2) [of s3 ?net] load_abis_same [OF s4] by simp
  note ready = build_services_ready [OF b]
  obtain ms where ms: "snd (get_monitors ?net s4) = Inr ms"
    "ctx_monitor_manager ctx = monitor_manager_new (cx_engine env) (cx_registry env sv) ms cache" using ready by blast
  have same: "same_tables s3 t" using ready same34 same_tables_trans by blast
  have okt: "db_ok t" using db_ok.counter_blind ok3 same by (metis same_tables_def)
  have rows: "traverse monitor_of_row (filter (\<lambda>r. mr_network r = ?net) (db_monitors t)) = Inr ms"
    using get_monitors_rows [OF ms(1)] same_tables_monitors [of s4 t] ready by simp
  have "traverse monitor_of_row (filter (\<lambda>r. mr_network r = ?net) (db_monitors s3)) = Inr ms"
    using rows same_tables_monitors [OF same] by simp
  note links = load_abis_links [OF s4 this]
  have c: "ctx_config ctx = ?cfg" "ctx_abi_service ctx = sv" using ready by simp_all
  show ?thesis unfolding c
    by (intro conjI exI [of _ ms] exI [of _ cache]) (use ready okt rows ms(2) links in \<open>simp_all only: c\<close>)
qed

text \<open>C19. A start that succeeds hands over a consistent system: the tables are consistent, the snapshot is the one of the monitors in the store, every
  monitor with an address and an ABI has it linked, and dispatcher and alert manager know the same actions.\<close>

theorem startup_ready:
  assumes "app_context_build env services tc (Inr cfg0) from_block url dir node s = Some (t, Inr ctx)" "db_ok s"
  shows "db_ok t \<and> am_db (ctx_alert_manager ctx) = t \<and> ctx_config ctx = apply_overrides from_block url cfg0 \<and>
    dispatcher_new services (am_actions (ctx_alert_manager ctx)) = Inr (ctx_dispatcher ctx) \<and>
    (\<exists>ms cache. traverse monitor_of_row (filter (\<lambda>r. mr_network r = ac_network_id (ctx_config ctx)) (db_monitors t)) = Inr ms \<and>
      ctx_monitor_manager ctx = monitor_manager_new (cx_engine env) (cx_registry env (ctx_abi_service ctx)) ms cache \<and>
      (\<forall>m \<in> set ms. \<forall>addr abi. mon_address m = Some addr \<longrightarrow> mon_abi_name m = Some abi \<longrightarrow>
        (if eq_ignore_ascii_case addr ''all'' then has_global_abi (ctx_abi_service ctx) abi
         else \<exists>a. cx_parse_address env addr = Some a \<and> is_monitored (ctx_abi_service ctx) a)))"
  using assms by (rule startup_establishes)

section \<open>Witness\<close>

text \<open>A restart: a store with a last processed block, an action, and a monitor that names an address and a stored ABI.\<close>

definition restart_db :: db where
  "restart_db = sample_linked_db\<lparr>db_monitors_seq := 1, db_processed := [(''mainnet'', 15)],
     db_actions := [\<lparr>ar_action_id = 1, ar_name = ''slack-1'', ar_network_id = ''mainnet'', ar_config = JString ''slack-1''\<rparr>], db_actions_seq := 1\<rparr>"

lemma restart_reads:
  "get_all_abis restart_db = (restart_db\<lparr>db_queries := 1\<rparr>, Inr [(''erc20'', ''[]'')])"
  "get_last_processed_block ''mainnet'' (restart_db\<lparr>db_queries := n\<rparr>) = (restart_db\<lparr>db_queries := Suc n\<rparr>, Inr (Some 15))"
  "get_actions sample_env ''mainnet'' (restart_db\<lparr>db_queries := n\<rparr>) = (restart_db\<lparr>db_queries := Suc n\<rparr>, Inr [sample_action\<lparr>ac_id := Some 1, ac_name := ''slack-1''\<rparr>])"
  "get_monitors ''mainnet'' (restart_db\<lparr>db_queries := n\<rparr>) = (restart_db\<lparr>db_queries := Suc n\<rparr>,
     Inr [\<lparr>mon_id = 1, mon_name = ''m'', mon_network = ''mainnet'', mon_address = Some ''0x9'', mon_abi_name = Some ''erc20'',
       mon_filter_script = ''true'', mon_actions = [], mon_created_at = 0, mon_updated_at = 0, mon_status = Active\<rparr>])"
  "get_all_json_states_by_prefix dec prefix (restart_db\<lparr>db_queries := n\<rparr>) = (restart_db\<lparr>db_queries := Suc n\<rparr>, Inr [])"
  by (simp_all add: get_all_abis_def get_last_processed_block_def get_actions_def get_monitors_def get_all_json_states_by_prefix_def
      action_of_row_def select_def exec_def bindS_def restart_db_def sample_linked_db_def empty_db_def monitor_of_row_def row_actions_def
      sample_env_def ok_or_def)

lemma restart_runs:
  "\<exists>t ctx. app_context_build sample_context_env log_services hex_time (Inr sample_app_config) None None None (Inr 20) restart_db
     = Some (t, Inr ctx)"
proof -
  let ?env = sample_context_env and ?cfg = sample_app_config and ?sv = "from_named_abis [(''erc20'', transfer_abi)]"
  let ?m = "\<lparr>mon_id = 1, mon_name = ''m'', mon_network = ''mainnet'', mon_address = Some ''0x9'', mon_abi_name = Some ''erc20'',
    mon_filter_script = ''true'', mon_actions = [], mon_created_at = 0, mon_updated_at = 0, mon_status = Active\<rparr>"
  have na: "\<not> eq_ignore_ascii_case ''0x9'' ''all''" by code_simp
  have cfg: "apply_overrides None None ?cfg = ?cfg" "ac_network_id ?cfg = ''mainnet''" "cx_store ?env = sample_env"
    "create_provider (ac_rpc_urls ?cfg) (ac_rpc_retry_config ?cfg) = Inr \<lparr>ps_transports = ac_rpc_urls ?cfg, ps_active_transports = 1, ps_retry = ac_rpc_retry_config ?cfg\<rparr>"
    by (simp_all add: apply_overrides_def create_provider_def sample_app_config_def sample_context_env_def)
  have s1: "prepare_store ?env ?cfg None restart_db = (restart_db\<lparr>db_queries := 1\<rparr>, Inr ?sv)"
    by (simp add: prepare_store_def sync_abis_from_filesystem_def abi_repository_new_def restart_reads sample_context_env_def collect_map_def ok_or_def)
  obtain sv where "link_monitor_abis (cx_abi_lib ?env) (cx_parse_address ?env) [?m] ?sv = Some (sv, Inr ())"
    by (simp add: link_monitor_abi_def na sample_context_env_def link_abi_def lookup_named_abi_def get_abi_by_name_def from_named_abis_def
        abi_service_new_def register_abi_def cached_contract_from_def transfer_abi_def parse_input_types_def)
  then have s4: "load_abis_from_monitors ?env ?cfg ?sv (restart_db\<lparr>db_queries := n\<rparr>) = Some (restart_db\<lparr>db_queries := Suc n\<rparr>, sv, Inr ())" for n
    by (simp add: load_abis_from_monitors_def init_err_def cfg restart_reads)
  have s2: "bindS (initialize_block_state ?cfg (Inr 20)) (\<lambda>_. load_actions_from_file ?env ?cfg) (restart_db\<lparr>db_queries := Suc 0\<rparr>)
      = (restart_db\<lparr>db_queries := Suc (Suc (Suc 0))\<rparr>, Inr ())"
    by (simp add: initialize_block_state_def load_actions_from_file_def init_err_def bindS_def cfg restart_reads)
  have s3: "load_monitors_from_file ?env ?cfg ?sv [] (restart_db\<lparr>db_queries := n\<rparr>) = Some (restart_db\<lparr>db_queries := Suc n\<rparr>, [], Inr ())" for n
    by (simp add: load_monitors_from_file_def init_err_def cfg restart_reads)
  have d: "\<exists>d. dispatcher_new log_services (actions_by_name [sample_action\<lparr>ac_id := Some 1, ac_name := ''slack-1''\<rparr>]) = Inr d"
    by (simp add: actions_by_name_def sample_action_def log_services_def)
  have b: "\<exists>t ctx. build_services ?env log_services hex_time ?cfg sv [] (restart_db\<lparr>db_queries := n\<rparr>) = (t, Inr ctx)" for n
    using d by (auto simp: build_services_def init_err_def cfg restart_reads alert_manager_new_def)
  show ?thesis using b [of "Suc (Suc (Suc (Suc (Suc 0))))"]
    by (auto simp: app_context_build_def cfg s1 s2 [simplified] s3 s4)
qed

theorem startup_ready_witness:
  "\<exists>t ctx. app_context_build sample_context_env log_services hex_time (Inr sample_app_config) None None None (Inr 20) restart_db
     = Some (t, Inr ctx) \<and> db_ok t \<and> am_db (ctx_alert_manager ctx) = t"
proof -
  have "actions_of_json (actions_to_json []) \<noteq> None" by simp
  then have "db_ok restart_db" by (simp add: restart_db_def sample_linked_db_def db_ok_defs empty_db_def i64_max_def)
  then show ?thesis using restart_runs startup_ready by (metis (no_types, lifting))
qed

end
