(* ===== verification/Argus_DryRun.thy ===== *)
theory Argus_DryRun
  imports Argus_Processor Argus_Alerts Argus_Context
begin

text \<open>
  The dry run, \<open>src/cmd/dry_run.rs\<close>: a range of blocks is fetched, correlated and evaluated in batches of
  fifty, the matches go through the alert manager and the outbox is drained at the end.

  The outside of a batch, indexed by the block it starts at: how the data source answers, whether one of the blocking
  tasks panics, and the clock. Items of a batch are evaluated in parallel and the results collected in order; when several
  evaluations fail, which error is reported is the scheduler's choice. The loop is a \<open>partial_function\<close> whose value
  \<open>None\<close> is an overflow of 64-bit block arithmetic or not returning.
\<close>

section \<open>Errors, environment and report\<close>

datatype dry_run_error =
    DryConfig string
  | DryProvider string
  | DryDataSource data_source_error
  | DryBlockProcessor string
  | DryFiltering rhai_error
  | DryAlertManager alert_manager_error
  | InvalidBlockRange u64 u64
  | DryActionDispatcher string
  | DryAppContext app_context_error

record 'ast dry_env =
  de_source :: "u64 \<Rightarrow> data_source"
  de_order :: "(u64 \<times> u64) list \<Rightarrow> (u64 \<times> u64) list"
  de_manager :: "'ast monitor_manager"
  de_filter :: "'ast filtering_engine"
  de_correlate_panic :: "u64 \<Rightarrow> string option"
  de_evaluate_panic :: "u64 \<Rightarrow> string option"
  de_first_error :: "rhai_error list \<Rightarrow> rhai_error"
  de_clock :: "u64 \<Rightarrow> nat \<Rightarrow> timestamp"
  de_flush_time :: timestamp
  de_store :: store_env
  de_time :: time_codec

record dry_report =
  rep_blocks :: u64
  rep_matches :: nat
  rep_by_monitor :: "(string \<times> nat) list"
  rep_alerts :: "(string \<times> nat) list"
  rep_delivered :: nat

section \<open>Ranges and counts\<close>

text \<open>An overflow of the 64-bit arithmetic is \<open>None\<close>.\<close>

definition calculate_total_blocks :: "u64 \<Rightarrow> u64 \<Rightarrow> u64 option" where
  "calculate_total_blocks a b = (if b < a \<or> b - a = - 1 then None else Some (b - a + 1))"

definition group_matches_by_monitor :: "monitor_match list \<Rightarrow> (string \<times> nat) list" where
  "group_matches_by_monitor ms = fold (\<lambda>m. entry_update (mm_monitor_name m) 0 Suc) ms []"

definition validate_block_range :: "u64 \<Rightarrow> u64 \<Rightarrow> dry_run_error + unit" where
  "validate_block_range a b = (if a > b then Inl (InvalidBlockRange a b) else Inr ())"

definition calculate_batch_end_block :: "u64 \<Rightarrow> u64 \<Rightarrow> u64 \<Rightarrow> u64 option" where
  "calculate_batch_end_block current n target =
     (if 2 ^ 64 \<le> unat current + unat n \<or> current + n = 0 then None else Some (min (current + n - 1) target))"

definition BATCH_SIZE :: u64 where "BATCH_SIZE = 50"

section \<open>One batch\<close>

definition evaluate_items ::
  "'ast filtering_engine \<Rightarrow> 'ast monitor_asset_state \<Rightarrow> (rhai_error list \<Rightarrow> rhai_error) \<Rightarrow> correlated_item list \<Rightarrow> rhai_error + monitor_match list" where
  "evaluate_items fe st first_error items =
     (let rs = map (evaluate_item fe st) items
      in if list_all is_ok rs then Inr (concat (map projr rs))
         else Inl (first_error (map projl (filter (\<lambda>r. \<not> is_ok r) rs))))"

definition stamped :: "(nat \<Rightarrow> timestamp) \<Rightarrow> monitor_match list \<Rightarrow> (timestamp \<times> monitor_match) list" where
  "stamped clock ms = map2 (\<lambda>i m. (clock i, m)) [0..<length ms] ms"

definition process_fetched ::
  "'ast dry_env \<Rightarrow> u64 \<Rightarrow> block_data list \<Rightarrow> (alert_manager, dry_run_error, monitor_match list) op" where
  "process_fetched env a bds am =
     (if bds = [] then (am, Inr [])
      else
        (case process_blocks_batch \<lparr>bw_snapshot = manager_load (de_manager env), bw_panic = de_correlate_panic env a\<rparr> bds of
           Inl e \<Rightarrow> (am, Inl (DryBlockProcessor e))
         | Inr cbs \<Rightarrow>
             (case de_evaluate_panic env a of
                Some e \<Rightarrow> (am, Inl (DryBlockProcessor e))
              | None \<Rightarrow>
                  (case evaluate_items (de_filter env) (manager_load (de_manager env)) (de_first_error env) (concat (map cb_items cbs)) of
                     Inl e \<Rightarrow> (am, Inl (DryFiltering e))
                   | Inr ms \<Rightarrow>
                       if ms = [] then (am, Inr [])
                       else map_prod id (\<lambda>r. mapR (\<lambda>_. ms) (map_err DryAlertManager r))
                              (process_matches_batch (de_store env) (stamped (de_clock env a) ms) am)))))"

definition dry_run_batch ::
  "'ast dry_env \<Rightarrow> fetch_config \<Rightarrow> u64 \<Rightarrow> u64 \<Rightarrow> alert_manager \<Rightarrow> (alert_manager \<times> (dry_run_error + monitor_match list)) option" where
  "dry_run_batch env cfg a b am =
     map_option (\<lambda>r. case r of Inl e \<Rightarrow> (am, Inl (DryDataSource e)) | Inr bds \<Rightarrow> process_fetched env a bds am)
       (fetch_blocks_concurrent (de_order env) (de_source env a) (requires_receipt_data (de_manager env)) a b cfg)"

section \<open>The run\<close>

type_synonym dry_result = "alert_manager \<times> (dry_run_error + monitor_match list)"

partial_function (option) dry_run_loop ::
  "'ast dry_env \<Rightarrow> fetch_config \<Rightarrow> u64 \<Rightarrow> u64 \<Rightarrow> monitor_match list \<Rightarrow> alert_manager \<Rightarrow> dry_result option" where
  "dry_run_loop env cfg current to ms am =
     (if current \<le> to then
        Option.bind (calculate_batch_end_block current BATCH_SIZE to) (\<lambda>batch_end.
        Option.bind (dry_run_batch env cfg current batch_end am) (\<lambda>(am', r).
          case r of
            Inl e \<Rightarrow> Some (am', Inl e)
          | Inr new \<Rightarrow>
              if batch_end + 1 = 0 then None
              else dry_run_loop env cfg (batch_end + 1) to (ms @ new) am'))
      else Some (am, Inr ms))"

definition dry_flush :: "'ast dry_env \<Rightarrow> (alert_manager, dry_run_error, unit) op" where
  "dry_flush env am = map_prod id (map_err DryAlertManager) (alert_flush (de_store env) (de_time env) (de_flush_time env) am)"

definition run_dry_run_loop ::
  "'ast dry_env \<Rightarrow> fetch_config \<Rightarrow> u64 \<Rightarrow> u64 \<Rightarrow> alert_manager \<Rightarrow> dry_result option" where
  "run_dry_run_loop env cfg from to am =
     (case validate_block_range from to of
        Inl e \<Rightarrow> Some (am, Inl e)
      | Inr _ \<Rightarrow>
          map_option (\<lambda>(am', r).
            case r of
              Inl e \<Rightarrow> (am', Inl e)
            | Inr ms \<Rightarrow> bindS (dry_flush env) (\<lambda>_. retS ms) am')
            (dry_run_loop env cfg from to [] am))"

text \<open>The command: the loop, a second flush, the drain of the outbox and the report. The dispatcher's connections are closed
  afterwards, which changes nothing of the model.\<close>

definition dry_run_execute ::
  "'ast dry_env \<Rightarrow> fetch_config \<Rightarrow> ('w, db) outbox_processor \<Rightarrow> u64 \<Rightarrow> u64 \<Rightarrow> alert_manager \<Rightarrow> 'w \<Rightarrow>
     (('w \<times> alert_manager) \<times> (dry_run_error + dry_report)) option" where
  "dry_run_execute env cfg pr from to am w =
     Option.bind (run_dry_run_loop env cfg from to am) (\<lambda>(am1, r).
       case bindS (\<lambda>am. (am, r)) (\<lambda>ms. bindS (dry_flush env) (\<lambda>_. retS ms)) am1 of
         (am2, Inl e) \<Rightarrow> Some ((w, am2), Inl e)
       | (am2, Inr ms) \<Rightarrow>
           Option.bind (drain_queue pr (w, am_db am2)) (\<lambda>((w', s), r).
             case r of
               Inl e \<Rightarrow> Some ((w', am2\<lparr>am_db := s\<rparr>), Inl (DryActionDispatcher ''drain failed''))
             | Inr n \<Rightarrow>
                 map_option (\<lambda>total. ((w', am2\<lparr>am_db := s\<rparr>),
                   Inr \<lparr>rep_blocks = total, rep_matches = length ms, rep_by_monitor = group_matches_by_monitor ms,
                     rep_alerts = am_generated_alerts am2, rep_delivered = n\<rparr>))
                   (calculate_total_blocks from to)))"

section \<open>The report\<close>

lemma group_matches_lookup:
  "map_of (group_matches_by_monitor ms) name =
     (case length (filter (\<lambda>m. mm_monitor_name m = name) ms) of 0 \<Rightarrow> None | Suc k \<Rightarrow> Some (Suc k))"
proof -
  have "map_of (fold (\<lambda>m. entry_update (mm_monitor_name m) 0 Suc) ms acc) name =
     (case length (filter (\<lambda>m. mm_monitor_name m = name) ms) of 0 \<Rightarrow> map_of acc name
      | Suc k \<Rightarrow> Some (Suc k + (case map_of acc name of None \<Rightarrow> 0 | Some j \<Rightarrow> j)))" for acc
    by (induction ms arbitrary: acc) (auto simp: map_of_entry_update split: nat.splits option.splits)
  from this [of "[]"] show ?thesis by (auto simp: group_matches_by_monitor_def split: nat.splits)
qed

lemma total_blocks: "a \<le> b \<Longrightarrow> unat b - unat a < 2 ^ 64 - 1 \<Longrightarrow>
  map_option unat (calculate_total_blocks a b) = Some (length (u64_range a b))"
proof -
  assume le: "a \<le> b" and lt: "unat b - unat a < 2 ^ 64 - 1"
  have d: "unat (b - a) = unat b - unat a" using le by (simp add: unat_sub word_le_nat_alt)
  have "unat (- 1 :: u64) = 2 ^ 64 - 1" by (simp add: unsigned_minus_1_eq_mask mask_eq_exp_minus_1)
  then have "b - a \<noteq> - 1" using d lt by auto
  moreover from this have "unat (b - a + 1) = Suc (unat b - unat a)" using d lt by (simp add: unat_plus_no_overflow)
  moreover have "\<not> b < a" "unat a \<le> unat b" using le by (simp_all add: not_less word_le_nat_alt)
  ultimately show ?thesis by (simp add: calculate_total_blocks_def u64_range_def Suc_diff_le)
qed

section \<open>What a run takes in hand\<close>

lemma stamped_matches: "m \<in> set ms \<Longrightarrow> \<exists>now. (now, m) \<in> set (stamped clock ms)"
proof -
  assume "m \<in> set ms"
  then obtain i where i: "i < length ms" "m = ms ! i" by (auto simp: in_set_conv_nth)
  then have "(clock i, m) = stamped clock ms ! i" "i < length (stamped clock ms)" by (simp_all add: stamped_def)
  then show ?thesis by (metis nth_mem)
qed

text \<open>What holds of the manager and the matches found so far, whatever the store refuses.\<close>

definition dry_inv :: "'ast dry_env \<Rightarrow> alert_manager \<Rightarrow> monitor_match list \<Rightarrow> alert_manager \<Rightarrow> bool" where
  "dry_inv env am0 ms am \<longleftrightarrow> am_actions am = am_actions am0 \<and> (db_ok (am_db am0) \<longrightarrow> db_ok (am_db am)) \<and>
     (\<forall>m \<in> set ms. taken (de_store env) am m)"

lemma process_fetched_cases:
  assumes "process_fetched env a bds am = (am', r)"
  shows "am' = am \<and> (r = Inr [] \<or> \<not> is_ok r) \<or>
    (\<exists>new u. process_matches_batch (de_store env) (stamped (de_clock env a) new) am = (am', u) \<and>
       r = mapR (\<lambda>_. new) (map_err DryAlertManager u))"
proof -
  have mp: "map_prod id f x = (am', r) \<longleftrightarrow> (\<exists>u. x = (am', u) \<and> r = f u)" for f and x :: "alert_manager \<times> (alert_manager_error + unit)"
    by (cases x) auto
  show ?thesis using assms unfolding process_fetched_def
    by (auto simp: mp split: if_splits sum.splits option.splits)
qed

lemma process_fetched_inv:
  assumes inv: "dry_inv env am0 ms am" and "process_fetched env a bds am = (am', r)"
  shows "case r of Inl e \<Rightarrow> db_ok (am_db am0) \<longrightarrow> db_ok (am_db am') | Inr new \<Rightarrow> dry_inv env am0 (ms @ new) am'"
  using process_fetched_cases [OF assms(2)]
proof (elim disjE exE conjE)
  fix new u assume p: "process_matches_batch (de_store env) (stamped (de_clock env a) new) am = (am', u)"
    "r = mapR (\<lambda>_. new) (map_err DryAlertManager u)"
  have ok: "db_ok (am_db am0) \<longrightarrow> db_ok (am_db am')"
    using process_matches_batch_keeps [where P = db_ok, OF enqueue_db_ok, of am "de_store env"] inv p(1)
    by (metis dry_inv_def fst_conv)
  show ?thesis
  proof (cases u)
    case (Inr x)
    then have b: "process_matches_batch (de_store env) (stamped (de_clock env a) new) am = (am', Inr ())" using p by simp
    note takes = process_matches_batch_takes [OF b]
    have "taken (de_store env) am' m" if "m \<in> set ms \<union> set new" for m
      using that takes stamped_matches [of m new "de_clock env a"] taken_mono [of "de_store env" am m am'] inv
      by (auto simp: dry_inv_def)
    then show ?thesis using Inr p ok takes inv by (simp add: dry_inv_def extends_def)
  qed (use ok p in simp)
qed (use inv in \<open>auto simp: dry_inv_def split: sum.splits\<close>)

lemma dry_run_batch_inv:
  assumes "dry_inv env am0 ms am" "dry_run_batch env cfg a e am = Some (am', r)"
  shows "case r of Inl e \<Rightarrow> db_ok (am_db am0) \<longrightarrow> db_ok (am_db am') | Inr new \<Rightarrow> dry_inv env am0 (ms @ new) am'"
proof -
  obtain f where f: "(case f of Inl e \<Rightarrow> (am, Inl (DryDataSource e)) | Inr bds \<Rightarrow> process_fetched env a bds am) = (am', r)"
    using assms(2) by (auto simp: dry_run_batch_def)
  show ?thesis
  proof (cases f)
    case (Inr bds)
    then show ?thesis using f process_fetched_inv [OF assms(1), of a bds] by simp
  qed (use f assms(1) in \<open>auto simp: dry_inv_def\<close>)
qed

lemma dry_run_loop_inv:
  assumes "dry_run_loop env cfg a b ms am = Some y" "dry_inv env am0 ms am"
  shows "case snd y of Inl e \<Rightarrow> db_ok (am_db am0) \<longrightarrow> db_ok (am_db (fst y)) | Inr ms' \<Rightarrow> dry_inv env am0 ms' (fst y)"
proof -
  let ?R = "\<lambda>env y. case snd y of Inl e \<Rightarrow> db_ok (am_db am0) \<longrightarrow> db_ok (am_db (fst y)) | Inr ms' \<Rightarrow> dry_inv env am0 ms' (fst y)"
  let ?Q = "\<lambda>env cfg a b ms am y. dry_inv env am0 ms am \<longrightarrow> ?R env y"
  have "?Q env cfg a b ms am y"
  proof (rule dry_run_loop.raw_induct [where P = ?Q, OF _ assms(1)], intro impI)
    fix loop :: "'a dry_env \<Rightarrow> fetch_config \<Rightarrow> u64 \<Rightarrow> u64 \<Rightarrow> monitor_match list \<Rightarrow> alert_manager \<Rightarrow> dry_result option"
      and env cfg a b ms am y
    assume IH: "\<And>env cfg a b ms am y. loop env cfg a b ms am = Some y \<Longrightarrow> ?Q env cfg a b ms am y"
      and run: "(if a \<le> b then
          Option.bind (calculate_batch_end_block a BATCH_SIZE b) (\<lambda>batch_end.
          Option.bind (dry_run_batch env cfg a batch_end am) (\<lambda>(am', r).
            case r of
              Inl e \<Rightarrow> Some (am', Inl e)
            | Inr new \<Rightarrow> if batch_end + 1 = 0 then None else loop env cfg (batch_end + 1) b (ms @ new) am'))
        else Some (am, Inr ms)) = Some y"
      and inv: "dry_inv env am0 ms am"
    show "?R env y"
    proof (cases "a \<le> b")
      case True
      then obtain e am' r where b: "dry_run_batch env cfg a e am = Some (am', r)"
        "(case r of Inl x \<Rightarrow> Some (am', Inl x) | Inr new \<Rightarrow> if e + 1 = 0 then None else loop env cfg (e + 1) b (ms @ new) am') = Some y"
        using run by (auto split: bind_splits)
      note step = dry_run_batch_inv [OF inv b(1)]
      show ?thesis
      proof (cases r)
        case (Inr new)
        then have "loop env cfg (e + 1) b (ms @ new) am' = Some y" using b(2) by (simp split: if_splits)
        from IH [OF this] show ?thesis using step Inr by simp
      qed (use b step in auto)
    qed (use run inv in auto)
  qed
  then show ?thesis using assms(2) by blast
qed

section \<open>What a run finds\<close>

definition dry_matches :: "'ast filtering_engine \<Rightarrow> 'ast monitor_asset_state \<Rightarrow> block_data \<Rightarrow> monitor_match list" where
  "dry_matches fe st bd = concat (map (\<lambda>item. projr (evaluate_item fe st item)) (cb_items (process_block st bd)))"

definition no_panic :: "'ast dry_env \<Rightarrow> bool" where
  "no_panic env \<longleftrightarrow> (\<forall>a. de_correlate_panic env a = None \<and> de_evaluate_panic env a = None)"

definition evaluates :: "'ast dry_env \<Rightarrow> bool" where
  "evaluates env \<longleftrightarrow> (\<forall>item. is_ok (evaluate_item (de_filter env) (manager_load (de_manager env)) item))"

lemma process_fetched_live:
  assumes "no_panic env" "evaluates env" "faultless (am_db am)"
  shows "\<exists>am'. process_fetched env a bds am = (am', Inr (concat (map (dry_matches (de_filter env) (manager_load (de_manager env))) bds))) \<and>
    faultless (am_db am')"
proof -
  let ?st = "manager_load (de_manager env)" and ?fe = "de_filter env"
  let ?ms = "concat (map (dry_matches ?fe ?st) bds)"
  have items: "evaluate_items ?fe ?st f (concat (map (cb_items \<circ> process_block ?st) bds)) = Inr ?ms" for f
  proof -
    have "concat (map (projr \<circ> evaluate_item ?fe ?st) (concat (map (cb_items \<circ> process_block ?st) bds))) = ?ms"
      by (induction bds) (simp_all add: dry_matches_def comp_def)
    then show ?thesis using assms(2) by (simp add: evaluate_items_def evaluates_def list_all_iff)
  qed
  note live = process_matches_batch_live [OF assms(3), of "de_store env" "stamped (de_clock env a) ?ms"]
  show ?thesis using assms(1,3) items live
    by (cases "process_matches_batch (de_store env) (stamped (de_clock env a) ?ms) am")
       (auto simp: process_fetched_def process_blocks_batch_def no_panic_def comp_def)
qed

text \<open>The node and the run agree: the data source is the RPC source over an honest node that answers every request up to the end of the
  range, and transaction hashes do not repeat in it.\<close>

definition exact_block :: "rpc_provider \<Rightarrow> interest_registry \<Rightarrow> (u64 \<Rightarrow> evm_log list) \<Rightarrow> bool \<Rightarrow> block_data \<Rightarrow> bool" where
  "exact_block p r chain needs bd \<longleftrightarrow>
     bd_logs bd = group_logs (filter (is_log_interesting r) (chain (blk_number (bd_block bd)))) [] \<and>
     (needs \<longrightarrow> list_all (\<lambda>h. rp_receipt p h = Inr (map_of (bd_receipts bd) h)) (block_hashes (bd_block bd)))"

definition dry_chain ::
  "'ast dry_env \<Rightarrow> fetch_config \<Rightarrow> rpc_provider \<Rightarrow> (u64 \<Rightarrow> evm_log list) \<Rightarrow> (u64 \<Rightarrow> block) \<Rightarrow> u64 \<Rightarrow> u64 \<Rightarrow> bool" where
  "dry_chain env cfg p chain blk from to \<longleftrightarrow>
     honest_provider p chain \<and> available p to \<and> permutes (de_order env) \<and> permutes (rp_completion p) \<and>
     de_source env = (\<lambda>_. evm_rpc_source p (manager_registry (de_manager env))) \<and>
     unat to + unat (fc_log_chunk_size cfg) < 2 ^ 64 \<and> unat to + 50 < 2 ^ 64 \<and>
     (\<forall>n. from \<le> n \<longrightarrow> n \<le> to \<longrightarrow> rp_block_by_number p n = Inr (Some (blk n))) \<and>
     distinct (concat (map (block_hashes \<circ> blk) (u64_range from to)))"

lemma dry_run_batch_exact:
  assumes chain: "dry_chain env cfg p chain blk a b'" and env: "no_panic env" "evaluates env" "faultless (am_db am)"
    and b: "b \<le> b'" "distinct (concat (map (block_hashes \<circ> blk) (u64_range a b)))"
  shows "\<exists>am' bds. dry_run_batch env cfg a b am =
      Some (am', Inr (concat (map (dry_matches (de_filter env) (manager_load (de_manager env))) bds))) \<and> faultless (am_db am') \<and>
    map bd_block bds = map blk (u64_range a b) \<and>
    list_all (exact_block p (manager_registry (de_manager env)) chain (requires_receipt_data (de_manager env))) bds"
proof -
  let ?r = "manager_registry (de_manager env)" and ?needs = "requires_receipt_data (de_manager env)"
  have node: "honest_provider p chain" "available p b'" "permutes (de_order env)" "permutes (rp_completion p)"
    "unat b' + unat (fc_log_chunk_size cfg) < 2 ^ 64" "\<And>n. a \<le> n \<Longrightarrow> n \<le> b \<Longrightarrow> rp_block_by_number p n = Inr (Some (blk n))"
    using chain b(1) by (auto simp: dry_chain_def)
  obtain bds where f: "fetch_blocks_concurrent (de_order env) (evm_rpc_source p ?r) ?needs a b cfg = Some (Inr bds)"
    using available_fetches [OF node(2) b(1) node(5)] by blast
  have blocks: "map bd_block bds = map blk (u64_range a b)" using fetched_blocks_are [OF node(1) f node(6)] .
  have "map (block_hashes \<circ> bd_block) bds = map (block_hashes \<circ> blk) (u64_range a b)"
    using arg_cong [OF blocks, of "map block_hashes"] by simp
  then have "distinct (concat (map (block_hashes \<circ> bd_block) bds))" using b(2) by simp
  then have "list_all (exact_block p ?r chain ?needs) bds"
    using fetched_blocks_exact [OF node(1,3,4) f] by (simp add: exact_block_def [abs_def])
  moreover obtain am' where "process_fetched env a bds am =
      (am', Inr (concat (map (dry_matches (de_filter env) (manager_load (de_manager env))) bds)))" "faultless (am_db am')"
    using process_fetched_live [OF env] by blast
  ultimately show ?thesis using f blocks chain by (auto simp: dry_run_batch_def dry_chain_def)
qed

lemma dry_run_loop_exact:
  assumes "dry_chain env cfg p chain blk a b" "no_panic env" "evaluates env" "faultless (am_db am)" "a \<le> b"
  shows "\<exists>am' bds. dry_run_loop env cfg a b ms am =
      Some (am', Inr (ms @ concat (map (dry_matches (de_filter env) (manager_load (de_manager env))) bds))) \<and> faultless (am_db am') \<and>
    map bd_block bds = map blk (u64_range a b) \<and>
    list_all (exact_block p (manager_registry (de_manager env)) chain (requires_receipt_data (de_manager env))) bds"
  using assms
proof (induction "unat b - unat a" arbitrary: a ms am rule: less_induct)
  case less
  let ?e = "min (a + BATCH_SIZE - 1) b"
  have fits: "unat b + 50 < 2 ^ 64" using less.prems(1) by (simp add: dry_chain_def)
  have ab: "unat a \<le> unat b" using less.prems(5) by (simp add: word_le_nat_alt)
  have sum: "unat (a + 50) = unat a + 50" using fits ab by (simp add: unat_plus_no_overflow)
  then have nz: "a + 50 \<noteq> 0" by (metis add_is_0 unat_0 zero_neq_numeral)
  have "unat (49 + a) = unat a + 49" using unat_plus_no_overflow [of 49 a] fits ab by simp
  then have e: "unat ?e = min (unat a + 49) (unat b)" by (simp add: BATCH_SIZE_def min_def word_le_nat_alt)
  have batch: "calculate_batch_end_block a BATCH_SIZE b = Some ?e"
    using fits ab nz by (simp add: calculate_batch_end_block_def BATCH_SIZE_def)
  have ae: "a \<le> ?e" "?e \<le> b" using e ab by (simp_all add: word_le_nat_alt)
  have e1: "unat (?e + 1) = unat ?e + 1" using e fits by (simp add: unat_plus_no_overflow)
  then have ne: "?e + 1 \<noteq> 0" by (metis add_is_0 unat_0 zero_neq_one)
  let ?r = "manager_registry (de_manager env)" and ?needs = "requires_receipt_data (de_manager env)"
  let ?ms = "\<lambda>bds. concat (map (dry_matches (de_filter env) (manager_load (de_manager env))) bds)"
  have dist: "distinct (concat (map (block_hashes \<circ> blk) (u64_range a ?e)))"
    and rest: "?e < b \<Longrightarrow> dry_chain env cfg p chain blk (?e + 1) b"
  proof -
    have d: "distinct (concat (map (block_hashes \<circ> blk) (u64_range a b)))" using less.prems(1) by (simp add: dry_chain_def)
    show "distinct (concat (map (block_hashes \<circ> blk) (u64_range a ?e)))"
      using d u64_range_append [OF ae(1), of b] ae(2) by (cases "?e = b") auto
    assume lt: "?e < b"
    have "a \<le> ?e + 1" using ae(1) e1 by (simp add: word_le_nat_alt)
    then show "dry_chain env cfg p chain blk (?e + 1) b"
      using less.prems(1) d u64_range_append [OF ae(1) lt] by (auto simp: dry_chain_def intro: order_trans)
  qed
  obtain am1 bds1 where one: "dry_run_batch env cfg a ?e am = Some (am1, Inr (?ms bds1))" "faultless (am_db am1)"
    "map bd_block bds1 = map blk (u64_range a ?e)" "list_all (exact_block p ?r chain ?needs) bds1"
    using dry_run_batch_exact [OF less.prems(1-4) ae(2) dist] by blast
  have step: "dry_run_loop env cfg a b ms am = dry_run_loop env cfg (?e + 1) b (ms @ ?ms bds1) am1"
    using less.prems(5) ne by (subst dry_run_loop.simps) (simp add: batch one(1))
  show ?case
  proof (cases "?e < b")
    case False
    then have eb: "?e = b" using ae(2) by simp
    then have "\<not> ?e + 1 \<le> b" using e1 by (simp add: word_le_nat_alt)
    then have "dry_run_loop env cfg (?e + 1) b (ms @ ?ms bds1) am1 = Some (am1, Inr (ms @ ?ms bds1))"
      by (subst dry_run_loop.simps) simp
    then show ?thesis using step one(2-4) unfolding eb by (intro exI [of _ am1] exI [of _ bds1]) simp
  next
    case True
    have "?e + 1 \<le> b" "unat b - unat (?e + 1) < unat b - unat a"
      using True e1 ae(1) by (simp_all add: word_le_nat_alt word_less_nat_alt)
    then obtain am2 bds2 where two: "dry_run_loop env cfg (?e + 1) b (ms @ ?ms bds1) am1 = Some (am2, Inr ((ms @ ?ms bds1) @ ?ms bds2))"
      "faultless (am_db am2)" "map bd_block bds2 = map blk (u64_range (?e + 1) b)" "list_all (exact_block p ?r chain ?needs) bds2"
      using less.hyps [OF _ rest [OF True] less.prems(2,3) one(2)] by blast
    show ?thesis using step two one(3,4) u64_range_append [OF ae(1) True]
      by (intro exI [of _ am2] exI [of _ "bds1 @ bds2"]) simp
  qed
qed

text \<open>C13. A dry run finds exactly the matches of its range and forgets none: over an honest node that answers, with tasks that do not
  panic, scripts that do not fail and a store that refuses nothing, the run over a valid range returns, and its matches are
  those of the blocks of the range in ascending order, whatever the batch boundaries and the completion order of requests;
  every block comes with exactly its wanted logs and, if needed, its receipts. When it returns, every match of an action
  without a policy is queued under its own key, and every match of an aggregating action in a payload of that action that
  holds a match with its id.\<close>

theorem dry_run_exact:
  assumes "dry_chain env cfg p chain blk from to" "no_panic env" "evaluates env" "faultless (am_db am)" "from \<le> to"
  shows "\<exists>am' bds. run_dry_run_loop env cfg from to am =
      Some (am', Inr (concat (map (dry_matches (de_filter env) (manager_load (de_manager env))) bds))) \<and>
    map bd_block bds = map blk (u64_range from to) \<and>
    list_all (exact_block p (manager_registry (de_manager env)) chain (requires_receipt_data (de_manager env))) bds \<and>
    list_all (handed_over (de_store env) (am_actions am) (am_db am'))
      (concat (map (dry_matches (de_filter env) (manager_load (de_manager env))) bds))"
proof -
  obtain am1 bds where l: "dry_run_loop env cfg from to [] am =
      Some (am1, Inr (concat (map (dry_matches (de_filter env) (manager_load (de_manager env))) bds)))" "faultless (am_db am1)"
    "map bd_block bds = map blk (u64_range from to)"
    "list_all (exact_block p (manager_registry (de_manager env)) chain (requires_receipt_data (de_manager env))) bds"
    using dry_run_loop_exact [OF assms, of "[]"] by auto
  have "snd (dry_flush env am1) = Inr ()"
    using flush_live [OF l(2), of "de_store env" "de_time env" "de_flush_time env"] by (simp add: dry_flush_def)
  then obtain am2 where f: "dry_flush env am1 = (am2, Inr ())" by (metis prod.collapse)
  have am2: "am2 = fst (alert_flush (de_store env) (de_time env) (de_flush_time env) am1)"
    using arg_cong [OF f, of fst] by (simp add: dry_flush_def)
  have "dry_inv env am [] am" by (simp add: dry_inv_def)
  from dry_run_loop_inv [OF l(1) this] have
    "list_all (handed_over (de_store env) (am_actions am) (am_db am2)) (concat (map (dry_matches (de_filter env) (manager_load (de_manager env))) bds))"
    using flush_hands_over_taken [OF l(2), of "de_store env" _ "de_time env" "de_flush_time env"]
    by (auto simp: dry_inv_def list_all_iff am2)
  moreover have "run_dry_run_loop env cfg from to am =
      Some (am2, Inr (concat (map (dry_matches (de_filter env) (manager_load (de_manager env))) bds)))"
    using l(1) assms(5) f by (simp add: run_dry_run_loop_def validate_block_range_def not_less [symmetric])
  ultimately show ?thesis using l(3,4) by blast
qed

section \<open>What a run delivers\<close>

lemma dry_flush_db_ok: "db_ok (am_db am) \<Longrightarrow> db_ok (am_db (fst (dry_flush env am)))"
  using flush_db_ok by (simp add: dry_flush_def)

lemma run_dry_run_loop_keeps:
  assumes run: "run_dry_run_loop env cfg a b am = Some (am', Inr ms)" and "db_ok (am_db am)"
  shows "db_ok (am_db am')"
    "m \<in> set ms \<Longrightarrow> direct am (Single m) \<Longrightarrow> idempotency_key (se_finish (de_store env)) (Single m) \<in> outbox_keys (de_store env) (am_db am')"
proof -
  obtain am1 where l: "dry_run_loop env cfg a b [] am = Some (am1, Inr ms)" "dry_flush env am1 = (am', Inr ())"
  proof -
    obtain am1 r1 where "dry_run_loop env cfg a b [] am = Some (am1, r1)"
      "(am', Inr ms) = (case r1 of Inl e \<Rightarrow> (am1, Inl e) | Inr ms \<Rightarrow> bindS (dry_flush env) (\<lambda>_. retS ms) am1)"
      using run by (cases "validate_block_range a b") (auto simp: run_dry_run_loop_def)
    then show ?thesis using that by (cases r1; cases "dry_flush env am1") (auto simp: bindS_def split: sum.splits)
  qed
  have "dry_inv env am [] am" by (simp add: dry_inv_def)
  from dry_run_loop_inv [OF l(1) this] have inv: "dry_inv env am ms am1" by simp
  show "db_ok (am_db am')" using inv assms(2) dry_flush_db_ok [of am1 env] l(2) by (simp add: dry_inv_def)
  assume "m \<in> set ms" "direct am (Single m)"
  then have "idempotency_key (se_finish (de_store env)) (Single m) \<in> outbox_keys (de_store env) (am_db am1)"
    using inv by (auto simp: dry_inv_def taken_def direct_def)
  then show "idempotency_key (se_finish (de_store env)) (Single m) \<in> outbox_keys (de_store env) (am_db am')"
    using flush_extends_keys [of "de_store env" am1 "de_time env" "de_flush_time env"] arg_cong [OF l(2), of fst]
    by (auto simp: dry_flush_def)
qed

text \<open>C38. A dry run that reports has delivered: when the command succeeds, the outbox is empty at the end, and every alert that was queued after
  the flush was accepted by the dispatcher in one of the calls of the drain, which lead from the world of the run to the world at its end;
  among them is the alert of every match whose action has no policy, and the report
  counts the matches of the run, in total and per monitor.\<close>

theorem dry_run_delivers:
  assumes run: "dry_run_execute env cfg (outbox_processor_new (de_store env) sv d order ocfg) from to am w = Some ((w', am'), Inr rep)"
    and "db_ok (am_db am)" "permutes_batch order" "oc_batch_size ocfg \<noteq> 0"
  shows "\<exists>am1 ms. run_dry_run_loop env cfg from to am = Some (am1, Inr ms) \<and> from \<le> to \<and>
    rep_matches rep = length ms \<and>
    (\<forall>name. length (filter (\<lambda>m. mm_monitor_name m = name) ms) = (case map_of (rep_by_monitor rep) name of None \<Rightarrow> 0 | Some k \<Rightarrow> k)) \<and>
    outbox_abs (de_store env) (am_db am') = [] \<and>
    (\<forall>m \<in> set ms. direct am (Single m) \<longrightarrow>
       (\<exists>e \<in> set (outbox_abs (de_store env) (am_db (fst (dry_flush env am1)))). oe_key e = idempotency_key (se_finish (de_store env)) (Single m))) \<and>
    (\<exists>cs. drain_dispatches (outbox_processor_new (de_store env) sv d order ocfg) (w, am_db (fst (dry_flush env am1))) = Some cs \<and>
       performs (dispatcher_execute sv d) w cs w' \<and>
       list_all (accepted_in cs) (outbox_abs (de_store env) (am_db (fst (dry_flush env am1)))))"
proof -
  let ?pr = "outbox_processor_new (de_store env) sv d order ocfg"
  obtain am1 ms am2 s n where l: "run_dry_run_loop env cfg from to am = Some (am1, Inr ms)" "dry_flush env am1 = (am2, Inr ())"
    "drain_queue ?pr (w, am_db am2) = Some ((w', s), Inr n)" "am_db am' = s" "rep_matches rep = length ms"
    "rep_by_monitor rep = group_matches_by_monitor ms"
    using run by (auto simp: dry_run_execute_def bindS_def split: bind_splits sum.splits prod.splits option.splits)
  have "from \<le> to"
    using l(1) by (auto simp: run_dry_run_loop_def validate_block_range_def split: if_splits)
  have "db_ok (am_db am2)"
    using dry_flush_db_ok [OF run_dry_run_loop_keeps(1) [OF l(1) assms(2)], of env] l(2) by simp
  then have "outbox_ok (snd (w, am_db am2))" by (simp add: db_ok_def)
  then have "outbox_abs (de_store env) s = [] \<and> (\<exists>cs. drain_dispatches ?pr (w, am_db am2) = Some cs \<and>
      performs (dispatcher_execute sv d) w cs w' \<and> (\<forall>e \<in> set (outbox_abs (de_store env) (am_db am2)). accepted_in cs e))"
    using sqlite.drain_no_loss [of ?pr 0 "(w, am_db am2)" "((w', s), Inr n)" "de_store env"] l(3) assms(3,4)
    by (auto simp: drain_queue_def)
  moreover have "length (filter (\<lambda>m. mm_monitor_name m = name) ms) =
      (case map_of (rep_by_monitor rep) name of None \<Rightarrow> 0 | Some k \<Rightarrow> k)" for name
    unfolding l(6) group_matches_lookup by (simp split: nat.splits)
  moreover have "\<exists>e \<in> set (outbox_abs (de_store env) (am_db (fst (dry_flush env am1)))). oe_key e = idempotency_key (se_finish (de_store env)) (Single m)"
    if "m \<in> set ms" "direct am (Single m)" for m
    using run_dry_run_loop_keeps(2) [OF l(1) assms(2) that] flush_extends_keys [of "de_store env" am1 "de_time env" "de_flush_time env"]
    by (force simp: dry_flush_def outbox_keys_def simp del: idempotency_key.simps)
  ultimately show ?thesis using l \<open>from \<le> to\<close> by (simp add: list_all_iff)
qed

section \<open>Witnesses\<close>

text \<open>Scripts of an engine that always answers with a truth value never fail.\<close>

definition boolean_engine :: "'ast script_engine \<Rightarrow> bool" where
  "boolean_engine e \<longleftrightarrow> (\<forall>a sc. \<exists>b. snd (eng_eval e a sc) = Inr (DBool b))"

lemma boolean_eval:
  assumes "boolean_engine (fe_engine fe)"
  shows "\<exists>sc' b. eval_ast_bool_secure fe a sc = (sc', Inr b)"
proof -
  obtain b sc' where "eng_eval (fe_engine fe) a sc = (sc', Inr (DBool b))"
    using assms unfolding boolean_engine_def by (metis prod.collapse)
  then show ?thesis by (simp add: eval_ast_bool_secure_def)
qed

lemma boolean_evaluate_logs:
  assumes "boolean_engine (fe_engine fe)"
  shows "is_ok (evaluate_logs fe cm ls sc ctx)"
proof (induction ls arbitrary: sc ctx)
  case (Cons l ls)
  have "is_ok (case eval_ast_bool_secure fe a sc1 of (_, Inl e) \<Rightarrow> Inl e
      | (sc', Inr m) \<Rightarrow> evaluate_logs fe cm ls (f sc') (g m))" for a sc1 f g
    using boolean_eval [OF assms, of a sc1] Cons by auto
  then show ?case using Cons by (simp split: prod.splits option.splits)
qed simp

lemma boolean_evaluate_tx:
  assumes "boolean_engine (fe_engine fe)"
  shows "is_ok (evaluate_tx_loop fe base cms sc ctx)"
proof (induction cms arbitrary: sc ctx)
  case (Cons cm cms)
  have "is_ok (case eval_ast_bool_secure fe a sc1 of (_, Inl e) \<Rightarrow> Inl e
      | (sc', Inr m) \<Rightarrow> evaluate_tx_loop fe base cms (f sc') (g m))" for a sc1 f g
    using boolean_eval [OF assms, of a sc1] Cons by auto
  then show ?case using Cons by (simp split: prod.splits)
qed simp

lemma boolean_engine_evaluates:
  assumes "boolean_engine (fe_engine fe)"
  shows "is_ok (evaluate_item fe st item)"
proof -
  have logs: "is_ok (evaluate_log_aware_monitors fe cms ctx)" for cms ctx
  proof (induction cms arbitrary: ctx)
    case (Cons cm cms)
    then show ?case using boolean_evaluate_logs [OF assms, of cm "ci_logs (ec_item ctx)" None ctx] by (auto simp: is_ok_iff)
  qed simp
  then obtain ctx where ctx: "(if ci_logs item \<noteq> []
      then evaluate_log_aware_monitors fe (snapshot_monitors st (as_log_aware_monitors st)) (evaluation_context_new item)
      else Inr (evaluation_context_new item)) = Inr ctx"
    using logs [of "snapshot_monitors st (as_log_aware_monitors st)" "evaluation_context_new item"] by (cases "ci_logs item = []") (auto simp: is_ok_iff)
  have "is_ok (evaluate_tx_aware_monitors fe (snapshot_monitors st (as_tx_aware_monitors st)) ctx)"
    using boolean_evaluate_tx [OF assms] by (auto simp: evaluate_tx_aware_monitors_def Let_def split: prod.splits)
  then obtain ctx' where "evaluate_tx_aware_monitors fe (snapshot_monitors st (as_tx_aware_monitors st)) ctx = Inr ctx'"
    by (auto simp: is_ok_iff)
  then show ?thesis by (simp add: evaluate_item_def ctx)
qed

text \<open>A chain with one transaction in every block; the run covers block 4, whose log and transaction both match.\<close>

definition dry_block :: "u64 \<Rightarrow> block" where
  "dry_block n = (sample_block n)\<lparr>blk_transactions := FullTxs [sample_tx]\<rparr>"

definition dry_provider :: rpc_provider where
  "dry_provider = sample_provider\<lparr>rp_block_by_number := (\<lambda>n. Inr (Some (dry_block n)))\<rparr>"

definition dry_manager :: "string monitor_manager" where
  "dry_manager = \<lparr>mg_cache = [], mg_state = sample_snapshot\<lparr>as_interest_registry := Argus_Provider.sample_registry\<rparr>\<rparr>"

definition sample_dry_env :: "string dry_env" where
  "sample_dry_env = \<lparr>de_source = (\<lambda>_. evm_rpc_source dry_provider Argus_Provider.sample_registry), de_order = rev, de_manager = dry_manager,
     de_filter = sample_filter, de_correlate_panic = (\<lambda>_. None), de_evaluate_panic = (\<lambda>_. None), de_first_error = hd,
     de_clock = (\<lambda>_ _. 0), de_flush_time = 0, de_store = sample_env, de_time = \<lparr>tc_enc = (\<lambda>_. []), tc_dec = (\<lambda>_. None)\<rparr>\<rparr>"

definition sample_fetch_config :: fetch_config where
  "sample_fetch_config = \<lparr>fc_concurrency = 4, fc_log_chunk_size = 0\<rparr>"

definition quiet_manager :: alert_manager where
  "quiet_manager = \<lparr>am_db = queued_db, am_actions = [], am_generated_alerts = [], am_throttle_states = [], am_aggregation_states = []\<rparr>"

lemma sample_dry_ok:
  "dry_chain sample_dry_env sample_fetch_config dry_provider sample_chain dry_block 4 4" "no_panic sample_dry_env"
  "evaluates sample_dry_env" "faultless (am_db quiet_manager)"
proof -
  have "honest_provider dry_provider sample_chain"
    by (auto simp: honest_provider_def dry_provider_def sample_provider_def sample_chain_def sample_log_def dry_block_def sample_block_def)
  moreover have "available dry_provider 4" by (simp add: available_def dry_provider_def sample_provider_def)
  ultimately show "dry_chain sample_dry_env sample_fetch_config dry_provider sample_chain dry_block 4 4"
    by (simp add: dry_chain_def sample_dry_env_def permutes_def dry_manager_def manager_registry_def sample_fetch_config_def dry_provider_def
        sample_provider_def dry_block_def block_hashes_def block_tx_hashes_def)
  show "no_panic sample_dry_env" by (simp add: no_panic_def sample_dry_env_def)
  have "boolean_engine (fe_engine sample_filter)" by (simp add: boolean_engine_def sample_filter_def sample_engine_def)
  then show "evaluates sample_dry_env" using boolean_engine_evaluates [of sample_filter] by (simp add: evaluates_def sample_dry_env_def)
  show "faultless (am_db quiet_manager)" using queued_db_ok by (simp add: quiet_manager_def)
qed

theorem dry_run_exact_witness:
  "\<exists>am' bds. run_dry_run_loop sample_dry_env sample_fetch_config 4 4 quiet_manager =
      Some (am', Inr (concat (map (dry_matches sample_filter (mg_state dry_manager)) bds))) \<and>
    map bd_block bds = [dry_block 4]"
proof -
  have env: "de_filter sample_dry_env = sample_filter" "manager_load (de_manager sample_dry_env) = mg_state dry_manager"
    by (simp_all add: sample_dry_env_def manager_load_def)
  from dry_run_exact [OF sample_dry_ok order_refl] show ?thesis
    unfolding env u64_range_single list.map by (elim exE conjE) (intro exI conjI)
qed

text \<open>A manager without actions leaves the store alone.\<close>

lemma quiet_process:
  assumes "am_actions am = []"
  shows "process_matches_batch env ms am = (am, Inr ())"
proof -
  have "process_loop env ms [] am = (am, Inr [])"
    using assms by (induction ms) (auto simp: process_loop_step)
  then show ?thesis by (simp add: process_matches_batch_def bindS_def dispatch_payloads_batch_def)
qed

lemma quiet_flush: "dry_flush sample_dry_env quiet_manager = (quiet_manager, Inr ())"
  by (simp add: dry_flush_def alert_flush_def check_and_dispatch_expired_windows_def quiet_manager_def expired_payloads_def
      expired_states_def dispatch_payloads_batch_def sync_states_to_db_def put_states_def map_filter_simps)

lemma sample_dry_loop: "\<exists>ms. run_dry_run_loop sample_dry_env sample_fetch_config 4 4 quiet_manager = Some (quiet_manager, Inr ms)"
proof -
  have same: "fst (process_fetched sample_dry_env a bds quiet_manager) = quiet_manager" for a bds
    using quiet_process [of quiet_manager]
    by (auto simp: process_fetched_def quiet_manager_def split: sum.splits option.splits)
  have hashes: "distinct (concat (map (block_hashes \<circ> dry_block) (u64_range 4 4)))"
    by (simp add: dry_block_def block_hashes_def block_tx_hashes_def)
  obtain am' ms where b: "dry_run_batch sample_dry_env sample_fetch_config 4 4 quiet_manager = Some (am', Inr ms)"
    using dry_run_batch_exact [OF sample_dry_ok order_refl hashes] by blast
  then obtain f where "(case f of Inl e \<Rightarrow> (quiet_manager, Inl (DryDataSource e))
      | Inr bds \<Rightarrow> process_fetched sample_dry_env 4 bds quiet_manager) = (am', Inr ms)" by (auto simp: dry_run_batch_def)
  then obtain bds where "process_fetched sample_dry_env 4 bds quiet_manager = (am', Inr ms)" by (cases f) auto
  then have "am' = quiet_manager" using same [of 4 bds] by simp
  with b have "dry_run_batch sample_dry_env sample_fetch_config 4 4 quiet_manager = Some (quiet_manager, Inr ms)" by simp
  moreover have "calculate_batch_end_block 4 BATCH_SIZE 4 = Some 4" by (simp add: calculate_batch_end_block_def BATCH_SIZE_def min_def)
  moreover have "dry_run_loop env cfg 5 4 ms am = Some (am, Inr ms)" for env cfg ms am by (subst dry_run_loop.simps) simp
  ultimately have "dry_run_loop sample_dry_env sample_fetch_config 4 4 [] quiet_manager = Some (quiet_manager, Inr ms)"
    by (subst dry_run_loop.simps) simp
  then show ?thesis by (simp add: run_dry_run_loop_def validate_block_range_def bindS_def quiet_flush)
qed

theorem dry_run_delivers_witness:
  "\<exists>w' am' rep. dry_run_execute sample_dry_env sample_fetch_config
       (outbox_processor_new (de_store sample_dry_env) log_services slack_dispatcher (\<lambda>_. rev) slack_config_1) 4 4 quiet_manager [] =
     Some ((w', am'), Inr rep) \<and> outbox_abs sample_env (am_db am') = []"
proof -
  let ?pr = "outbox_processor_new (de_store sample_dry_env) log_services slack_dispatcher (\<lambda>_. rev) slack_config_1"
  have env: "de_store sample_dry_env = sample_env" "am_db quiet_manager = queued_db"
    by (simp_all add: sample_dry_env_def quiet_manager_def)
  obtain ms where l: "run_dry_run_loop sample_dry_env sample_fetch_config 4 4 quiet_manager = Some (quiet_manager, Inr ms)"
    using sample_dry_loop by blast
  obtain w' t where "drain_queue ?pr ([], queued_db) = Some ((w', t), Inr 2)"
    using sqlite.drain_delivers [of ?pr sample_env queued_db 0 "[]"] queued_db_ok slack_dispatcher_accepts
    by (auto simp: env permutes_batch_def slack_config_1_def queued_db_abs readable_def drain_queue_def numeral_2_eq_2)
  then obtain am' rep where run: "dry_run_execute sample_dry_env sample_fetch_config ?pr 4 4 quiet_manager [] = Some ((w', am'), Inr rep)"
    by (simp add: dry_run_execute_def l bindS_def quiet_flush env calculate_total_blocks_def)
  have "db_ok (am_db quiet_manager)" using queued_db_ok by (simp add: env queued_db_def db_ok_defs empty_db_def)
  from dry_run_delivers [OF run this] show ?thesis using run by (auto simp: permutes_batch_def slack_config_1_def env)
qed

end
