(* ===== verification/Argus_Supervisor.thy ===== *)
theory Argus_Supervisor
  imports Argus_Startup Argus_Api Argus_Alerts Argus_Outbox
begin

text \<open>
  The supervisor, \<open>src/supervisor/mod.rs\<close>: the tasks it spawns, its select loop as a step function on events, the
  reload of monitors after configuration changes, and the cleanup under a timeout.

  Events are the branches of the loop that can be taken, the requests the HTTP task serves, and writes of the other tasks to
  tables that hold no monitors. An event that cannot happen in a state is \<open>None\<close>. The watch channel is the pair of the
  number of notifications sent (in the state of the API) and the number the supervisor has seen; reloads that fail are counted, as
  the code logs them.
\<close>

section \<open>Tasks and state\<close>

datatype task =
    SignalHandler | HttpServer | IngestorTask | ProcessorTask | FilteringTask | AlertTask | AggregationTask | OutboxTask

definition spawned_tasks :: "app_config \<Rightarrow> task list" where
  "spawned_tasks cfg =
     [SignalHandler] @ (if sc_api_key (ac_server cfg) \<noteq> None then [HttpServer] else []) @
     [IngestorTask, ProcessorTask, FilteringTask, AlertTask, AggregationTask, OutboxTask]"

record 'ast supervisor =
  su_api :: "'ast api_state"
  su_seen :: nat
  su_manager :: "'ast monitor_manager"
  su_tasks :: "task list"
  su_cancelled :: bool
  su_stopped :: bool
  su_reload_errors :: nat

record 'ast supervisor_env =
  ve_api :: "'ast api_env"
  ve_engine :: "'ast script_engine"
  ve_registry :: registry_env

definition supervisor_new :: "'ast api_state \<Rightarrow> 'ast monitor_manager \<Rightarrow> 'ast supervisor" where
  "supervisor_new api mg =
     \<lparr>su_api = api, su_seen = api_notified api, su_manager = mg, su_tasks = spawned_tasks (api_config api), su_cancelled = False,
      su_stopped = False, su_reload_errors = 0\<rparr>"

text \<open>\<open>SupervisorBuilder::build\<close>: the supervisor over a built context. The script cache is shared with the manager.\<close>

definition supervisor_build :: "'ast app_context \<Rightarrow> 'ast supervisor" where
  "supervisor_build ctx =
     supervisor_new \<lparr>api_config = ctx_config ctx, api_db = am_db (ctx_alert_manager ctx), api_cache = mg_cache (ctx_monitor_manager ctx),
       api_notified = 0\<rparr> (ctx_monitor_manager ctx)"

section \<open>The loop\<close>

datatype supervisor_event =
    Request "string option" api_request
  | OtherWrites db
  | SignalReceived
  | TaskEnded task
  | TaskPanicked task
  | AllTasksEnded
  | CancellationSeen
  | ConfigurationChanged

text \<open>The branch of a configuration change; the monitors stay as they are when the read fails.\<close>

definition reload_monitors :: "'ast supervisor_env \<Rightarrow> 'ast supervisor \<Rightarrow> 'ast supervisor" where
  "reload_monitors env su =
     (let api = su_api su; su1 = su\<lparr>su_seen := api_notified api\<rparr>
      in case get_monitors (api_net api) (api_db api) of
           (s, Inr ms) \<Rightarrow> su1\<lparr>su_api := api\<lparr>api_db := s\<rparr>,
             su_manager := monitor_manager_update (ve_engine env) (ve_registry env) ms (su_manager su)\<rparr>
         | (s, Inl e) \<Rightarrow> su1\<lparr>su_api := api\<lparr>api_db := s\<rparr>, su_reload_errors := Suc (su_reload_errors su)\<rparr>)"

text \<open>When the HTTP task has ended its sender is dropped, and \<open>changed()\<close> returns at once with an error that the branch ignores.\<close>

definition sender_dropped :: "'ast supervisor \<Rightarrow> bool" where
  "sender_dropped su \<longleftrightarrow> sc_api_key (ac_server (api_config (su_api su))) \<noteq> None \<and> HttpServer \<notin> set (su_tasks su)"

definition supervise_event :: "'ast supervisor_env \<Rightarrow> supervisor_event \<Rightarrow> 'ast supervisor \<Rightarrow> 'ast supervisor option" where
  "supervise_event env ev su =
     (if su_stopped su then None
      else
        (case ev of
           Request header req \<Rightarrow>
             if HttpServer \<in> set (su_tasks su)
             then map_option (\<lambda>(api, _). su\<lparr>su_api := api\<rparr>) (serve (ve_api env) header req (su_api su)) else None
         | OtherWrites s \<Rightarrow>
             if db_monitors s = db_monitors (api_db (su_api su)) then Some (su\<lparr>su_api := (su_api su)\<lparr>api_db := s\<rparr>\<rparr>) else None
         | SignalReceived \<Rightarrow> if SignalHandler \<in> set (su_tasks su) then Some (su\<lparr>su_cancelled := True\<rparr>) else None
         | TaskEnded t \<Rightarrow> if t \<in> set (su_tasks su) then Some (su\<lparr>su_tasks := removeAll t (su_tasks su)\<rparr>) else None
         | TaskPanicked t \<Rightarrow>
             if t \<in> set (su_tasks su) then Some (su\<lparr>su_tasks := removeAll t (su_tasks su), su_cancelled := True\<rparr>) else None
         | AllTasksEnded \<Rightarrow> if su_tasks su = [] then Some (su\<lparr>su_stopped := True\<rparr>) else None
         | CancellationSeen \<Rightarrow> if su_cancelled su then Some (su\<lparr>su_stopped := True\<rparr>) else None
         | ConfigurationChanged \<Rightarrow>
             if su_seen su < api_notified (su_api su) \<or> sender_dropped su then Some (reload_monitors env su) else None))"

fun supervise :: "'ast supervisor_env \<Rightarrow> supervisor_event list \<Rightarrow> 'ast supervisor \<Rightarrow> 'ast supervisor option" where
  "supervise env [] su = Some su"
| "supervise env (ev # evs) su = Option.bind (supervise_event env ev su) (supervise env evs)"

section \<open>Cleanup\<close>

text \<open>The cleanup runs under a timeout, which drops it at the await it has reached: before or after the matches of the windows are
  enqueued, in the drain after \<open>k\<close> whole batches, \<open>j\<close> handled results of the next one and \<open>m\<close> further dispatches whose results are not
  handled any more, or in the bookkeeping that follows. The deletion after a batch is one step.\<close>

datatype cleanup_cut = BeforeEnqueue | BeforeSync | InDrain nat nat nat | AfterDrain | NotCut

definition cut_batch :: "('w, db) outbox_processor \<Rightarrow> nat \<Rightarrow> nat \<Rightarrow> 'w \<times> db \<Rightarrow> 'w \<times> db" where
  "cut_batch pr j m ws =
     (case r_pending (op_state pr) (oc_batch_size (op_config pr)) (snd ws) of
        (s, Inl e) \<Rightarrow> (fst ws, s)
      | (s, Inr items) \<Rightarrow>
          let order = op_completion pr (fst ws) items
          in (fst (fst (handle_results pr (take (j + m) order) (fst ws, s))), snd (fst (handle_results pr (take j order) (fst ws, s)))))"

definition finish_store :: "db \<Rightarrow> db" where
  "finish_store s = fst (store_cleanup (fst (store_flush s)))"

definition supervisor_cleanup ::
  "store_env \<Rightarrow> time_codec \<Rightarrow> timestamp \<Rightarrow> ('w, db) outbox_processor \<Rightarrow> cleanup_cut \<Rightarrow> alert_manager \<Rightarrow> 'w \<Rightarrow> ('w \<times> db) option" where
  "supervisor_cleanup env tc now pr stage am w =
     (let am1 = am\<lparr>am_aggregation_states := expired_states True now am\<rparr>;
          am2 = fst (dispatch_payloads_batch env (expired_payloads True now am) am1);
          am3 = alert_shutdown env tc now am
      in case stage of
           BeforeEnqueue \<Rightarrow> Some (w, am_db am1)
         | BeforeSync \<Rightarrow> Some (w, am_db am2)
         | InDrain k j m \<Rightarrow> Some (cut_batch pr j m (outbox_run pr k (w, am_db am3)))
         | AfterDrain \<Rightarrow> map_option fst (drain_queue pr (w, am_db am3))
         | NotCut \<Rightarrow> map_option (\<lambda>((w', s), _). (w', finish_store s)) (drain_queue pr (w, am_db am3)))"

section \<open>Why it stops\<close>

lemma supervise_event_cases:
  assumes "supervise_event env ev su = Some su'"
  shows "\<not> su_stopped su \<and>
    (su_stopped su' \<longrightarrow> su_cancelled su' \<or> su_tasks su' = []) \<and>
    (su_cancelled su' \<longrightarrow> su_cancelled su \<or> ev = SignalReceived \<or> (\<exists>t. ev = TaskPanicked t)) \<and>
    (\<forall>t \<in> set (su_tasks su). t \<in> set (su_tasks su') \<or> ev = TaskEnded t \<or> ev = TaskPanicked t)"
  using assms
  by (cases ev) (auto simp: supervise_event_def reload_monitors_def Let_def split: if_splits prod.splits sum.splits)

text \<open>C39. The loop only ends for a reason: when the supervisor has stopped, a signal was received, a task panicked, or every task it spawned
  has ended; requests, reloads and single tasks that end never stop it.\<close>

theorem supervisor_stops_for_a_reason:
  assumes "supervise env evs (supervisor_new api mg) = Some su" "su_stopped su"
  shows "SignalReceived \<in> set evs \<or> (\<exists>t. TaskPanicked t \<in> set evs) \<or> list_all (\<lambda>t. TaskEnded t \<in> set evs) (spawned_tasks (api_config api))"
proof -
  have "(su_stopped su' \<longrightarrow> su_stopped su \<or> su_cancelled su' \<or> su_tasks su' = []) \<and>
    (su_cancelled su' \<longrightarrow> su_cancelled su \<or> SignalReceived \<in> set evs \<or> (\<exists>t. TaskPanicked t \<in> set evs)) \<and>
    (\<forall>t \<in> set (su_tasks su). t \<in> set (su_tasks su') \<or> TaskEnded t \<in> set evs \<or> TaskPanicked t \<in> set evs)"
    if "supervise env evs su = Some su'" for su su'
    using that
  proof (induction evs arbitrary: su)
    case (Cons ev evs)
    then obtain su1 where s: "supervise_event env ev su = Some su1" "supervise env evs su1 = Some su'" by (auto split: bind_splits)
    note IH = Cons.IH [OF s(2)] and step = supervise_event_cases [OF s(1)]
    have "su_stopped su1 \<Longrightarrow> su' = su1" using s(2) by (cases evs) (auto simp: supervise_event_def)
    then show ?case using IH step by auto
  qed simp
  from this [OF assms(1)] assms(2) show ?thesis by (auto simp: supervisor_new_def list_all_iff)
qed

section \<open>Configuration changes reach the engine\<close>

text \<open>An operation of the repository that fails has not touched the monitors.\<close>

definition error_keeps :: "'a dbop \<Rightarrow> bool" where
  "error_keeps m \<longleftrightarrow> (\<forall>s t e. m s = (t, Inl e) \<longrightarrow> db_monitors t = db_monitors s)"

lemma no_hits: "length (filter P xs) = 0 \<Longrightarrow> map (\<lambda>r. if P r then f r else r) xs = xs" "length (filter P xs) = 0 \<Longrightarrow> filter (\<lambda>r. \<not> P r) xs = xs"
  by (induction xs) (auto split: if_splits)

lemma monitor_errors_keep:
  "error_keeps (add_monitors e n ms)" "error_keeps (delete_monitor e n i)" "error_keeps (update_monitor e n i m)"
  "error_keeps (update_monitor_status e n i st)"
proof -
  show "error_keeps (add_monitors e n ms)"
    by (auto simp: error_keeps_def add_monitors_def dest!: transaction_Inl split: option.splits intro: same_tables_monitors)
  show "error_keeps (delete_monitor e n i)"
    by (auto simp: error_keeps_def delete_monitor_def or_not_found_def bindS_def exec_def Let_def no_hits split: option.splits if_splits prod.splits)
  show "error_keeps (update_monitor e n i m)"
    by (auto simp: error_keeps_def update_monitor_def update_monitor_stmt_def or_not_found_def bindS_def exec_def Let_def no_hits split: option.splits if_splits prod.splits sum.splits)
  show "error_keeps (update_monitor_status e n i st)"
    by (auto simp: error_keeps_def update_monitor_status_def or_not_found_def bindS_def exec_def Let_def no_hits split: option.splits if_splits prod.splits)
qed

definition announced :: "'ast api_state \<Rightarrow> 'ast api_state \<Rightarrow> bool" where
  "announced st st' \<longleftrightarrow> api_config st' = api_config st \<and>
     (api_notified st < api_notified st' \<or> api_notified st = api_notified st' \<and> db_monitors (api_db st') = db_monitors (api_db st))"

lemma announced_run: "m = (st', r) \<Longrightarrow> announced st (fst m) \<Longrightarrow> announced st st'"
  by simp

lemma announced_refl: "announced st st"
  by (simp add: announced_def)

lemma monitor_write_announced:
  assumes "error_keeps m" "ae_receiver env"
  shows "announced st (fst (bindS (db_op m) (\<lambda>_. bindS (notify_or_fail env) (\<lambda>_. retS x)) st))"
proof (cases "m (api_db st)")
  case (Pair t r)
  then show ?thesis using assms
    by (cases r) (auto simp: announced_def error_keeps_def db_op_def bindS_def notify_or_fail_def)
qed

text \<open>The other handlers leave the monitors alone, whether or not they announce anything.\<close>

definition keeps_monitors :: "'ast api_state \<Rightarrow> 'ast api_state \<Rightarrow> bool" where
  "keeps_monitors st st' \<longleftrightarrow>
     api_config st' = api_config st \<and> api_notified st \<le> api_notified st' \<and> db_monitors (api_db st') = db_monitors (api_db st)"

lemma keeps_monitors_announced: "keeps_monitors st st' \<Longrightarrow> announced st st'"
  by (auto simp: keeps_monitors_def announced_def)

lemma db_op_keeps_monitors:
  "(\<And>s. db_monitors (fst (m s)) = db_monitors s) \<Longrightarrow> keeps_monitors st0 st \<Longrightarrow> keeps_monitors st0 (fst (db_op m st))"
  "(\<And>s. db_monitors (fst (k s)) = db_monitors s) \<Longrightarrow> keeps_monitors st0 st \<Longrightarrow> keeps_monitors st0 (fst (action_check k st))"
  by (auto simp: keeps_monitors_def db_op_def action_check_def split: prod.splits) (metis fst_conv)+

lemma notify_keeps_monitors: "keeps_monitors st0 st \<Longrightarrow> keeps_monitors st0 (fst (notify env st))"
  by (simp add: keeps_monitors_def notify_def)

lemma other_operations_keep_monitors:
  "db_monitors (fst (create_abi name abi s)) = db_monitors s" "db_monitors (fst (delete_abi name s)) = db_monitors s"
  "db_monitors (fst (create_action e n a s)) = db_monitors s" "db_monitors (fst (update_action e n a s)) = db_monitors s"
  "db_monitors (fst (delete_action n i s)) = db_monitors s"
  by (auto simp: create_abi_def delete_abi_def delete_abi_stmt_def create_action_def update_action_def update_action_stmt_def
      delete_action_def or_not_found_def select_def exec_def Let_def bindS_def split: option.splits prod.splits sum.splits if_splits)

lemma action_checks_keep_monitors:
  "db_monitors (fst (action_validate_for_create e d n a s)) = db_monitors s"
  "db_monitors (fst (action_validate_for_update e d n a s)) = db_monitors s"
  by (auto simp: action_validate_for_create_def action_validate_for_update_def get_action_by_name_def get_action_by_id_def select_def
      exec_def Let_def bindS_def split: option.splits prod.splits sum.splits if_splits)

lemma reads_keep_monitors:
  assumes "\<And>s. same_tables s (fst (m s))"
  shows "db_monitors (fst (m s)) = db_monitors s"
  using same_tables_monitors [OF assms] .

lemmas keeps_handler = handler_keeps [where P = "keeps_monitors st0" for st0] db_op_keeps_monitors notify_keeps_monitors
  other_operations_keep_monitors action_checks_keep_monitors

lemma other_handlers_keep_monitors:
  "keeps_monitors st (fst (api_upload_abi env name abi st))" "keeps_monitors st (fst (api_delete_abi name st))"
  "keeps_monitors st (fst (api_create_action env a st))" "keeps_monitors st (fst (api_update_action env j a st))"
  "keeps_monitors st (fst (api_delete_action env j st))"
proof -
  have refl: "keeps_monitors st st" by (simp add: keeps_monitors_def)
  show "keeps_monitors st (fst (api_upload_abi env name abi st))"
    unfolding api_upload_abi_def using refl
    by (auto intro!: keeps_handler reads_keep_monitors [of "get_abi name"] read_only split: sum.splits)
  show "keeps_monitors st (fst (api_delete_abi name st))"
    unfolding api_delete_abi_def by (auto intro!: keeps_handler refl)
  show "keeps_monitors st (fst (api_create_action env a st))"
    unfolding api_create_action_def by (auto intro!: keeps_handler refl)
  show "keeps_monitors st (fst (api_update_action env j a st))"
    unfolding api_update_action_def Let_def by (auto intro!: keeps_handler refl)
  show "keeps_monitors st (fst (api_delete_action env j st))"
    unfolding api_delete_action_def
    by (auto intro!: keeps_handler refl reads_keep_monitors [of "get_monitors_by_action_id _ _ _"] by_action_reads)
qed

lemma validated_write_announced:
  assumes "map_option (\<lambda>(s, c, r). case r of Inl e \<Rightarrow> (st\<lparr>api_db := s, api_cache := c\<rparr>, Inl (f e))
      | Inr _ \<Rightarrow> bindS (db_op m) (\<lambda>_. bindS (notify_or_fail env) (\<lambda>_. retS x)) (st\<lparr>api_db := s, api_cache := c\<rparr>)) v = Some (st', r)"
    and "\<And>s c q. v = Some (s, c, q) \<Longrightarrow> same_tables (api_db st) s" and "error_keeps m" "ae_receiver env"
  shows "announced st st'"
proof -
  obtain s c q where v: "v = Some (s, c, q)" using assms(1) by auto
  have same: "db_monitors s = db_monitors (api_db st)" using same_tables_monitors [OF assms(2) [OF v]] .
  show ?thesis
  proof (cases q)
    case (Inl e)
    then show ?thesis using assms(1) v same by (auto simp: announced_def)
  next
    case (Inr u)
    then have "st' = fst (bindS (db_op m) (\<lambda>_. bindS (notify_or_fail env) (\<lambda>_. retS x)) (st\<lparr>api_db := s, api_cache := c\<rparr>))"
      using assms(1) v by (simp add: prod_eq_iff)
    then show ?thesis
      using monitor_write_announced [OF assms(3,4), where x = x and st = "st\<lparr>api_db := s, api_cache := c\<rparr>"] same by (simp add: announced_def)
  qed
qed

lemma reads_config:
  "api_config (fst (api_get_monitors st)) = api_config st" "api_config (fst (api_get_monitor_details i st)) = api_config st"
  "api_config (fst (api_list_abis st)) = api_config st" "api_config (fst (api_get_abi_by_name i st)) = api_config st"
  "api_config (fst (api_get_actions env st)) = api_config st" "api_config (fst (api_get_action_details env j st)) = api_config st"
  "api_config (fst (api_status env st)) = api_config st"
  by (simp_all add: api_get_monitors_def api_get_monitor_details_def api_list_abis_def api_get_abi_by_name_def api_get_actions_def
      api_get_action_details_def api_status_def fst_db_then)

lemma serve_announced:
  assumes "serve env header req st = Some (st', r)" "ae_receiver env"
  shows "announced st st'"
proof -
  have "route env req st = Some (st', r) \<or> st' = st"
    using assms(1) by (auto simp: serve_def split: if_splits bind_splits sum.splits)
  then show ?thesis
  proof
    assume run: "route env req st = Some (st', r)"
    note others = other_handlers_keep_monitors [THEN keeps_monitors_announced]
    have reads: "announced st (fst (api_get_monitors st))" "announced st (fst (api_get_monitor_details i st))"
      "announced st (fst (api_list_abis st))" "announced st (fst (api_get_abi_by_name i st))"
      "announced st (fst (api_get_actions env st))" "announced st (fst (api_get_action_details env j st))"
      "announced st (fst (api_status env st))" for i j
      using reads_keep_store [of st] same_tables_monitors
      by (simp_all add: announced_def same_store_def reads_config)
    show ?thesis
    proof (cases req)
      case (CreateMonitor m)
      then show ?thesis using run validator_reads(1) unfolding route_def api_create_monitor_def
        by (simp only: api_request.case) (rule validated_write_announced [OF _ _ monitor_errors_keep(1) assms(2)])
    next
      case (UpdateMonitor i m)
      then show ?thesis using run validator_reads(2) unfolding route_def api_update_monitor_def
        by (simp only: api_request.case) (rule validated_write_announced [OF _ _ monitor_errors_keep(3) assms(2)])
    next
      case (DeleteMonitor i)
      have "announced st (fst (api_delete_monitor env i st))"
        unfolding api_delete_monitor_def by (rule monitor_write_announced [OF monitor_errors_keep(2) assms(2)])
      then show ?thesis using run DeleteMonitor by (simp add: route_def)
    next
      case (UpdateMonitorStatus i status)
      have "announced st (fst (api_update_monitor_status env i status st))"
        unfolding api_update_monitor_status_def by (rule monitor_write_announced [OF monitor_errors_keep(4) assms(2)])
      then show ?thesis using run UpdateMonitorStatus by (simp add: route_def)
    next
      case (GetMonitor i)
      then show ?thesis using run by (auto simp: route_def dest!: announced_run [OF _ reads(2)])
    next
      case (UploadAbi name abi)
      then show ?thesis using run by (auto simp: route_def dest!: announced_run [OF _ others(1)])
    next
      case ListAbis
      then show ?thesis using run by (auto simp: route_def dest!: announced_run [OF _ reads(3)])
    next
      case (GetAbi name)
      then show ?thesis using run by (auto simp: route_def dest!: announced_run [OF _ reads(4)])
    next
      case (DeleteAbi name)
      then show ?thesis using run by (auto simp: route_def dest!: announced_run [OF _ others(2)])
    next
      case GetActions
      then show ?thesis using run by (auto simp: route_def dest!: announced_run [OF _ reads(5)])
    next
      case (GetAction j)
      then show ?thesis using run by (auto simp: route_def dest!: announced_run [OF _ reads(6)])
    next
      case (CreateAction a)
      then show ?thesis using run by (auto simp: route_def dest!: announced_run [OF _ others(3)])
    next
      case (UpdateAction j a)
      then show ?thesis using run by (auto simp: route_def dest!: announced_run [OF _ others(4)])
    next
      case (DeleteAction j)
      then show ?thesis using run by (auto simp: route_def dest!: announced_run [OF _ others(5)])
    qed (use run reads(1) reads(7) in \<open>auto simp: route_def announced_refl dest: announced_run\<close>)+
  qed (simp add: announced_refl)
qed

text \<open>The engine runs the monitors of the store.\<close>

definition engine_current :: "'ast supervisor_env \<Rightarrow> 'ast supervisor \<Rightarrow> bool" where
  "engine_current env su \<longleftrightarrow>
     (\<exists>ms mg. traverse monitor_of_row (filter (\<lambda>r. mr_network r = api_net (su_api su)) (db_monitors (api_db (su_api su)))) = Inr ms \<and>
       su_manager su = monitor_manager_update (ve_engine env) (ve_registry env) ms mg)"

definition change_pending :: "'ast supervisor \<Rightarrow> bool" where
  "change_pending su \<longleftrightarrow> su_seen su < api_notified (su_api su)"

lemma engine_current_cong:
  "su_manager su' = su_manager su \<Longrightarrow> api_config (su_api su') = api_config (su_api su) \<Longrightarrow>
   db_monitors (api_db (su_api su')) = db_monitors (api_db (su_api su)) \<Longrightarrow> engine_current env su' = engine_current env su"
  by (simp add: engine_current_def api_net_def)

lemma reload_current:
  assumes "reload_monitors env su = su'"
  shows "\<not> change_pending su' \<and> (su_reload_errors su < su_reload_errors su' \<or> su_reload_errors su' = su_reload_errors su \<and> engine_current env su')"
proof -
  obtain s r where g: "get_monitors (api_net (su_api su)) (api_db (su_api su)) = (s, r)" by fastforce
  have same: "db_monitors s = db_monitors (api_db (su_api su))"
    using same_tables_monitors [OF read_only(2) [of "api_db (su_api su)" "api_net (su_api su)"]] g by simp
  show ?thesis
  proof (cases r)
    case (Inl e)
    then show ?thesis using assms g by (auto simp: reload_monitors_def change_pending_def Let_def)
  next
    case (Inr ms)
    then have "traverse monitor_of_row (filter (\<lambda>r. mr_network r = api_net (su_api su)) (db_monitors (api_db (su_api su)))) = Inr ms"
      using g by (auto simp: Argus_Store.get_monitors_def bindS_Inr_iff select_Inr)
    then show ?thesis using assms g Inr same by (auto simp: reload_monitors_def change_pending_def engine_current_def api_net_def Let_def)
  qed
qed

lemma manager_new_update: "\<exists>mg. monitor_manager_new e g ms cache = monitor_manager_update e g ms mg"
  by (intro exI [of _ "\<lparr>mg_cache = cache, mg_state = undefined\<rparr>"]) (simp add: monitor_manager_new_def monitor_manager_update_def)

text \<open>The context a successful start builds is current.\<close>

lemma startup_current:
  assumes "app_context_build cx services tc (Inr cfg0) from_block url dir node s = Some (t, Inr ctx)" "db_ok s"
    and "ve_engine env = cx_engine cx" "ve_registry env = cx_registry cx (ctx_abi_service ctx)"
  shows "engine_current env (supervisor_build ctx)"
  using startup_establishes [OF assms(1,2)] assms(3,4) manager_new_update
  by (auto simp: engine_current_def supervisor_build_def supervisor_new_def api_net_def)

definition supervisor_inv :: "'ast supervisor_env \<Rightarrow> 'ast supervisor \<Rightarrow> bool" where
  "supervisor_inv env su \<longleftrightarrow> su_seen su \<le> api_notified (su_api su) \<and>
     (change_pending su \<or> 0 < su_reload_errors su \<or> engine_current env su)"

lemma supervise_event_inv:
  assumes "supervise_event env ev su = Some su'" "supervisor_inv env su" "ae_receiver (ve_api env)"
  shows "supervisor_inv env su'"
proof (cases ev)
  case (Request header req)
  then obtain api r where s: "serve (ve_api env) header req (su_api su) = Some (api, r)" "su' = su\<lparr>su_api := api\<rparr>"
    using assms(1) by (auto simp: supervise_event_def split: if_splits)
  have "announced (su_api su) api" by (rule serve_announced [OF s(1) assms(3)])
  then show ?thesis using assms(2) engine_current_cong [of su' su env]
    by (auto simp: s(2) supervisor_inv_def announced_def change_pending_def)
next
  case ConfigurationChanged
  then have "reload_monitors env su = su'" using assms(1) by (auto simp: supervise_event_def split: if_splits)
  from reload_current [OF this] this show ?thesis using assms(2)
    by (auto simp: supervisor_inv_def reload_monitors_def Let_def split: prod.splits sum.splits)
qed (use assms engine_current_cong [of su' su env] in
    \<open>auto simp: supervise_event_def supervisor_inv_def change_pending_def split: if_splits\<close>)+

text \<open>C18. Configuration changes reach the engine: whatever requests the API serves and whatever the tasks do, when no notification is waiting
  and no reload has failed, the snapshot of the monitor manager is the one of the monitors that are in the store.\<close>

theorem configuration_reaches_engine:
  assumes "supervise env evs (supervisor_new api mg) = Some su" "engine_current env (supervisor_new api mg)"
    and "ae_receiver (ve_api env)" "su_seen su = api_notified (su_api su)" "su_reload_errors su = 0"
  shows "engine_current env su"
proof -
  have "supervisor_inv env su'" if "supervise env evs su = Some su'" "supervisor_inv env su" for su su'
    using that
  proof (induction evs arbitrary: su)
    case (Cons ev evs)
    then obtain su1 where "supervise_event env ev su = Some su1" "supervise env evs su1 = Some su'" by (auto split: bind_splits)
    then show ?case using Cons supervise_event_inv assms(3) by blast
  qed simp
  moreover have "supervisor_inv env (supervisor_new api mg)" using assms(2) by (simp add: supervisor_inv_def supervisor_new_def)
  ultimately have "supervisor_inv env su" using assms(1) by blast
  then show ?thesis using assms(4,5) by (simp add: supervisor_inv_def change_pending_def)
qed

section \<open>Nothing queued is lost in the shutdown\<close>

lemma shutdown_extends:
  assumes "db_ok (am_db am)"
  shows "set (outbox_abs env (am_db am)) \<subseteq> set (outbox_abs env (am_db (fst (dispatch_payloads_batch env ps (am\<lparr>am_aggregation_states := xs\<rparr>)))))"
    "set (outbox_abs env (am_db am)) \<subseteq> set (outbox_abs env (am_db (alert_shutdown env tc now am)))"
    "db_ok (am_db (alert_shutdown env tc now am))"
proof -
  show d: "set (outbox_abs env (am_db am)) \<subseteq> set (outbox_abs env (am_db (fst (dispatch_payloads_batch env ps (am\<lparr>am_aggregation_states := xs\<rparr>)))))" for ps xs
    by (rule dispatch_keeps [where P = "\<lambda>s. set (outbox_abs env (am_db am)) \<subseteq> set (outbox_abs env s)"]) (rule subset_trans [OF _ enqueue_extends], assumption, simp)
  show "set (outbox_abs env (am_db am)) \<subseteq> set (outbox_abs env (am_db (alert_shutdown env tc now am)))"
    using d by (simp add: alert_shutdown_def alert_flush_def check_and_dispatch_expired_windows_def Let_def sync_outbox)
  show "db_ok (am_db (alert_shutdown env tc now am))" using flush_db_ok [OF assms] by (simp add: alert_shutdown_def)
qed

lemma pragma_outbox: "execute_pragma s = (t, r) \<Longrightarrow> outbox_abs env t = outbox_abs env s"
  by (auto simp: execute_pragma_def modify_def exec_def Let_def outbox_abs_def split: if_splits option.splits)

lemma finish_outbox: "outbox_abs env (finish_store s) = outbox_abs env s"
  unfolding finish_store_def store_cleanup_def store_flush_def checkpoint_wal_def set_synchronous_mode_def fst_bindS bindS_def
  by (auto split: prod.splits sum.splits dest!: pragma_outbox [of _ _ _ env] dest: sym)
     (metis pragma_outbox prod.collapse)+

lemma cut_batch_core:
  assumes "cut_batch (outbox_processor_new env sv d order cfg) j m (w, s) = (w', t)"
  shows "map entry_core (outbox_abs env t) = map entry_core (outbox_abs env s)"
proof -
  let ?pr = "outbox_processor_new env sv d order cfg"
  obtain u q where q: "r_pending (sqlite_outbox env) (oc_batch_size cfg) s = (u, q)" by fastforce
  have u: "outbox_abs env u = outbox_abs env s" using sqlite.pending_keeps [OF q] by simp
  show ?thesis
  proof (cases q)
    case (Inr items)
    obtain v t' ids where h: "handle_results ?pr (take j (order w items)) (w, u) = ((v, t'), ids)" by (metis prod.collapse)
    have "t' = t" using assms q Inr h by (simp add: cut_batch_def Let_def)
    then show ?thesis using sqlite.handle_results_abs [OF h] u by simp
  qed (use assms q u in \<open>simp add: cut_batch_def\<close>)
qed

text \<open>The calls a cleanup makes, up to the cut.\<close>

definition cut_dispatches :: "('w, db) outbox_processor \<Rightarrow> nat \<Rightarrow> nat \<Rightarrow> 'w \<times> db \<Rightarrow> dispatch_call list" where
  "cut_dispatches pr j m ws =
     (case snd (r_pending (op_state pr) (oc_batch_size (op_config pr)) (snd ws)) of
        Inl e \<Rightarrow> []
      | Inr items \<Rightarrow> batch_dispatches pr (take (j + m) (op_completion pr (fst ws) items)) (fst ws))"

definition cleanup_dispatches ::
  "store_env \<Rightarrow> time_codec \<Rightarrow> timestamp \<Rightarrow> ('w, db) outbox_processor \<Rightarrow> cleanup_cut \<Rightarrow> alert_manager \<Rightarrow> 'w \<Rightarrow> dispatch_call list option" where
  "cleanup_dispatches env tc now pr stage am w =
     (let ws = (w, am_db (alert_shutdown env tc now am))
      in case stage of
           BeforeEnqueue \<Rightarrow> Some []
         | BeforeSync \<Rightarrow> Some []
         | InDrain k j m \<Rightarrow> Some (run_dispatches pr k ws @ cut_dispatches pr j m (outbox_run pr k ws))
         | AfterDrain \<Rightarrow> drain_dispatches pr ws
         | NotCut \<Rightarrow> drain_dispatches pr ws)"

lemma cut_batch_performs:
  assumes "cut_batch pr j m (w, s) = (w', t)"
  shows "performs (op_execute pr) w (cut_dispatches pr j m (w, s)) w'"
proof -
  obtain u q where q: "r_pending (op_state pr) (oc_batch_size (op_config pr)) s = (u, q)" by fastforce
  show ?thesis
  proof (cases q)
    case (Inr items)
    have "w' = fst (fst (handle_results pr (take (j + m) (op_completion pr w items)) (w, u)))"
      using assms q Inr by (simp add: cut_batch_def Let_def)
    then show ?thesis
      using handle_results_performs [of pr "(w, u)" "take (j + m) (op_completion pr w items)"] q Inr by (simp add: cut_dispatches_def)
  qed (use assms q in \<open>simp add: cut_batch_def cut_dispatches_def\<close>)
qed

text \<open>C11. The shutdown loses nothing that is queued, wherever the timeout cuts it: the calls it makes lead from the world at its start to
  the world at its end or cut, and an entry that was in the outbox when the tasks had ended is still there, or one of these calls, with
  the entry's id and payload, was accepted by the dispatcher.\<close>

theorem shutdown_keeps_or_delivers:
  assumes run: "supervisor_cleanup env tc now (outbox_processor_new env sv d order cfg) stage am w = Some (w', t)"
    and "db_ok (am_db am)" "permutes_batch order" "oc_batch_size cfg \<noteq> 0"
  shows "\<exists>cs. cleanup_dispatches env tc now (outbox_processor_new env sv d order cfg) stage am w = Some cs \<and>
    performs (dispatcher_execute sv d) w cs w' \<and>
    (\<forall>e \<in> set (outbox_abs env (am_db am)). entry_core e \<in> entry_core ` set (outbox_abs env t) \<or> accepted_in cs e)"
proof -
  let ?pr = "outbox_processor_new env sv d order cfg" and ?s = "am_db (alert_shutdown env tc now am)"
  let ?calls = "cleanup_dispatches env tc now ?pr stage am w"
  note ext = shutdown_extends [OF assms(2)]
  have ok: "outbox_ok ?s" using ext(3) [of env tc now] by (simp add: db_ok_def)
  have old: "set (outbox_abs env (am_db am)) \<subseteq> set (outbox_abs env ?s)" by (rule ext(2))
  have drained: ?thesis
    if "drain_queue ?pr (w, ?s) = Some ((w', u), r)" "outbox_abs env t = outbox_abs env u" "?calls = drain_dispatches ?pr (w, ?s)" for u r
    using sqlite.drain_no_loss [OF that(1) [unfolded drain_queue_def], of env] assms(3,4) ok old that(2,3) by auto
  show ?thesis
  proof (cases stage)
    case (InDrain k j m)
    obtain v u where r: "outbox_run ?pr k (w, ?s) = (v, u)" by fastforce
    then have cut: "cut_batch ?pr j m (v, u) = (w', t)" using run InDrain by (simp add: supervisor_cleanup_def Let_def)
    have core: "entry_core ` set (outbox_abs env t) = entry_core ` set (outbox_abs env u)"
      using cut_batch_core [OF cut] by (metis list.set_map)
    have no_loss: "performs (dispatcher_execute sv d) w (run_dispatches ?pr k (w, ?s)) v"
      "\<forall>e \<in> set (outbox_abs env ?s). entry_core e \<notin> entry_core ` set (outbox_abs env u) \<longrightarrow> accepted_in (run_dispatches ?pr k (w, ?s)) e"
      using sqlite.run_no_loss [OF r, of env] ok assms(3) by simp_all
    have "?calls = Some (run_dispatches ?pr k (w, ?s) @ cut_dispatches ?pr j m (v, u))"
      using InDrain r by (simp add: cleanup_dispatches_def Let_def)
    moreover have "performs (dispatcher_execute sv d) w (run_dispatches ?pr k (w, ?s) @ cut_dispatches ?pr j m (v, u)) w'"
      using performs_append [OF no_loss(1)] cut_batch_performs [OF cut] by simp
    ultimately show ?thesis using no_loss(2) old core by auto
  next
    case AfterDrain
    then show ?thesis using run drained by (auto simp: supervisor_cleanup_def cleanup_dispatches_def Let_def)
  next
    case NotCut
    then show ?thesis using run drained by (auto simp: supervisor_cleanup_def cleanup_dispatches_def Let_def finish_outbox)
  next
    case BeforeEnqueue
    then show ?thesis using run by (auto simp: supervisor_cleanup_def cleanup_dispatches_def Let_def)
  next
    case BeforeSync
    then show ?thesis
      using run ext(1) [of env "expired_payloads True now am" "expired_states True now am"]
      by (auto simp: supervisor_cleanup_def cleanup_dispatches_def Let_def)
  qed
qed

section \<open>Witnesses\<close>

definition sample_supervisor_env :: "string supervisor_env" where
  "sample_supervisor_env = \<lparr>ve_api = sample_api_env, ve_engine = sample_engine, ve_registry = sample_registry_env\<rparr>"

definition sample_supervisor :: "string supervisor" where
  "sample_supervisor = supervisor_new sample_api_state
     (monitor_manager_update sample_engine sample_registry_env [] (monitor_manager_new sample_engine sample_registry_env [] []))"

lemma sample_stop_run:
  "\<exists>su. supervise sample_supervisor_env [Request (Some ''Bearer wrong'') (DeleteAction 1), TaskEnded HttpServer, SignalReceived, CancellationSeen]
      sample_supervisor = Some su \<and> su_stopped su"
  using wrong_key_rejected
  by (simp add: sample_supervisor_def supervise_event_def supervisor_new_def spawned_tasks_def sample_supervisor_env_def)
     (simp add: sample_api_state_def)

theorem supervisor_stops_for_a_reason_witness:
  "\<exists>su. supervise sample_supervisor_env [Request (Some ''Bearer wrong'') (DeleteAction 1), TaskEnded HttpServer, SignalReceived, CancellationSeen]
      sample_supervisor = Some su \<and>
    SignalReceived \<in> set [Request (Some ''Bearer wrong'') (DeleteAction 1), TaskEnded HttpServer, SignalReceived, CancellationSeen]"
  using sample_stop_run supervisor_stops_for_a_reason unfolding sample_supervisor_def by fastforce

text \<open>A supervisor with one monitor, which a request deletes.\<close>

definition one_monitor_state :: "string api_state" where
  "one_monitor_state = sample_api_state\<lparr>api_db := empty_db\<lparr>db_monitors := [\<lparr>mr_monitor_id = 1, mr_name = ''m'', mr_network = ''mainnet'',
     mr_address = None, mr_abi_name = None, mr_filter_script = ''true'', mr_actions = actions_to_json [], mr_created_at = 0,
     mr_updated_at = 0, mr_status = Active\<rparr>]\<rparr>\<rparr>"

definition one_monitor_manager :: "string monitor_manager" where
  "one_monitor_manager = (case traverse monitor_of_row (db_monitors (api_db one_monitor_state)) of
     Inr ms \<Rightarrow> monitor_manager_update sample_engine sample_registry_env ms (monitor_manager_new sample_engine sample_registry_env [] []))"

lemma one_monitor_current: "engine_current sample_supervisor_env (supervisor_new one_monitor_state one_monitor_manager)"
  by (auto simp: engine_current_def supervisor_new_def one_monitor_manager_def one_monitor_state_def sample_api_state_def api_net_def
      sample_app_config_def monitor_of_row_def row_actions_def sample_supervisor_env_def)

lemma sample_delete:
  "\<exists>st. api_delete_monitor sample_api_env ''1'' one_monitor_state = (st, Inr (204, BStatusText ''Monitor deletion triggered'')) \<and>
     db_monitors (api_db st) = [] \<and> api_notified st = 1 \<and> api_config st = api_config one_monitor_state \<and> db_faults (api_db st) = (\<lambda>_. None)"
proof -
  have "okR (parse_i64 ''1'') = Some 1" by code_simp
  then have "monitor_key sample_env ''mainnet'' ''1'' (hd (db_monitors (api_db one_monitor_state)))"
    by (simp add: monitor_key_def sample_env_def one_monitor_state_def)
  then show ?thesis
    by (simp add: api_delete_monitor_def db_op_def delete_monitor_def or_not_found_def bindS_def exec_def one_monitor_state_def
      sample_api_state_def empty_db_def api_net_def sample_app_config_def sample_api_env_def notify_or_fail_def)
qed

lemma sample_reload_run:
  "\<exists>su. supervise sample_supervisor_env [Request (Some ''Bearer key'') (DeleteMonitor ''1''), ConfigurationChanged]
      (supervisor_new one_monitor_state one_monitor_manager) = Some su \<and> su_seen su = api_notified (su_api su) \<and> su_reload_errors su = 0 \<and>
      db_monitors (api_db (su_api su)) = []"
proof -
  obtain st where st: "api_delete_monitor sample_api_env ''1'' one_monitor_state = (st, Inr (204, BStatusText ''Monitor deletion triggered''))"
    "db_monitors (api_db st) = []" "api_notified st = 1" "api_config st = api_config one_monitor_state" "db_faults (api_db st) = (\<lambda>_. None)"
    using sample_delete by blast
  then have "serve sample_api_env (Some ''Bearer key'') (DeleteMonitor ''1'') one_monitor_state
      = Some (st, Inr (204, BStatusText ''Monitor deletion triggered''))"
    by (simp add: serve_def route_def needs_auth_def auth_def one_monitor_state_def sample_api_state_def)
  then show ?thesis using st(2-)
    by (simp add: supervise_event_def supervisor_new_def spawned_tasks_def sample_supervisor_env_def reload_monitors_def get_monitors_def
        select_def exec_def bindS_def one_monitor_state_def sample_api_state_def)
qed

theorem configuration_reaches_engine_witness:
  "\<exists>su. supervise sample_supervisor_env [Request (Some ''Bearer key'') (DeleteMonitor ''1''), ConfigurationChanged]
      (supervisor_new one_monitor_state one_monitor_manager) = Some su \<and> db_monitors (api_db (su_api su)) = [] \<and>
      engine_current sample_supervisor_env su"
proof -
  have "ae_receiver (ve_api sample_supervisor_env)" by (simp add: sample_supervisor_env_def sample_api_env_def)
  then show ?thesis using sample_reload_run configuration_reaches_engine [OF _ one_monitor_current] by blast
qed

lemma sample_cleanup:
  "\<exists>w' t. supervisor_cleanup sample_env hex_time 0 (outbox_processor_new sample_env log_services slack_dispatcher (\<lambda>_. rev) slack_config_1) NotCut
      ((Argus_Alerts.sample_manager digest_action)\<lparr>am_db := queued_db\<rparr>) [] = Some (w', t) \<and> outbox_abs sample_env t = []"
proof -
  let ?pr = "outbox_processor_new sample_env log_services slack_dispatcher (\<lambda>_. rev) slack_config_1"
  obtain w' t n where "drain_queue ?pr ([], queued_db) = Some ((w', t), Inr n)" "outbox_abs sample_env t = []"
    using sqlite.drain_delivers [of ?pr sample_env queued_db 0 "[]"] queued_db_ok slack_dispatcher_accepts
    by (auto simp: drain_queue_def permutes_batch_def slack_config_1_def queued_db_abs readable_def)
  moreover have "am_db (alert_shutdown sample_env hex_time 0 ((Argus_Alerts.sample_manager digest_action)\<lparr>am_db := queued_db\<rparr>)) = queued_db"
    by (simp add: alert_shutdown_def alert_flush_def check_and_dispatch_expired_windows_def Let_def expired_payloads_def expired_states_def
        Argus_Alerts.sample_manager_def dispatch_payloads_batch_def enqueue_outbox_batch_def sync_states_to_db_def put_states_def bindS_def
        retS_def map_filter_def)
  ultimately show ?thesis by (auto simp: supervisor_cleanup_def Let_def finish_outbox)
qed

lemma queued_db_db_ok: "db_ok queued_db"
  by (simp add: queued_db_def db_ok_defs empty_db_def)

theorem shutdown_keeps_or_delivers_witness:
  "\<exists>w' t cs. supervisor_cleanup sample_env hex_time 0 (outbox_processor_new sample_env log_services slack_dispatcher (\<lambda>_. rev) slack_config_1)
       NotCut ((Argus_Alerts.sample_manager digest_action)\<lparr>am_db := queued_db\<rparr>) [] = Some (w', t) \<and>
     performs (dispatcher_execute log_services slack_dispatcher) [] cs w' \<and> list_all (accepted_in cs) (outbox_abs sample_env queued_db)"
proof -
  obtain w' t where run: "supervisor_cleanup sample_env hex_time 0
      (outbox_processor_new sample_env log_services slack_dispatcher (\<lambda>_. rev) slack_config_1) NotCut
      ((Argus_Alerts.sample_manager digest_action)\<lparr>am_db := queued_db\<rparr>) [] = Some (w', t)" "outbox_abs sample_env t = []"
    using sample_cleanup by blast
  have "db_ok (am_db ((Argus_Alerts.sample_manager digest_action)\<lparr>am_db := queued_db\<rparr>))" by (simp add: queued_db_db_ok)
  from shutdown_keeps_or_delivers [OF run(1) this] run show ?thesis
    by (auto simp: permutes_batch_def slack_config_1_def list_all_iff)
qed

end
