(* ===== verification/Argus_Clients.thy ===== *)
theory Argus_Clients
  imports Argus_Dispatch Argus_Config
begin

text \<open>
  Connections of the dispatcher, \<open>crates/argus-dispatch/src/http_client\<close> and \<open>publisher\<close>: the pool of HTTP clients with its
  double-checked lock, and what the publishers hand to the broker libraries.

  A client is the record of its settings with a number for the shared allocation. The pool's read under the read lock and its
  check, build and insertion under the write lock contain no await after the lock is taken, so each is one atomic step;
  concurrent callers are an interleaving of these steps. Whether the library can build a client is chosen by the world; the retry library's check of
  the bounds (it panics when the first back-off exceeds the longest) is part of the library and is no outcome here.
\<close>

section \<open>Clients and the pool\<close>

record http_client =
  hc_allocation :: nat
  hc_jitter :: jitter_setting
  hc_base_for_backoff :: u32
  hc_retry_bounds :: "duration \<times> duration"
  hc_max_retries :: u32
  hc_max_idle_per_host :: nat
  hc_idle_timeout :: duration
  hc_connect_timeout :: duration

definition create_retryable_http_client :: "http_retry_config \<Rightarrow> base_http_client_config \<Rightarrow> nat \<Rightarrow> http_client" where
  "create_retryable_http_client config base allocation =
     \<lparr>hc_allocation = allocation, hc_jitter = hr_jitter config, hc_base_for_backoff = hr_base_for_backoff config,
      hc_retry_bounds = (hr_initial_backoff_ms config, hr_max_backoff_secs config), hc_max_retries = hr_max_retry config,
      hc_max_idle_per_host = bh_max_idle_per_host base, hc_idle_timeout = bh_idle_timeout base,
      hc_connect_timeout = bh_connect_timeout base\<rparr>"

record http_client_pool =
  pl_clients :: "(http_retry_config \<times> http_client) list"
  pl_base :: base_http_client_config
  pl_built :: nat

definition pool_new :: "base_http_client_config \<Rightarrow> http_client_pool" where
  "pool_new base = \<lparr>pl_clients = [], pl_base = base, pl_built = 0\<rparr>"

text \<open>The fast path under the read lock, and the slow path under the write lock.\<close>

definition pool_read :: "http_retry_config \<Rightarrow> http_client_pool \<Rightarrow> http_client option" where
  "pool_read policy pool = map_of (pl_clients pool) policy"

definition pool_write :: "http_retry_config \<Rightarrow> string + unit \<Rightarrow> http_client_pool \<Rightarrow> http_client_pool \<times> (string + http_client)" where
  "pool_write policy outcome pool =
     (case map_of (pl_clients pool) policy of
        Some c \<Rightarrow> (pool, Inr c)
      | None \<Rightarrow>
          (case outcome of
             Inl e \<Rightarrow> (pool, Inl e)
           | Inr _ \<Rightarrow>
               (let c = create_retryable_http_client policy (pl_base pool) (pl_built pool)
                in (pool\<lparr>pl_clients := AList.update policy c (pl_clients pool), pl_built := Suc (pl_built pool)\<rparr>, Inr c))))"

definition get_or_create :: "http_retry_config \<Rightarrow> string + unit \<Rightarrow> http_client_pool \<Rightarrow> http_client_pool \<times> (string + http_client)" where
  "get_or_create policy outcome pool =
     (case pool_read policy pool of Some c \<Rightarrow> (pool, Inr c) | None \<Rightarrow> pool_write policy outcome pool)"

section \<open>Concurrent callers\<close>

datatype pool_caller = Calling | WaitsForWrite | Returned "string + http_client"

record pool_system =
  sy_pool :: http_client_pool
  sy_callers :: "nat \<Rightarrow> pool_caller"

definition pool_start :: "base_http_client_config \<Rightarrow> pool_system" where
  "pool_start base = \<lparr>sy_pool = pool_new base, sy_callers = (\<lambda>_. Calling)\<rparr>"

inductive pool_step :: "(nat \<Rightarrow> http_retry_config) \<Rightarrow> pool_system \<Rightarrow> pool_system \<Rightarrow> bool" for policy where
  read_hit: "sy_callers sy i = Calling \<Longrightarrow> pool_read (policy i) (sy_pool sy) = Some c \<Longrightarrow>
     pool_step policy sy (sy\<lparr>sy_callers := (sy_callers sy)(i := Returned (Inr c))\<rparr>)"
| read_miss: "sy_callers sy i = Calling \<Longrightarrow> pool_read (policy i) (sy_pool sy) = None \<Longrightarrow>
     pool_step policy sy (sy\<lparr>sy_callers := (sy_callers sy)(i := WaitsForWrite)\<rparr>)"
| write_lock: "sy_callers sy i = WaitsForWrite \<Longrightarrow> pool_write (policy i) outcome (sy_pool sy) = (pool, r) \<Longrightarrow>
     pool_step policy sy (sy\<lparr>sy_pool := pool, sy_callers := (sy_callers sy)(i := Returned r)\<rparr>)"

inductive_cases pool_step_elim: "pool_step policy sy sy'"

definition pool_ok :: "http_client_pool \<Rightarrow> bool" where
  "pool_ok pool \<longleftrightarrow> distinct (map fst (pl_clients pool)) \<and> pl_built pool = length (pl_clients pool) \<and>
     (\<forall>p c. map_of (pl_clients pool) p = Some c \<longrightarrow>
        hc_allocation c < pl_built pool \<and> c = create_retryable_http_client p (pl_base pool) (hc_allocation c)) \<and>
     (\<forall>p q c d. map_of (pl_clients pool) p = Some c \<longrightarrow> map_of (pl_clients pool) q = Some d \<longrightarrow>
        hc_allocation c = hc_allocation d \<longrightarrow> p = q)"

definition system_ok :: "(nat \<Rightarrow> http_retry_config) \<Rightarrow> pool_system \<Rightarrow> bool" where
  "system_ok policy sy \<longleftrightarrow> pool_ok (sy_pool sy) \<and>
     (\<forall>i c. sy_callers sy i = Returned (Inr c) \<longrightarrow> map_of (pl_clients (sy_pool sy)) (policy i) = Some c)"

lemma allocation_of_new [simp]: "hc_allocation (create_retryable_http_client p b n) = n"
  by (simp add: create_retryable_http_client_def)

lemma length_update_new: "map_of m k = None \<Longrightarrow> length (AList.update k v m) = Suc (length m)"
  by (induction m) (auto split: if_splits)

lemma pool_write_ok:
  assumes "pool_ok pool" "pool_write p outcome pool = (pool', r)"
  shows "pool_ok pool'" "\<And>q c. map_of (pl_clients pool) q = Some c \<Longrightarrow> map_of (pl_clients pool') q = Some c"
    "\<And>c. r = Inr c \<Longrightarrow> map_of (pl_clients pool') p = Some c"
proof -
  have new: "pool_ok (pool\<lparr>pl_clients := AList.update p (create_retryable_http_client p (pl_base pool) (pl_built pool)) (pl_clients pool),
      pl_built := Suc (pl_built pool)\<rparr>)" if "map_of (pl_clients pool) p = None"
    using assms(1) that length_update_new [OF that]
    unfolding pool_ok_def by (auto simp: update_conv' distinct_update less_Suc_eq) (metis nat_neq_iff)+
  show "pool_ok pool'" using assms new by (auto simp: pool_write_def Let_def split: option.splits sum.splits)
  show "\<And>q c. map_of (pl_clients pool) q = Some c \<Longrightarrow> map_of (pl_clients pool') q = Some c"
    "\<And>c. r = Inr c \<Longrightarrow> map_of (pl_clients pool') p = Some c"
    using assms(2) by (auto simp: pool_write_def Let_def update_conv' split: option.splits sum.splits)
qed

lemma pool_step_ok:
  assumes "pool_step policy sy sy'" "system_ok policy sy"
  shows "system_ok policy sy'"
  using assms
proof cases
  case (write_lock i outcome pool r)
  note w = pool_write_ok [OF _ write_lock(3)]
  show ?thesis using assms(2) w unfolding system_ok_def write_lock(1) by auto
qed (auto simp: system_ok_def pool_read_def)

lemma pool_steps_ok: "(pool_step policy)\<^sup>*\<^sup>* (pool_start base) sy \<Longrightarrow> system_ok policy sy"
proof (induction rule: rtranclp_induct)
  case base
  show ?case by (simp add: system_ok_def pool_start_def pool_new_def pool_ok_def)
qed (rule pool_step_ok)

text \<open>C40. One client per retry policy: however any number of callers interleave and whichever builds fail, two callers that get a client
  share it exactly when their policies agree, it has the settings of that policy, and no client was built that the pool does not hold.\<close>

theorem one_client_per_policy:
  assumes "(pool_step policy)\<^sup>*\<^sup>* (pool_start base) sy" "sy_callers sy i = Returned (Inr c)" "sy_callers sy j = Returned (Inr d)"
  shows "(hc_allocation c = hc_allocation d) = (policy i = policy j) \<and> hc_max_retries c = hr_max_retry (policy i) \<and>
    pl_built (sy_pool sy) = length (pl_clients (sy_pool sy))"
proof -
  have ok: "pool_ok (sy_pool sy)" and c: "map_of (pl_clients (sy_pool sy)) (policy i) = Some c"
    and d: "map_of (pl_clients (sy_pool sy)) (policy j) = Some d"
    using pool_steps_ok [OF assms(1)] assms(2,3) by (auto simp: system_ok_def)
  have "hc_max_retries c = hr_max_retry (policy i)"
    using ok c unfolding pool_ok_def create_retryable_http_client_def by (metis http_client.select_convs(5))
  moreover have "c = d" if "policy i = policy j" using that c d by simp
  moreover have "policy i = policy j" if "hc_allocation c = hc_allocation d" using that ok c d unfolding pool_ok_def by blast
  ultimately show ?thesis using ok unfolding pool_ok_def by blast
qed

text \<open>No caller is stuck.\<close>

lemma waiting_caller_steps: "sy_callers sy i \<in> {Calling, WaitsForWrite} \<Longrightarrow> \<exists>sy'. pool_step policy sy sy' \<and> sy_callers sy' i \<noteq> sy_callers sy i"
proof -
  assume i: "sy_callers sy i \<in> {Calling, WaitsForWrite}"
  obtain pool r where w: "pool_write (policy i) (Inr ()) (sy_pool sy) = (pool, r)" by fastforce
  show ?thesis
  proof (cases "sy_callers sy i = Calling")
    case True
    then show ?thesis
      by (cases "pool_read (policy i) (sy_pool sy)") (fastforce intro: pool_step.read_miss pool_step.read_hit)+
  next
    case False
    then have "pool_step policy sy (sy\<lparr>sy_pool := pool, sy_callers := (sy_callers sy)(i := Returned r)\<rparr>)"
      using i w by (intro pool_step.write_lock) simp_all
    then show ?thesis using i by fastforce
  qed
qed

section \<open>Publishers\<close>

definition ends_with :: "string \<Rightarrow> string \<Rightarrow> bool" where
  "ends_with s suffix = starts_with (rev s) (rev suffix)"

text \<open>The settings of the Kafka producer; \<open>set\<close> replaces an earlier value of the key.\<close>

definition set_config :: "string \<Rightarrow> string \<Rightarrow> (string \<times> string) list \<Rightarrow> (string \<times> string) list" where
  "set_config key v = AList.update key v"

definition set_optional :: "string \<Rightarrow> string option \<Rightarrow> (string \<times> string) list \<Rightarrow> (string \<times> string) list" where
  "set_optional key v config = (case v of Some x \<Rightarrow> set_config key x config | None \<Rightarrow> config)"

definition kafka_client_config :: "kafka_config \<Rightarrow> (string \<times> string) list" where
  "kafka_client_config c =
     (let security = ka_security c; producer = ka_producer c; protocol = ks_protocol security;
          c1 = set_config ''security.protocol'' protocol (set_config ''bootstrap.servers'' (ka_brokers c) []);
          c2 = (if starts_with protocol ''SASL'' then
                  set_optional ''sasl.password'' (ks_sasl_password security)
                    (set_optional ''sasl.username'' (ks_sasl_username security)
                      (set_optional ''sasl.mechanism'' (ks_sasl_mechanism security) c1)) else c1);
          c3 = (if ends_with protocol ''SSL'' then set_optional ''ssl.ca.location'' (ks_ssl_ca_location security) c2 else c2)
      in set_config ''compression.codec'' (kp_compression_codec producer)
           (set_config ''message.timeout.ms'' (show_nat (unat (kp_message_timeout_ms producer)))
             (set_config ''acks'' (kp_acks producer) c3)))"

lemma lookup_set [simp]:
  "map_of (set_config key v m) x = (if x = key then Some v else map_of m x)"
  "map_of (set_optional key w m) x = (if x = key \<and> w \<noteq> None then w else map_of m x)"
  by (auto simp: set_config_def set_optional_def update_conv' split: option.splits)

text \<open>Every setting is that of the configuration, and credentials are only handed over for the protocols that use them.\<close>

lemma kafka_settings:
  "map_of (kafka_client_config c) ''bootstrap.servers'' = Some (ka_brokers c)"
  "map_of (kafka_client_config c) ''acks'' = Some (kp_acks (ka_producer c))"
  "map_of (kafka_client_config c) ''sasl.password'' =
     (if starts_with (ks_protocol (ka_security c)) ''SASL'' then ks_sasl_password (ka_security c) else None)"
  "map_of (kafka_client_config c) ''ssl.ca.location'' =
     (if ends_with (ks_protocol (ka_security c)) ''SSL'' then ks_ssl_ca_location (ka_security c) else None)"
  by (simp_all add: kafka_client_config_def Let_def)

text \<open>The kind of the RabbitMQ exchange. Lower-casing is that of ASCII letters: no other letter has one of these names as its lower case.\<close>

datatype exchange_kind = Topic | Fanout | Headers | Direct

definition rabbitmq_exchange_kind :: "rabbitmq_config \<Rightarrow> exchange_kind" where
  "rabbitmq_exchange_kind c =
     (let et = map to_ascii_lowercase (rq_exchange_type c)
      in if et = ''topic'' then Topic else if et = ''fanout'' then Fanout else if et = ''headers'' then Headers else Direct)"

datatype nats_options = WithToken string | WithCredentialsFile string | Anonymous

definition nats_connect_options :: "nats_config \<Rightarrow> nats_options" where
  "nats_connect_options c =
     (case na_credentials c of
        None \<Rightarrow> Anonymous
      | Some creds \<Rightarrow>
          (case nc_token creds of
             Some t \<Rightarrow> WithToken t
           | None \<Rightarrow> (case nc_file creds of Some f \<Rightarrow> WithCredentialsFile f | None \<Rightarrow> Anonymous)))"

section \<open>Witness\<close>

definition sample_policy :: http_retry_config where
  "sample_policy = \<lparr>hr_max_retry = 3, hr_base_for_backoff = 2, hr_initial_backoff_ms = 250, hr_max_backoff_secs = 10, hr_jitter = JitterNone\<rparr>"

text \<open>Both callers miss before either takes the write lock.\<close>

definition raced_system :: pool_system where
  "raced_system =
     (let c = create_retryable_http_client sample_policy default_base_http_client_config 0
      in \<lparr>sy_pool = \<lparr>pl_clients = [(sample_policy, c)], pl_base = default_base_http_client_config, pl_built = 1\<rparr>,
          sy_callers = (\<lambda>_. Calling)(0 := Returned (Inr c), 1 := Returned (Inr c))\<rparr>)"

lemma write_lock_fields:
  "callers i = WaitsForWrite \<Longrightarrow> pool_write (policy i) outcome pool = (pool', r) \<Longrightarrow>
   pool_step policy \<lparr>sy_pool = pool, sy_callers = callers\<rparr> \<lparr>sy_pool = pool', sy_callers = callers(i := Returned r)\<rparr>"
  using write_lock [of "\<lparr>sy_pool = pool, sy_callers = callers\<rparr>"] by simp

lemma four_steps: "r a b \<Longrightarrow> r b c \<Longrightarrow> r c d \<Longrightarrow> r d e \<Longrightarrow> r\<^sup>*\<^sup>* a e"
  by (meson converse_rtranclp_into_rtranclp r_into_rtranclp)

lemma raced_reachable: "(pool_step (\<lambda>_. sample_policy))\<^sup>*\<^sup>* (pool_start default_base_http_client_config) raced_system"
proof -
  let ?step = "pool_step (\<lambda>_. sample_policy)" and ?base = default_base_http_client_config
  let ?c = "create_retryable_http_client sample_policy ?base 0"
  let ?pool = "\<lparr>pl_clients = [(sample_policy, ?c)], pl_base = ?base, pl_built = 1\<rparr>"
  let ?sys = "\<lambda>pool callers. \<lparr>sy_pool = pool, sy_callers = callers\<rparr>"
  have w: "pool_write sample_policy (Inr ()) (pool_new ?base) = (?pool, Inr ?c)" "pool_write sample_policy (Inr ()) ?pool = (?pool, Inr ?c)"
    "pool_read sample_policy (pool_new ?base) = None"
    by (simp_all add: pool_write_def pool_read_def pool_new_def Let_def)
  have 1: "?step (?sys (pool_new ?base) (\<lambda>_. Calling)) (?sys (pool_new ?base) ((\<lambda>_. Calling)(0 := WaitsForWrite)))"
    using read_miss [of "?sys (pool_new ?base) (\<lambda>_. Calling)" 0 "\<lambda>_. sample_policy"] w by simp
  have 2: "?step (?sys (pool_new ?base) ((\<lambda>_. Calling)(0 := WaitsForWrite)))
      (?sys (pool_new ?base) ((\<lambda>_. Calling)(0 := WaitsForWrite, 1 := WaitsForWrite)))"
    using read_miss [of "?sys (pool_new ?base) ((\<lambda>_. Calling)(0 := WaitsForWrite))" 1 "\<lambda>_. sample_policy"] w by simp
  have 3: "?step (?sys (pool_new ?base) ((\<lambda>_. Calling)(0 := WaitsForWrite, 1 := WaitsForWrite)))
      (?sys ?pool ((\<lambda>_. Calling)(0 := Returned (Inr ?c), 1 := WaitsForWrite)))"
    using write_lock_fields [of "(\<lambda>_. Calling)(0 := WaitsForWrite, 1 := WaitsForWrite)" 0 "\<lambda>_. sample_policy", OF _ w(1)]
    by (simp add: fun_upd_twist)
  have 4: "?step (?sys ?pool ((\<lambda>_. Calling)(0 := Returned (Inr ?c), 1 := WaitsForWrite))) raced_system"
    using write_lock_fields [of "(\<lambda>_. Calling)(0 := Returned (Inr ?c), 1 := WaitsForWrite)" 1 "\<lambda>_. sample_policy", OF _ w(2)]
    by (simp add: raced_system_def Let_def)
  show ?thesis unfolding pool_start_def using 1 2 3 4 by (rule four_steps)
qed

theorem one_client_per_policy_witness:
  "\<exists>c d. sy_callers raced_system 0 = Returned (Inr c) \<and> sy_callers raced_system 1 = Returned (Inr d) \<and> hc_allocation c = hc_allocation d"
proof -
  obtain c where "sy_callers raced_system 0 = Returned (Inr c)" "sy_callers raced_system 1 = Returned (Inr c)"
    by (simp add: raced_system_def Let_def)
  then show ?thesis using one_client_per_policy [OF raced_reachable, of 0 c 1 c] by auto
qed

end
