(* ===== verification/Argus_Template.thy ===== *)
theory Argus_Template
  imports Argus_Prelude
begin

text \<open>
  The template filters, \<open>crates/argus-dispatch/src/template\<close>. The decimal type of the library is a parameter, the record
  \<open>decimal_lib\<close>: its parser may refuse a text, and its addition, division and power panic when the result does not fit, the value
  \<open>None\<close>. A filter returns \<open>None\<close> for a panic, else an error or a text. A template value is a sequence, given by the texts of its
  elements, or something else.
\<close>

record 'd decimal_lib =
  dl_zero :: 'd
  dl_from_str :: "string \<Rightarrow> string + 'd"
  dl_from_nat :: "nat \<Rightarrow> 'd"
  dl_add :: "'d \<Rightarrow> 'd \<Rightarrow> 'd option"
  dl_div :: "'d \<Rightarrow> 'd \<Rightarrow> 'd option"
  dl_powi :: "'d \<Rightarrow> nat \<Rightarrow> 'd option"
  dl_normalize :: "'d \<Rightarrow> 'd"
  dl_to_string :: "'d \<Rightarrow> string"

datatype filter_value = SeqValue "string list" | OtherValue

section \<open>Sums and averages\<close>

text \<open>The loop of both filters: the running total, or the error of the first text that does not parse.\<close>

fun add_values :: "'d decimal_lib \<Rightarrow> string \<Rightarrow> string list \<Rightarrow> 'd \<Rightarrow> (string + 'd) option" where
  "add_values lib msg [] acc = Some (Inr acc)"
| "add_values lib msg (s # ss) acc =
     (case dl_from_str lib s of
        Inl e \<Rightarrow> Some (Inl (msg @ s @ '' ('' @ e @ '')''))
      | Inr num \<Rightarrow> Option.bind (dl_add lib acc num) (add_values lib msg ss))"

definition sum_filter :: "'d decimal_lib \<Rightarrow> filter_value \<Rightarrow> (string + string) option" where
  "sum_filter lib v =
     (case v of
        OtherValue \<Rightarrow> Some (Inl ''sum filter can only be applied to a sequence.'')
      | SeqValue ss \<Rightarrow> map_option (mapR (dl_to_string lib)) (add_values lib ''Failed to parse value for sum: '' ss (dl_zero lib)))"

definition avg_filter :: "'d decimal_lib \<Rightarrow> filter_value \<Rightarrow> (string + string) option" where
  "avg_filter lib v =
     (case v of
        OtherValue \<Rightarrow> Some (Inl ''avg filter can only be applied to a sequence.'')
      | SeqValue ss \<Rightarrow>
          Option.bind (add_values lib ''Failed to parse value for avg: '' ss (dl_zero lib)) (\<lambda>r.
            case r of
              Inl e \<Rightarrow> Some (Inl e)
            | Inr acc \<Rightarrow>
                if length ss = 0 then Some (Inr (dl_to_string lib (dl_zero lib)))
                else map_option (\<lambda>q. Inr (dl_to_string lib q)) (dl_div lib acc (dl_from_nat lib (length ss)))))"

section \<open>Scaling\<close>

definition scale_by_decimals :: "'d decimal_lib \<Rightarrow> 'd \<Rightarrow> nat \<Rightarrow> string option" where
  "scale_by_decimals lib amount decimals =
     Option.bind (dl_powi lib (dl_from_nat lib 10) decimals) (\<lambda>factor.
       map_option (\<lambda>q. dl_to_string lib (dl_normalize lib q)) (dl_div lib amount factor))"

definition parse_amount :: "'d decimal_lib \<Rightarrow> string \<Rightarrow> string + 'd" where
  "parse_amount lib s = map_err (\<lambda>e. ''Failed to parse amount: '' @ e) (dl_from_str lib s)"

definition decimals_filter :: "'d decimal_lib \<Rightarrow> string \<Rightarrow> nat \<Rightarrow> (string + string) option" where
  "decimals_filter lib s decimals =
     (case parse_amount lib s of Inl e \<Rightarrow> Some (Inl e) | Inr amount \<Rightarrow> map_option Inr (scale_by_decimals lib amount decimals))"

definition ether_filter :: "'d decimal_lib \<Rightarrow> string \<Rightarrow> (string + string) option" where
  "ether_filter lib s =
     (case parse_amount lib s of Inl e \<Rightarrow> Some (Inl e) | Inr amount \<Rightarrow> map_option Inr (scale_by_decimals lib amount 18))"

definition gwei_filter :: "'d decimal_lib \<Rightarrow> string \<Rightarrow> (string + string) option" where
  "gwei_filter lib s =
     (case parse_amount lib s of Inl e \<Rightarrow> Some (Inl e) | Inr amount \<Rightarrow> map_option Inr (scale_by_decimals lib amount 9))"

definition usdc_filter :: "'d decimal_lib \<Rightarrow> string \<Rightarrow> (string + string) option" where
  "usdc_filter lib s =
     (case parse_amount lib s of Inl e \<Rightarrow> Some (Inl e) | Inr amount \<Rightarrow> map_option Inr (scale_by_decimals lib amount 6))"

definition usdt_filter :: "'d decimal_lib \<Rightarrow> string \<Rightarrow> (string + string) option" where
  "usdt_filter lib s =
     (case parse_amount lib s of Inl e \<Rightarrow> Some (Inl e) | Inr amount \<Rightarrow> map_option Inr (scale_by_decimals lib amount 6))"

definition wbtc_filter :: "'d decimal_lib \<Rightarrow> string \<Rightarrow> (string + string) option" where
  "wbtc_filter lib s =
     (case parse_amount lib s of Inl e \<Rightarrow> Some (Inl e) | Inr amount \<Rightarrow> map_option Inr (scale_by_decimals lib amount 8))"

section \<open>The service's table of filters\<close>

datatype template_filter = OnValue "filter_value \<Rightarrow> (string + string) option" | OnText "string \<Rightarrow> (string + string) option"
  | OnTextAndNumber "string \<Rightarrow> nat \<Rightarrow> (string + string) option"

definition template_filters :: "'d decimal_lib \<Rightarrow> (string \<times> template_filter) list" where
  "template_filters lib =
     [(''sum'', OnValue (sum_filter lib)), (''avg'', OnValue (avg_filter lib)), (''decimals'', OnTextAndNumber (decimals_filter lib)),
      (''ether'', OnText (ether_filter lib)), (''gwei'', OnText (gwei_filter lib)), (''usdc'', OnText (usdc_filter lib)),
      (''usdt'', OnText (usdt_filter lib)), (''wbtc'', OnText (wbtc_filter lib))]"

section \<open>What the filters compute\<close>

text \<open>The token filters are \<open>decimals\<close> at a fixed number.\<close>

lemma token_filters:
  "ether_filter lib s = decimals_filter lib s 18" "gwei_filter lib s = decimals_filter lib s 9" "usdc_filter lib s = decimals_filter lib s 6"
  "usdt_filter lib s = decimals_filter lib s 6" "wbtc_filter lib s = decimals_filter lib s 8"
  by (simp_all add: ether_filter_def gwei_filter_def usdc_filter_def usdt_filter_def wbtc_filter_def decimals_filter_def)

text \<open>In a library whose addition is exact in range, read by \<open>val\<close>, the total is the sum of the values and the loop only panics out of range.\<close>

definition exact_addition :: "'d decimal_lib \<Rightarrow> ('d \<Rightarrow> int) \<Rightarrow> int \<Rightarrow> bool" where
  "exact_addition lib val bound \<longleftrightarrow> val (dl_zero lib) = 0 \<and>
     (\<forall>a b. case dl_add lib a b of Some c \<Rightarrow> val c = val a + val b \<and> \<bar>val c\<bar> \<le> bound | None \<Rightarrow> bound < \<bar>val a + val b\<bar>)"

lemma exact_add:
  assumes "exact_addition lib val bound"
  shows "case dl_add lib a b of Some c \<Rightarrow> val c = val a + val b \<and> \<bar>val c\<bar> \<le> bound | None \<Rightarrow> bound < \<bar>val a + val b\<bar>"
  using assms unfolding exact_addition_def by blast

lemma add_values_total:
  assumes "exact_addition lib val bound" "\<forall>s \<in> set ss. \<exists>d. dl_from_str lib s = Inr d"
    and "add_values lib msg ss acc = Some r"
  shows "\<exists>t. r = Inr t \<and> val t = val acc + sum_list (map (\<lambda>s. val (projr (dl_from_str lib s))) ss)"
  using assms(2,3)
proof (induction ss arbitrary: acc)
  case (Cons s ss)
  then obtain d c where d: "dl_from_str lib s = Inr d" "dl_add lib acc d = Some c" "add_values lib msg ss c = Some r"
    by (auto split: bind_splits)
  have "val c = val acc + val d" using exact_add [OF assms(1), of acc d] d(2) by simp
  then show ?case using Cons.IH [of c] Cons.prems(1) d by auto
qed auto

lemma add_values_in_range:
  assumes "exact_addition lib val bound" "\<forall>s \<in> set ss. \<exists>d. dl_from_str lib s = Inr d \<and> 0 \<le> val d" "0 \<le> val acc"
    and "val acc + sum_list (map (\<lambda>s. val (projr (dl_from_str lib s))) ss) \<le> bound"
  shows "add_values lib msg ss acc \<noteq> None"
  using assms(2-4)
proof (induction ss arbitrary: acc)
  case (Cons s ss)
  obtain d where d: "dl_from_str lib s = Inr d" "0 \<le> val d" using Cons.prems(1) by auto
  have rest: "0 \<le> sum_list (map (\<lambda>s. val (projr (dl_from_str lib s))) ss)"
    using Cons.prems(1) by (intro sum_list_nonneg) auto
  then have "\<bar>val acc + val d\<bar> \<le> bound" using Cons.prems(2,3) d by simp
  then obtain c where c: "dl_add lib acc d = Some c" "val c = val acc + val d"
    using exact_add [OF assms(1), of acc d] by (cases "dl_add lib acc d") auto
  then show ?case using Cons.IH [of c] Cons.prems d by auto
qed simp

text \<open>The first text that does not parse decides, whatever follows it; an empty sequence has sum and average zero and is not divided.\<close>

lemma add_values_error:
  "dl_from_str lib s = Inl e \<Longrightarrow> add_values lib msg (s # ss) acc = Some (Inl (msg @ s @ '' ('' @ e @ '')''))"
  by simp

lemma empty_sequence:
  "sum_filter lib (SeqValue []) = Some (Inr (dl_to_string lib (dl_zero lib)))"
  "avg_filter lib (SeqValue []) = Some (Inr (dl_to_string lib (dl_zero lib)))"
  by (simp_all add: sum_filter_def avg_filter_def)

text \<open>A sum whose total leaves the range of the type panics, although every element parses.\<close>

lemma sum_panics:
  assumes "exact_addition lib val bound" "dl_from_str lib s = Inr a" "dl_from_str lib t = Inr b" "bound < \<bar>val a + val b\<bar>" "\<bar>val a\<bar> \<le> bound"
  shows "sum_filter lib (SeqValue [s, t]) = None"
proof -
  have z: "val (dl_zero lib) = 0" using assms(1) by (simp add: exact_addition_def)
  obtain c where c: "dl_add lib (dl_zero lib) a = Some c" "val c = val a"
    using exact_add [OF assms(1), of "dl_zero lib" a] assms(5) z by (cases "dl_add lib (dl_zero lib) a") auto
  then have "dl_add lib c b = None"
    using exact_add [OF assms(1), of c b] assms(4) by (cases "dl_add lib c b") auto
  then show ?thesis using c assms(2,3) by (simp add: sum_filter_def)
qed

end
