(* ===== verification/Spec2Isabelle.thy ===== *)
theory Spec2Isabelle
  imports Argus_Prelude Argus_Models Argus_Store Argus_Dispatch Argus_Outbox Argus_Alerts Argus_Abi Argus_Rhai
    Argus_Monitor Argus_Filtering Argus_Provider Argus_Config Argus_Ingest Argus_Processor Argus_Validator Argus_Context Argus_Api
    Argus_AlertTasks Argus_Service Argus_Startup Argus_DryRun Argus_Supervisor Argus_Clients Argus_Template
begin

text \<open>
  A verification development for Argus, a service that watches an EVM chain, runs user-written filter scripts over its
  transactions and logs, and delivers the matches to webhooks, message brokers and standard output.

  \<^bold>\<open>The program and its pipeline.\<close> The supervisor starts one task per stage. The block ingestor asks the node for the confirmed
  blocks after the last processed one; the provider layer decides with bloom filters and topic filters which logs it requests; the
  block processor groups logs and receipts by transaction, hands the result to the filtering engine and persists the progress; the
  engine evaluates the monitors and builds matches; the alert manager applies throttling and aggregation and enqueues payloads in
  the outbox table; the outbox processor dispatches them and removes what was accepted. Monitors, actions and ABIs are stored in
  SQLite, come from files at start-up and are changed by the HTTP API, whose changes reach the engine through a watch channel.

  \<^bold>\<open>Theories and sources.\<close> Definitions keep the names of the functions they translate.

    \<^item> \<open>Argus_Prelude\<close>: integers, result type and the string and collection operations of the standard library that the code calls, the
      state-and-error type \<open>op\<close> of an async method, and the generic lemmas.
    \<^item> \<open>Argus_Models\<close> (\<open>argus-core/src/models\<close>, \<open>argus-core/src/action_dispatcher\<close>): JSON, blocks, monitors, matches and their builder,
      action configurations, payloads and their idempotency key. Lemmas: identity of matches, JSON round trip of payloads, what the key depends on.
    \<^item> \<open>Argus_Store\<close> (\<open>argus-store/src\<close>): the tables as a record of lists, one definition per repository method, transactions with rollback,
      an oracle that may refuse any statement. Lemmas: the table invariant, the contract of the outbox as locale \<open>outbox_queue\<close>,
      atomicity, idempotence, the guard queries.
    \<^item> \<open>Argus_Dispatch\<close> (\<open>argus-dispatch/src\<close>): how configurations become actions and what each action sends.
    \<^item> \<open>Argus_Clients\<close>, \<open>Argus_Template\<close> (\<open>argus-dispatch/src/http_client\<close>, \<open>publisher\<close>, \<open>template\<close>): the client pool as interleaved steps, the settings
      handed to the brokers, the template filters over a decimal library.
    \<^item> \<open>Argus_Outbox\<close>, \<open>Argus_Alerts\<close> (\<open>argus-engine/src/outbox_processor.rs\<close>, \<open>alert_manager.rs\<close>): at-least-once delivery under faults
      and any completion order over the list of dispatcher calls a run makes, termination of the drain, the throttle bound, the windows, saving and restoring the state.
    \<^item> \<open>Argus_AlertTasks\<close> (\<open>argus-engine/src/alert_manager.rs\<close>, \<open>src/src/supervisor/mod.rs\<close>): the tasks that share an alert manager, as a step relation with
      one step per critical section, store transaction or lock operation, action locks, clock readings, the outbox processor and aborts. Lemmas:
      the locks exclude and cannot deadlock, the throttle bound and the conservation of matches hold for every interleaving, and a processing task
      that runs alone ends exactly where the sequential \<open>process_matches_batch\<close> of \<open>Argus_Alerts\<close> does. Ghost lists record the payloads handed
      to the outbox and the verdicts of the throttle; no step reads them.
    \<^item> \<open>Argus_Service\<close> (\<open>src/src/supervisor/mod.rs\<close>): ingestor, processor, engine and alert tasks with their channels over one database. Lemma: every
      persisted block was sent, the engine evaluates a prefix of the sent blocks, and every match it found is on its way, at hand with the alert tasks, or
      handed over and queued (\<open>service_loses_no_match\<close>). A ghost list records the ingested block data.
    \<^item> \<open>Argus_Abi\<close>, \<open>Argus_Rhai\<close> (\<open>argus-abi/src\<close>, \<open>argus-rhai/src\<close>): ABI index and decoding, script analysis cache, script values, script validation.
    \<^item> \<open>Argus_Monitor\<close> (\<open>argus-monitor/src/manager.rs\<close>, \<open>interest_registry.rs\<close>): classification, the snapshot and the interest registry.
    \<^item> \<open>Argus_Filtering\<close> (\<open>argus-engine/src/filtering.rs\<close>): both evaluation passes with their caches and scopes, and the cache-free specification they refine.
    \<^item> \<open>Argus_Provider\<close> (\<open>argus-providers/src\<close>): the node as a record, bloom and topic filters, concurrent range fetching.
    \<^item> \<open>Argus_Config\<close> (\<open>argus-core/src/config\<close>): the configuration with its defaults and deserialisers.
    \<^item> \<open>Argus_Ingest\<close>, \<open>Argus_Processor\<close> (\<open>argus-engine/src/block_ingestor.rs\<close>, \<open>polling.rs\<close>, \<open>block_processor.rs\<close>): cycles, chunks, polling; correlation, batches,
      progress. Lemmas: no gaps, the head is reached, what is persisted was handed on.
    \<^item> \<open>Argus_Validator\<close> (\<open>argus-monitor/src/validator.rs\<close>, \<open>persistence_validator.rs\<close>, \<open>argus-api/src/action/validator.rs\<close>): the rules in their order.
    \<^item> \<open>Argus_Context\<close>, \<open>Argus_Startup\<close> (\<open>src/src/context\<close>, \<open>src/src/loader\<close>): the loaders, and the whole of \<open>AppContextBuilder::build\<close>.
    \<^item> \<open>Argus_Api\<close> (\<open>argus-api/src/http_server\<close>): handlers, authentication, routing.
    \<^item> \<open>Argus_DryRun\<close> (\<open>src/src/cmd/dry_run.rs\<close>): the one-shot run, which composes provider, processor, engine, alert manager and outbox.
    \<^item> \<open>Argus_Supervisor\<close> (\<open>src/src/supervisor\<close>): tasks, select loop, reload and cleanup, composed with the API, the alert manager and the outbox.

  \<^bold>\<open>Locales.\<close> \<open>outbox_queue\<close> is the contract between repository and outbox processor, interpreted by the SQLite model; \<open>db_predicate\<close> is
  the shape of invariants that statements keep, interpreted by the table invariants. Each theory interprets its locales on the model.

  \<^bold>\<open>Effects and errors.\<close> Asynchronous methods are functions from state to state and result; errors are the constructors of
  the source's error enums, with texts the code writes and without the rendered cause. Tasks interleave as explicit lists of steps or events.
  Futures completed in any order enter as an arbitrary permutation.

  \<^bold>\<open>Loops, bounds and overflow.\<close> Loops over data are recursive. A loop that may run for ever is a \<open>partial_function (option)\<close>: the drain of the
  outbox, an ingestion cycle, the dry run; for these, returning is proved (\<open>drain_queue_empties\<close>, \<open>cycle_reaches_head\<close>, \<open>dry_run_exact\<close>), and safety is
  proved whatever they do. Service loops that run until cancelled take the number or list of their iterations and the properties hold for every such
  list; no fuel is used. Block numbers are 64-bit words; an addition that overflows, which panics in debug builds, is the value \<open>None\<close>.

  \<^bold>\<open>Parameters.\<close> Code outside the repository is an argument: the node, the ABI decoder and hash functions, the script engine with its analyser, the
  template renderer, HTTP clients and brokers, the clock, the rendering of JSON and times as text. Properties that need something of them name it
  as a hypothesis (a codec that decodes what it encodes, digests without collisions on the strings at hand, a bloom filter without false
  negatives, a node that answers consistently), and each has a witness with a concrete instance.

  \<^bold>\<open>Not modelled.\<close> Parsing and rendering of templates (\<open>minijinja\<close>), connecting, publishing and closing of brokers and webhooks (third-party clients, the
  world of the dispatcher), the script engine behind its settings (\<open>rhai\<close>), command-line parsing apart from the start block, tracing, opening and migrating the database (the schema is in the record and its invariant), test utilities, tests, benchmarks and
  examples.
\<close>

end
